(* ===== verification/Prelude.thy ===== *)
theory Prelude
  imports Complex_Main "HOL-Library.Word" "HOL-Library.Multiset" "HOL-Library.Monad_Syntax"
    "HOL-Library.Char_ord" "HOL-Library.List_Lexorder" "HOL-Library.Sublist"
begin

text \<open>
  The parts of the Go language and of its standard library that every component of the
  node uses: the two 64-bit integer types, truncating division, the byte-string functions of
  the packages \<open>strings\<close> and \<open>strconv\<close>, and the generic lemmas on sums, sorted lists and
  option-valued computations that the component theories share.

  An \<open>int64\<close> and a \<open>uint64\<close> are both a 64-bit word: \<open>+\<close>, \<open>-\<close> and unary minus wrap as in
  Go, a signed value is compared through \<open>sint\<close> and an unsigned one with the order of
  words. A value of \<open>big.Int\<close> is an \<open>int\<close>. A Go string is a list of bytes (\<open>string\<close>).
  A computation that may not return (a Go panic, or a retry loop that never ends) has an
  option type and is \<open>None\<close> in that case.
\<close>

section \<open>Machine integers\<close>

type_synonym int64 = "64 word"
type_synonym uint64 = "64 word"

named_theorems go_simps \<open>defining equations of the Go library functions\<close>

definition i64_max :: int where
  "i64_max = 9223372036854775807"

definition i64_min :: int where
  "i64_min = - 9223372036854775808"

definition fits_int64 :: "int \<Rightarrow> bool" where
  "fits_int64 x \<longleftrightarrow> i64_min \<le> x \<and> x \<le> i64_max"

text \<open>\<open>big.Int.Quo\<close> and Go's \<open>/\<close> and \<open>%\<close> truncate towards zero.\<close>

definition quo :: "int \<Rightarrow> int \<Rightarrow> int" where
  "quo a b = sgn a * sgn b * (\<bar>a\<bar> div \<bar>b\<bar>)"

definition go_rem :: "int \<Rightarrow> int \<Rightarrow> int" where
  "go_rem a b = a - b * quo a b"

lemma fits_sint [simp]: "fits_int64 (sint (w :: int64))"
  using sint_lt [of w] sint_ge [of w] by (simp add: fits_int64_def i64_max_def i64_min_def)

lemma sint_bounds: "i64_min \<le> sint (w :: int64)" "sint (w :: int64) \<le> i64_max"
  using fits_sint [of w] by (auto simp: fits_int64_def)

lemma sint_of_fits: "fits_int64 x \<Longrightarrow> sint (word_of_int x :: int64) = x"
  by (simp add: fits_int64_def i64_max_def i64_min_def sint_sbintrunc' signed_take_bit_int_eq_self)

lemma sint_diff_fits: "fits_int64 (sint a - sint b) \<Longrightarrow> sint (a - b :: int64) = sint a - sint b"
  by (simp add: fits_int64_def i64_max_def i64_min_def sint_word_diff signed_take_bit_int_eq_self)

lemma sint_add_fits: "fits_int64 (sint a + sint b) \<Longrightarrow> sint (a + b :: int64) = sint a + sint b"
  by (simp add: fits_int64_def i64_max_def i64_min_def sint_word_add signed_take_bit_int_eq_self)

lemma sint_minus_fits: "fits_int64 (- sint a) \<Longrightarrow> sint (- a :: int64) = - sint a"
  using sint_diff_fits [of 0 a] by simp

lemma sint_debit: "0 \<le> sint a \<Longrightarrow> sint a \<le> sint b \<Longrightarrow> sint (b - a :: int64) = sint b - sint a"
  by (rule sint_diff_fits) (use sint_bounds [of b] sint_bounds [of a] in
      \<open>simp add: fits_int64_def i64_max_def i64_min_def\<close>)

lemma sint_inj [simp]: "sint a = sint b \<longleftrightarrow> a = (b :: int64)"
  by (auto intro: signed_word_eqI)

lemma quo_nonneg [simp]: "0 \<le> a \<Longrightarrow> 0 < b \<Longrightarrow> quo a b = a div b"
  by (cases "a = 0") (auto simp: quo_def)

lemma go_rem_nonneg [simp]: "0 \<le> a \<Longrightarrow> 0 < b \<Longrightarrow> go_rem a b = a mod b"
  by (simp add: go_rem_def minus_mult_div_eq_mod)

lemma quo_bounds: "0 \<le> a \<Longrightarrow> 0 < b \<Longrightarrow> 0 \<le> quo a b" "0 \<le> a \<Longrightarrow> 0 < b \<Longrightarrow> quo a b \<le> a"
  using zdiv_mono2 [of a 1 b] by (simp_all add: pos_imp_zdiv_nonneg_iff)

lemma quo_mult_le: "0 \<le> a \<Longrightarrow> 0 \<le> x \<Longrightarrow> x \<le> b \<Longrightarrow> 0 < b \<Longrightarrow> quo (a * x) b \<le> a"
proof -
  assume h: "0 \<le> a" "0 \<le> x" "x \<le> b" "0 < b"
  then have "a * x div b \<le> a * b div b"
    by (intro zdiv_mono1 mult_left_mono) auto
  with h show ?thesis by simp
qed

section \<open>Sums over lists\<close>

lemma uint64_succ_le: "(b :: uint64) < - 1 \<Longrightarrow> b + 1 \<le> x \<longleftrightarrow> b < x"
proof -
  assume b: "b < - 1"
  then have "uint b < 2 ^ 64 - 1" by (simp add: word_less_def unsigned_minus_1_eq_mask mask_eq_exp_minus_1)
  moreover have "0 \<le> uint b" by simp
  ultimately have "uint (b + 1) = uint b + 1" by (simp add: uint_word_ariths)
  then show ?thesis by (auto simp: word_less_def word_le_def)
qed

lemma find_SomeD: "find P xs = Some x \<Longrightarrow> x \<in> set xs \<and> P x"
  by (induction xs) (auto split: if_splits)

lemma find_unique:
  assumes "x \<in> set xs" "P x" "\<forall>y \<in> set xs. P y \<longrightarrow> y = x"
  shows "find P xs = Some x"
proof (cases "find P xs")
  case None
  with assms(1,2) show ?thesis by (simp add: find_None_iff)
next
  case (Some y)
  with assms(3) show ?thesis by (metis find_SomeD)
qed

lemma disjoint_single: "A \<subseteq> {x} \<Longrightarrow> B \<subseteq> C \<Longrightarrow> x \<notin> C \<Longrightarrow> A \<inter> B = {}"
  by auto

lemma sum_list_mset_cong:
  "mset xs = mset ys \<Longrightarrow> sum_list (map f xs) = sum_list (map (f :: 'a \<Rightarrow> 'b :: comm_monoid_add) ys)"
  by (metis mset_map sum_mset_sum_list)

section \<open>Byte strings\<close>

definition HasPrefix :: "string \<Rightarrow> string \<Rightarrow> bool" where
  [go_simps]: "HasPrefix s p \<longleftrightarrow> take (length p) s = p"

definition HasSuffix :: "string \<Rightarrow> string \<Rightarrow> bool" where
  [go_simps]: "HasSuffix s p \<longleftrightarrow> HasPrefix (rev s) (rev p)"

definition TrimPrefix :: "string \<Rightarrow> string \<Rightarrow> string" where
  [go_simps]: "TrimPrefix s p = (if HasPrefix s p then drop (length p) s else s)"

definition TrimSuffix :: "string \<Rightarrow> string \<Rightarrow> string" where
  [go_simps]: "TrimSuffix s p = (if HasSuffix s p then take (length s - length p) s else s)"

text \<open>The ASCII white space of \<open>strings.TrimSpace\<close>; accounts and identifiers are ASCII.\<close>

definition isSpace :: "char \<Rightarrow> bool" where
  [go_simps]: "isSpace c \<longleftrightarrow> c \<in> {CHR '' '', CHR 0x09, CHR 0x0A, CHR 0x0B, CHR 0x0C, CHR 0x0D}"

definition TrimSpace :: "string \<Rightarrow> string" where
  [go_simps]: "TrimSpace s = rev (dropWhile isSpace (rev (dropWhile isSpace s)))"

text \<open>\<open>strings.Split\<close> on a one-byte separator, \<open>strings.Cut\<close> on a longer one, and the two
  halves of a string around its last separator byte (\<open>strings.LastIndex\<close>).\<close>

fun SplitOn :: "char \<Rightarrow> string \<Rightarrow> string list" where
  "SplitOn c [] = [[]]"
| "SplitOn c (x # xs) =
     (if x = c then [] # SplitOn c xs
      else case SplitOn c xs of [] \<Rightarrow> [[x]] | w # ws \<Rightarrow> (x # w) # ws)"

fun Cut :: "string \<Rightarrow> string \<Rightarrow> (string \<times> string) option" where
  "Cut sep [] = (if sep = [] then Some ([], []) else None)"
| "Cut sep (x # xs) =
     (if HasPrefix (x # xs) sep then Some ([], drop (length sep) (x # xs))
      else map_option (\<lambda>(a, b). (x # a, b)) (Cut sep xs))"

definition CutLast :: "char \<Rightarrow> string \<Rightarrow> (string \<times> string) option" where
  [go_simps]: "CutLast c s =
     (if c \<in> set s then
        Some (rev (tl (dropWhile (\<lambda>x. x \<noteq> c) (rev s))), rev (takeWhile (\<lambda>x. x \<noteq> c) (rev s)))
      else None)"

lemma HasPrefix_append [simp]: "HasPrefix (p @ s) p"
  by (simp add: HasPrefix_def)

lemma HasPrefixE: "HasPrefix s p \<Longrightarrow> (\<And>t. s = p @ t \<Longrightarrow> R) \<Longrightarrow> R"
  by (metis HasPrefix_def append_take_drop_id)

lemma HasSuffix_append [simp]: "HasSuffix (s @ p) p"
  by (simp add: HasSuffix_def)

lemma TrimSuffix_append [simp]: "TrimSuffix (s @ p) p = s"
  by (simp add: TrimSuffix_def)

lemma HasSuffixE: "HasSuffix s p \<Longrightarrow> (\<And>t. s = t @ p \<Longrightarrow> R) \<Longrightarrow> R"
  unfolding HasSuffix_def by (metis HasPrefixE rev_append rev_rev_ident)

lemma CutLast_append [simp]: "c \<notin> set t \<Longrightarrow> CutLast c (s @ c # t) = Some (s, t)"
proof -
  assume c: "c \<notin> set t"
  then have "takeWhile (\<lambda>x. x \<noteq> c) (rev t @ c # rev s) = rev t"
    and "dropWhile (\<lambda>x. x \<noteq> c) (rev t @ c # rev s) = c # rev s"
    by (auto simp: takeWhile_append dropWhile_append)
  then show ?thesis by (simp add: CutLast_def)
qed

section \<open>Decimal numerals of strconv\<close>

definition dec_digit :: "nat \<Rightarrow> char" where
  "dec_digit n = char_of (48 + n)"

fun nat_to_dec :: "nat \<Rightarrow> string" where
  "nat_to_dec n = (if n < 10 then [dec_digit n] else nat_to_dec (n div 10) @ [dec_digit (n mod 10)])"

declare nat_to_dec.simps [simp del]

definition isDigit :: "char \<Rightarrow> bool" where
  "isDigit c \<longleftrightarrow> CHR ''0'' \<le> c \<and> c \<le> CHR ''9''"

definition dec_value :: "string \<Rightarrow> nat" where
  "dec_value s = foldl (\<lambda>v c. 10 * v + (of_char c - 48)) 0 s"

definition FormatUint :: "uint64 \<Rightarrow> string" where
  "FormatUint w = nat_to_dec (unat w)"

definition ParseUint :: "string \<Rightarrow> uint64 option" where
  "ParseUint s =
     (if s \<noteq> [] \<and> list_all isDigit s \<and> dec_value s < 2 ^ 64 then Some (of_nat (dec_value s)) else None)"

lemma of_char_dec_digit [simp]: "d < 10 \<Longrightarrow> of_char (dec_digit d) = (48 + d :: nat)"
  by (simp add: dec_digit_def)

lemma isDigit_dec_digit [simp]: "d < 10 \<Longrightarrow> isDigit (dec_digit d)"
  by (simp add: isDigit_def less_eq_char_def dec_digit_def)

lemma nat_to_dec_nonempty [simp]: "nat_to_dec n \<noteq> []"
  by (subst nat_to_dec.simps) simp

lemma nat_to_dec_digits: "list_all isDigit (nat_to_dec n)"
proof (induction n rule: nat_to_dec.induct)
  case (1 n)
  then show ?case by (subst nat_to_dec.simps) auto
qed

lemma dec_value_nat_to_dec [simp]: "dec_value (nat_to_dec n) = n"
proof (induction n rule: nat_to_dec.induct)
  case (1 n)
  then show ?case by (subst nat_to_dec.simps) (auto simp: dec_value_def)
qed

lemma ParseUint_FormatUint [simp]: "ParseUint (FormatUint w) = Some w"
  using unsigned_less [of w]
  by (simp add: ParseUint_def FormatUint_def nat_to_dec_digits)

lemma isDigit_not_space: "isDigit c \<Longrightarrow> \<not> isSpace c"
  by (auto simp: isDigit_def isSpace_def less_eq_char_def)

lemma TrimSpace_digits: "list_all isDigit s \<Longrightarrow> TrimSpace s = s"
proof -
  assume d: "list_all isDigit s"
  have dw: "dropWhile isSpace t = t" if "list_all isDigit t" for t
    using that by (cases t) (auto simp: isDigit_not_space)
  show ?thesis using d by (simp add: TrimSpace_def dw)
qed

lemma TrimSpace_FormatUint [simp]: "TrimSpace (FormatUint w) = FormatUint w"
  by (rule TrimSpace_digits) (simp add: FormatUint_def nat_to_dec_digits)

end
