(* ===== verification/Mongo.thy ===== *)
theory Mongo
  imports Prelude
begin

text \<open>
  The boundary to MongoDB, which is not part of the repository. The driver's collection
  operations are a parameter of every definition that reads or writes a collection: a record
  \<open>collection\<close> of the functions the code calls, on the documents of a collection as a list.
  The locale \<open>mongo_collection\<close> states what the driver documents about them: which documents a
  query returns and in what order, that an upsert replaces one matching document or inserts
  the new one, that a delete or an update touches exactly the matching documents. Nothing is
  said about the order in which the server keeps its documents.

  A call may fail. A server carries the schedule of the outcomes of the coming calls: a call
  goes through, its request is lost (nothing happened on the server), or its reply is lost
  (the write happened and the caller sees an error). \<open>blockingRetry\<close> is the node's fail-stop
  loop around such calls; the schedule is finite, that is, the database recovers in the end.
\<close>

section \<open>The collection operations of the driver\<close>

record 'd collection =
  Find :: "('d \<Rightarrow> bool) \<Rightarrow> ('d \<Rightarrow> 'd \<Rightarrow> bool) \<Rightarrow> 'd list \<Rightarrow> 'd list"
  FindOne :: "('d \<Rightarrow> bool) \<Rightarrow> ('d \<Rightarrow> 'd \<Rightarrow> bool) \<Rightarrow> 'd list \<Rightarrow> 'd option"
  Upsert :: "('d \<Rightarrow> bool) \<Rightarrow> 'd \<Rightarrow> 'd list \<Rightarrow> 'd list"
  UpdateMany :: "('d \<Rightarrow> bool) \<Rightarrow> ('d \<Rightarrow> 'd) \<Rightarrow> 'd list \<Rightarrow> 'd list"
  DeleteMany :: "('d \<Rightarrow> bool) \<Rightarrow> 'd list \<Rightarrow> 'd list"
  Distinct :: "('d \<Rightarrow> string) \<Rightarrow> ('d \<Rightarrow> bool) \<Rightarrow> 'd list \<Rightarrow> string list"

text \<open>What one keyed write does to the documents of a collection, and what a list of them does.\<close>

definition put :: "('d \<Rightarrow> 'k) \<Rightarrow> 'd \<Rightarrow> 'd multiset \<Rightarrow> 'd multiset" where
  "put key d m = filter_mset (\<lambda>x. key x \<noteq> key d) m + {#d#}"

definition puts :: "('d \<Rightarrow> 'k) \<Rightarrow> 'd list \<Rightarrow> 'd multiset \<Rightarrow> 'd multiset" where
  "puts key ds m = fold (put key) ds m"

fun last_writes :: "('d \<Rightarrow> 'k) \<Rightarrow> 'd list \<Rightarrow> 'd list" where
  "last_writes key [] = []"
| "last_writes key (d # ds) =
     (if key d \<in> key ` set ds then last_writes key ds else d # last_writes key ds)"

lemma puts_Nil [simp]: "puts key [] m = m"
  by (simp add: puts_def)

lemma puts_Cons [simp]: "puts key (d # ds) m = puts key ds (put key d m)"
  by (simp add: puts_def)

lemma puts_append: "puts key (ds @ es) m = puts key es (puts key ds m)"
  by (simp add: puts_def)

lemma set_last_writes: "set (last_writes key ds) \<subseteq> set ds"
  by (induction ds) auto

lemma last_writes_distinct: "distinct (map key ds) \<Longrightarrow> last_writes key ds = ds"
  by (induction ds) auto

lemma filter_mset_filter_mset:
  "filter_mset P (filter_mset Q m) = filter_mset (\<lambda>x. Q x \<and> P x) m"
  by (induction m) auto

lemma puts_eq:
  "puts key ds m = filter_mset (\<lambda>x. key x \<notin> key ` set ds) m + mset (last_writes key ds)"
proof (induction ds arbitrary: m)
  case Nil
  then show ?case by simp
next
  case (Cons d ds)
  have "filter_mset (\<lambda>x. key x \<notin> key ` set ds) (filter_mset (\<lambda>x. key x \<noteq> key d) m)
      = filter_mset (\<lambda>x. key x \<notin> key ` set (d # ds)) m"
    by (auto simp: filter_mset_filter_mset intro: filter_mset_cong)
  then show ?case
    by (simp add: Cons.IH put_def)
qed

text \<open>A partial batch of writes followed by the whole batch leaves what the whole batch leaves.\<close>

lemma puts_prefix_absorb: "puts key (ds @ es) (puts key ds m) = puts key (ds @ es) m"
proof -
  let ?P = "\<lambda>x. key x \<notin> key ` set (ds @ es)"
  have "filter_mset ?P (mset (last_writes key ds)) = {#}"
    using set_last_writes [of key ds] by (auto simp: filter_mset_eq_mempty_iff)
  moreover have "filter_mset ?P (filter_mset (\<lambda>x. key x \<notin> key ` set ds) m) = filter_mset ?P m"
    by (auto simp: filter_mset_filter_mset intro: filter_mset_cong)
  ultimately show ?thesis by (simp add: puts_eq)
qed

lemma puts_idem: "puts key ds (puts key ds m) = puts key ds m"
  using puts_prefix_absorb [of key ds "[]" m] by simp

lemma put_distinct:
  "distinct (map key xs) \<Longrightarrow> mset ys = put key d (mset xs) \<Longrightarrow> distinct (map key ys)"
proof -
  assume d: "distinct (map key xs)" and m: "mset ys = put key d (mset xs)"
  let ?zs = "filter (\<lambda>x. key x \<noteq> key d) xs @ [d]"
  have "mset ys = mset ?zs" using m by (simp add: put_def)
  then have "mset (map key ys) = mset (map key ?zs)" by (metis mset_map)
  moreover have "distinct (map key ?zs)"
    using d by (auto simp: distinct_map_filter)
  ultimately show ?thesis by (metis mset_eq_imp_distinct_iff)
qed

locale mongo_collection =
  fixes C :: "'d collection"
  assumes find_docs: "mset (Find C P le xs) = filter_mset P (mset xs)"
    and find_sorted: "transp le \<Longrightarrow> totalp le \<Longrightarrow> reflp le \<Longrightarrow> sorted_wrt le (Find C P le xs)"
    and find_one_none: "FindOne C P le xs = None \<longleftrightarrow> (\<forall>x \<in> set xs. \<not> P x)"
    and find_one_some: "FindOne C P le xs = Some x \<Longrightarrow> x \<in> set xs \<and> P x"
    and find_one_first: "transp le \<Longrightarrow> totalp le \<Longrightarrow> reflp le \<Longrightarrow> FindOne C P le xs = Some x \<Longrightarrow>
      y \<in> set xs \<Longrightarrow> P y \<Longrightarrow> le x y"
    and upsert_hit: "\<exists>x \<in> set xs. P x \<Longrightarrow>
      \<exists>x \<in> set xs. P x \<and> mset (Upsert C P d xs) = mset xs - {#x#} + {#d#}"
    and upsert_miss: "\<forall>x \<in> set xs. \<not> P x \<Longrightarrow> mset (Upsert C P d xs) = mset xs + {#d#}"
    and update_many: "mset (UpdateMany C P f xs) = image_mset (\<lambda>x. if P x then f x else x) (mset xs)"
    and delete_many: "mset (DeleteMany C P xs) = filter_mset (\<lambda>x. \<not> P x) (mset xs)"
    and distinct_values: "distinct (Distinct C g P xs)"
      "set (Distinct C g P xs) = g ` {x \<in> set xs. P x}"
begin

lemma set_find [simp]: "set (Find C P le xs) = {x \<in> set xs. P x}"
proof -
  have "set_mset (mset (Find C P le xs)) = set_mset (filter_mset P (mset xs))"
    by (simp only: find_docs)
  then show ?thesis by auto
qed

lemma sum_find:
  "sum_list (map (f :: 'd \<Rightarrow> 'b :: comm_monoid_add) (Find C P le xs)) = sum_list (map f (filter P xs))"
  by (rule sum_list_mset_cong) (simp add: find_docs)

lemma upsert_put:
  assumes "distinct (map key xs)"
  shows "mset (Upsert C (\<lambda>x. key x = key d) d xs) = put key d (mset xs)"
proof (cases "\<exists>x \<in> set xs. key x = key d")
  case True
  then obtain x where x: "x \<in> set xs" "key x = key d"
    and m: "mset (Upsert C (\<lambda>x. key x = key d) d xs) = mset xs - {#x#} + {#d#}"
    using upsert_hit [of xs "\<lambda>x. key x = key d" d] by blast
  obtain as bs where xs: "xs = as @ x # bs" using x(1) by (meson split_list)
  have "\<forall>y \<in> set (as @ bs). key y \<noteq> key d"
    using assms x(2) unfolding xs by (auto simp: image_iff)
  then have "filter (\<lambda>y. key y \<noteq> key d) (as @ bs) = as @ bs"
    by (simp only: filter_True)
  then have "filter (\<lambda>y. key y \<noteq> key d) xs = as @ bs"
    using x(2) unfolding xs by simp
  then have "filter_mset (\<lambda>y. key y \<noteq> key d) (mset xs) = mset (as @ bs)"
    by (metis mset_filter)
  with m xs show ?thesis by (simp add: put_def)
next
  case False
  then have "mset (Upsert C (\<lambda>x. key x = key d) d xs) = mset xs + {#d#}"
    by (intro upsert_miss) auto
  moreover have "filter_mset (\<lambda>y. key y \<noteq> key d) (mset xs) = mset xs"
    using False by (auto simp: filter_mset_eq_conv)
  ultimately show ?thesis by (simp add: put_def)
qed

lemma upsert_distinct:
  "distinct (map key xs) \<Longrightarrow> distinct (map key (Upsert C (\<lambda>x. key x = key d) d xs))"
  by (rule put_distinct [of key xs _ d]) (simp_all add: upsert_put)

end

section \<open>A list-backed collection\<close>

text \<open>
  One collection that keeps to the documented behaviour: the documents in insertion order, a
  stable insertion sort, the first match replaced in place. It is the concrete collection at
  which the properties of the development are evaluated.
\<close>

fun insert_by :: "('d \<Rightarrow> 'd \<Rightarrow> bool) \<Rightarrow> 'd \<Rightarrow> 'd list \<Rightarrow> 'd list" where
  "insert_by le x [] = [x]"
| "insert_by le x (y # ys) = (if le x y then x # y # ys else y # insert_by le x ys)"

definition sort_by :: "('d \<Rightarrow> 'd \<Rightarrow> bool) \<Rightarrow> 'd list \<Rightarrow> 'd list" where
  "sort_by le xs = foldr (insert_by le) xs []"

fun replace_first :: "('d \<Rightarrow> bool) \<Rightarrow> 'd \<Rightarrow> 'd list \<Rightarrow> 'd list" where
  "replace_first P d [] = [d]"
| "replace_first P d (x # xs) = (if P x then d # xs else x # replace_first P d xs)"

definition list_collection :: "'d collection" where
  "list_collection = \<lparr>
     Find = (\<lambda>P le xs. sort_by le (filter P xs)),
     FindOne = (\<lambda>P le xs. case sort_by le (filter P xs) of [] \<Rightarrow> None | x # _ \<Rightarrow> Some x),
     Upsert = replace_first,
     UpdateMany = (\<lambda>P f. map (\<lambda>x. if P x then f x else x)),
     DeleteMany = (\<lambda>P. filter (\<lambda>x. \<not> P x)),
     Distinct = (\<lambda>f P xs. remdups (map f (filter P xs)))\<rparr>"

lemma mset_insert_by [simp]: "mset (insert_by le x xs) = add_mset x (mset xs)"
  by (induction xs) auto

lemma mset_sort_by [simp]: "mset (sort_by le xs) = mset xs"
  by (induction xs) (auto simp: sort_by_def)

lemma set_sort_by [simp]: "set (sort_by le xs) = set xs"
  by (rule mset_eq_setD) simp

lemma set_insert_by [simp]: "set (insert_by le x xs) = insert x (set xs)"
  by (induction xs) auto

lemma insert_by_sorted:
  "transp le \<Longrightarrow> totalp le \<Longrightarrow> reflp le \<Longrightarrow> sorted_wrt le xs \<Longrightarrow> sorted_wrt le (insert_by le x xs)"
proof (induction xs)
  case Nil
  then show ?case by simp
next
  case (Cons y ys)
  have "le y x" if "\<not> le x y"
    using totalpD [OF Cons.prems(2), of x y] reflpD [OF Cons.prems(3), of x] that by (cases "x = y") auto
  moreover have "\<forall>z \<in> set ys. le x z" if "le x y"
    using Cons.prems(1,4) that by (auto dest: transpD)
  ultimately show ?case using Cons by auto
qed

lemma sort_by_sorted: "transp le \<Longrightarrow> totalp le \<Longrightarrow> reflp le \<Longrightarrow> sorted_wrt le (sort_by le xs)"
  by (induction xs) (auto simp: sort_by_def insert_by_sorted)

lemma replace_first_hit:
  "\<exists>x \<in> set xs. P x \<Longrightarrow>
     \<exists>x \<in> set xs. P x \<and> mset (replace_first P d xs) = mset xs - {#x#} + {#d#}"
proof (induction xs)
  case Nil
  then show ?case by simp
next
  case (Cons y ys)
  show ?case
  proof (cases "P y")
    case True
    then show ?thesis by auto
  next
    case False
    with Cons obtain x where x: "x \<in> set ys" "P x"
      and m: "mset (replace_first P d ys) = mset ys - {#x#} + {#d#}" by auto
    from x(1) obtain n where n: "mset ys = add_mset x n" by (metis multi_member_split set_mset_mset)
    have "mset (replace_first P d (y # ys)) = mset (y # ys) - {#x#} + {#d#}"
      using False m n by simp
    with x show ?thesis by auto
  qed
qed

lemma replace_first_miss: "\<forall>x \<in> set xs. \<not> P x \<Longrightarrow> mset (replace_first P d xs) = mset xs + {#d#}"
  by (induction xs) auto

lemma sort_by_first:
  assumes "transp le" "totalp le" "reflp le" "sort_by le xs = x # zs" "y \<in> set xs"
  shows "le x y"
proof -
  have "sorted_wrt le (x # zs)" using sort_by_sorted [OF assms(1,2,3), of xs] assms(4) by simp
  moreover have "y \<in> set (x # zs)" using assms(4,5) by (metis set_sort_by)
  ultimately show ?thesis using reflpD [OF assms(3), of x] by auto
qed

lemma sort_by_Nil_iff: "sort_by le (filter P xs) = [] \<longleftrightarrow> (\<forall>x \<in> set xs. \<not> P x)"
  by (metis mset_sort_by mset_zero_iff filter_empty_conv)

interpretation list_coll: mongo_collection list_collection
proof
  fix P Q :: "'a \<Rightarrow> bool" and le and f :: "'a \<Rightarrow> 'a" and g :: "'a \<Rightarrow> string" and d x y :: 'a and xs
  show "mset (Find list_collection P le xs) = filter_mset P (mset xs)"
    by (simp add: list_collection_def)
  show "transp le \<Longrightarrow> totalp le \<Longrightarrow> reflp le \<Longrightarrow> sorted_wrt le (Find list_collection P le xs)"
    by (simp add: list_collection_def sort_by_sorted)
  show "(FindOne list_collection P le xs = None) = (\<forall>x \<in> set xs. \<not> P x)"
    using sort_by_Nil_iff [of le P xs]
    by (cases "sort_by le (filter P xs)") (simp_all add: list_collection_def)
  show "FindOne list_collection P le xs = Some x \<Longrightarrow> x \<in> set xs \<and> P x"
    using set_sort_by [of le "filter P xs"]
    by (cases "sort_by le (filter P xs)") (auto simp: list_collection_def)
  show "\<lbrakk>transp le; totalp le; reflp le; FindOne list_collection P le xs = Some x; y \<in> set xs; P y\<rbrakk>
      \<Longrightarrow> le x y"
    using sort_by_first [of le "filter P xs" x _ y]
    by (cases "sort_by le (filter P xs)") (simp_all add: list_collection_def)
  show "\<exists>x \<in> set xs. P x \<Longrightarrow>
      \<exists>x \<in> set xs. P x \<and> mset (Upsert list_collection P d xs) = mset xs - {#x#} + {#d#}"
    using replace_first_hit [of xs P d] unfolding list_collection_def collection.simps .
  show "\<forall>x \<in> set xs. \<not> P x \<Longrightarrow> mset (Upsert list_collection P d xs) = mset xs + {#d#}"
    using replace_first_miss [of xs P d] by (simp add: list_collection_def)
  show "mset (UpdateMany list_collection P f xs) = image_mset (\<lambda>x. if P x then f x else x) (mset xs)"
    by (simp add: list_collection_def)
  show "mset (DeleteMany list_collection P xs) = filter_mset (\<lambda>x. \<not> P x) (mset xs)"
    by (simp add: list_collection_def)
  show "distinct (Distinct list_collection g P xs)"
    by (simp add: list_collection_def)
  show "set (Distinct list_collection g P xs) = g ` {x \<in> set xs. P x}"
    by (simp add: list_collection_def)
qed

section \<open>A server whose calls may fail\<close>

datatype call_outcome = CallOk | RequestLost | ReplyLost

datatype db_error = DbFault | NoDocuments | NilResult

record 'c server =
  contents :: 'c
  faults :: "call_outcome list"

text \<open>One call: it runs on the contents, or its request is lost, or it runs and its reply is lost.\<close>

definition db_call :: "('c \<Rightarrow> 'a \<times> 'c) \<Rightarrow> 'c server \<Rightarrow> (db_error + 'a) \<times> 'c server" where
  "db_call f s =
     (case faults s of
        [] \<Rightarrow> (Inr (fst (f (contents s))), s\<lparr>contents := snd (f (contents s))\<rparr>)
      | CallOk # fs \<Rightarrow> (Inr (fst (f (contents s))), s\<lparr>contents := snd (f (contents s)), faults := fs\<rparr>)
      | RequestLost # fs \<Rightarrow> (Inl DbFault, s\<lparr>faults := fs\<rparr>)
      | ReplyLost # fs \<Rightarrow> (Inl DbFault, s\<lparr>contents := snd (f (contents s)), faults := fs\<rparr>))"

abbreviation db_read :: "('c \<Rightarrow> 'a) \<Rightarrow> 'c server \<Rightarrow> (db_error + 'a) \<times> 'c server" where
  "db_read q \<equiv> db_call (\<lambda>c. (q c, c))"

abbreviation db_write :: "('c \<Rightarrow> 'c) \<Rightarrow> 'c server \<Rightarrow> (db_error + unit) \<times> 'c server" where
  "db_write g \<equiv> db_call (\<lambda>c. ((), g c))"

end
