(* ===== verification/FailStop.thy ===== *)
theory FailStop
  imports Mongo
begin

text \<open>
  The fail-stop discipline of the ledger: \<open>blockingRetry\<close> (modules/ledger-system/ledger_system.go)
  and \<open>blockingLedgerRead\<close> (ledger_state.go) repeat a database operation until it succeeds, so
  that a node either computes what every other node computes or makes no progress. The loop is a
  partial function: \<open>None\<close> is a loop that never ends. The lemmas show that on a schedule with
  finitely many faults it does end, that a read returns what a fault-free read returns, and that
  a batch of idempotent writes interrupted at any point leaves what the whole batch leaves.
\<close>

section \<open>The retry loop\<close>

text \<open>Delays in milliseconds: 100 at first, doubled after every failure, at most 30000.\<close>

definition baseDelay :: nat where
  "baseDelay = 100"

definition maxDelay :: nat where
  "maxDelay = 30000"

definition next_delay :: "nat \<Rightarrow> nat" where
  "next_delay delay =
     (if delay < maxDelay then (let delay = delay * 2 in if delay > maxDelay then maxDelay else delay)
      else delay)"

partial_function (option) retry_loop ::
  "nat \<Rightarrow> ('s \<Rightarrow> (db_error + 'a) \<times> 's) \<Rightarrow> 's \<Rightarrow> ('a \<times> 's) option" where
  "retry_loop delay read s =
     (case read s of
        (Inr v, s') \<Rightarrow> Some (v, s')
      | (Inl e, s') \<Rightarrow> retry_loop (next_delay delay) read s')"

definition blockingRetry :: "('s \<Rightarrow> (db_error + 'a) \<times> 's) \<Rightarrow> 's \<Rightarrow> ('a \<times> 's) option" where
  "blockingRetry read s = retry_loop baseDelay read s"

definition blockingLedgerRead :: "('s \<Rightarrow> (db_error + 'a) \<times> 's) \<Rightarrow> 's \<Rightarrow> ('a \<times> 's) option" where
  "blockingLedgerRead read s = retry_loop baseDelay read s"

lemma next_delay_bounds:
  "baseDelay \<le> d \<Longrightarrow> d \<le> maxDelay \<Longrightarrow> baseDelay \<le> next_delay d \<and> next_delay d \<le> maxDelay"
  by (auto simp: next_delay_def Let_def baseDelay_def maxDelay_def)

lemma retry_loop_Inr: "read s = (Inr v, s') \<Longrightarrow> retry_loop d read s = Some (v, s')"
  by (simp add: retry_loop.simps)

lemma retry_loop_Inl: "read s = (Inl e, s') \<Longrightarrow> retry_loop d read s = retry_loop (next_delay d) read s'"
  by (simp add: retry_loop.simps [of d])

text \<open>
  The schedule left after a call that is retried until it goes through.
\<close>

definition settle :: "call_outcome list \<Rightarrow> call_outcome list" where
  "settle fs = tl (dropWhile (\<lambda>f. f \<noteq> CallOk) fs)"

lemma settle_simps [simp]:
  "settle [] = []" "settle (CallOk # fs) = fs"
  "settle (RequestLost # fs) = settle fs" "settle (ReplyLost # fs) = settle fs"
  by (simp_all add: settle_def)

lemma retry_call:
  assumes idem: "\<And>c. f (snd (f c)) = f c"
  shows "retry_loop d (db_call f) s =
    Some (fst (f (contents s)), s\<lparr>contents := snd (f (contents s)), faults := settle (faults s)\<rparr>)"
proof (induction "faults s" arbitrary: s d)
  case Nil
  then show ?case
    by (subst retry_loop_Inr [where s' = "s\<lparr>contents := snd (f (contents s))\<rparr>"])
      (auto simp: db_call_def)
next
  case (Cons oc fs)
  show ?case
  proof (cases oc)
    case CallOk
    with Cons.hyps(2) [symmetric] show ?thesis
      by (subst retry_loop_Inr) (auto simp: db_call_def)
  next
    case RequestLost
    then have "retry_loop d (db_call f) s = retry_loop (next_delay d) (db_call f) (s\<lparr>faults := fs\<rparr>)"
      using Cons.hyps(2) [symmetric] by (intro retry_loop_Inl) (auto simp: db_call_def)
    with RequestLost Cons.hyps(1) [of "s\<lparr>faults := fs\<rparr>"] Cons.hyps(2) [symmetric] show ?thesis
      by simp
  next
    case ReplyLost
    let ?s' = "s\<lparr>contents := snd (f (contents s)), faults := fs\<rparr>"
    have "retry_loop d (db_call f) s = retry_loop (next_delay d) (db_call f) ?s'"
      using ReplyLost Cons.hyps(2) [symmetric] by (intro retry_loop_Inl) (auto simp: db_call_def)
    with ReplyLost Cons.hyps(1) [of ?s'] Cons.hyps(2) [symmetric] show ?thesis
      by (simp add: idem)
  qed
qed

lemma retry_read:
  "retry_loop d (db_read q) s = Some (q (contents s), s\<lparr>faults := settle (faults s)\<rparr>)"
  by (simp add: retry_call)

lemma blocking_read [simp]:
  "blockingRetry (db_read q) s = Some (q (contents s), s\<lparr>faults := settle (faults s)\<rparr>)"
  "blockingLedgerRead (db_read q) s = Some (q (contents s), s\<lparr>faults := settle (faults s)\<rparr>)"
  by (simp_all add: blockingRetry_def blockingLedgerRead_def retry_read)

text \<open>A retry closure that goes on from the result of its read: an error of the rest is retried too.\<close>

definition and_then :: "(db_error + 'a) \<times> 's \<Rightarrow> ('a \<Rightarrow> db_error + 'b) \<Rightarrow> (db_error + 'b) \<times> 's" where
  "and_then r f = (case r of (Inl e, s) \<Rightarrow> (Inl e, s) | (Inr a, s) \<Rightarrow> (f a, s))"

lemma retry_and_then:
  "f (q (contents s)) = Inr v \<Longrightarrow>
     retry_loop d (\<lambda>s. and_then (db_read q s) f) s = Some (v, s\<lparr>faults := settle (faults s)\<rparr>)"
proof (induction "faults s" arbitrary: s d)
  case Nil
  then show ?case
    by (subst retry_loop_Inr [where s' = s]) (auto simp: db_call_def and_then_def)
next
  case (Cons oc fs)
  show ?case
  proof (cases "oc = CallOk")
    case True
    with Cons.hyps(2) [symmetric] Cons.prems show ?thesis
      by (subst retry_loop_Inr) (auto simp: db_call_def and_then_def)
  next
    case False
    then have "retry_loop d (\<lambda>s. and_then (db_read q s) f) s =
        retry_loop (next_delay d) (\<lambda>s. and_then (db_read q s) f) (s\<lparr>faults := fs\<rparr>)"
      using Cons.hyps(2) [symmetric]
      by (intro retry_loop_Inl) (cases oc, auto simp: db_call_def and_then_def)
    moreover have "settle (faults s) = settle fs"
      using False Cons.hyps(2) [symmetric] by (cases oc) auto
    ultimately show ?thesis
      using Cons.hyps(1) [of "s\<lparr>faults := fs\<rparr>"] Cons.prems by simp
  qed
qed

lemma blocking_and_then:
  assumes "f (q (contents s)) = Inr v"
  shows "blockingRetry (\<lambda>s. and_then (db_read q s) f) s = Some (v, s\<lparr>faults := settle (faults s)\<rparr>)"
    and "blockingLedgerRead (\<lambda>s. and_then (db_read q s) f) s = Some (v, s\<lparr>faults := settle (faults s)\<rparr>)"
  by (simp_all add: blockingRetry_def blockingLedgerRead_def retry_and_then [where f = f and q = q, OF assms])

lemma db_read_attempt:
  obtains fs where "db_read q s = (Inr (q (contents s)), s\<lparr>faults := fs\<rparr>)" "length fs \<le> length (faults s)"
  | fs where "db_read q s = (Inl DbFault, s\<lparr>faults := fs\<rparr>)" "length fs < length (faults s)"
proof (cases "faults s")
  case Nil
  then show ?thesis using that(1) [of "[]"] by (simp add: db_call_def)
next
  case (Cons f fs)
  then show ?thesis using that(1) [of fs] that(2) [of fs] by (cases f) (simp_all add: db_call_def)
qed

text \<open>
  A read made of several calls: each attempt returns the value or uses up a fault. Retried, it
  returns the value.
\<close>

lemma retry_attempts:
  assumes "\<And>s. contents s = c \<Longrightarrow> (\<exists>fs. rd s = (Inr v, s\<lparr>faults := fs\<rparr>)) \<or>
    (\<exists>e fs. rd s = (Inl e, s\<lparr>faults := fs\<rparr>) \<and> length fs < length (faults s))"
    and "contents s = c"
  shows "\<exists>fs. retry_loop d rd s = Some (v, s\<lparr>faults := fs\<rparr>)"
  using assms(2)
proof (induction "length (faults s)" arbitrary: s d rule: less_induct)
  case less
  from assms(1) [OF less.prems] show ?case
  proof
    assume "\<exists>fs. rd s = (Inr v, s\<lparr>faults := fs\<rparr>)"
    then show ?thesis using retry_loop_Inr [of rd s v] by blast
  next
    assume "\<exists>e fs. rd s = (Inl e, s\<lparr>faults := fs\<rparr>) \<and> length fs < length (faults s)"
    then obtain e fs where e: "rd s = (Inl e, s\<lparr>faults := fs\<rparr>)" "length fs < length (faults s)" by blast
    from less.hyps [of "s\<lparr>faults := fs\<rparr>" "next_delay d"] e(2) less.prems obtain fs' where
      "retry_loop (next_delay d) rd (s\<lparr>faults := fs\<rparr>) = Some (v, s\<lparr>faults := fs'\<rparr>)" by auto
    then show ?thesis using retry_loop_Inl [of rd s e, OF e(1)] by auto
  qed
qed

section \<open>Batches of writes\<close>

text \<open>A loop over records, one call each, that returns at the first error.\<close>

fun each_call :: "('x \<Rightarrow> 'c \<Rightarrow> 'c) \<Rightarrow> 'x list \<Rightarrow> 'c server \<Rightarrow> (db_error + unit) \<times> 'c server" where
  "each_call g [] s = (Inr (), s)"
| "each_call g (x # xs) s =
     (case db_write (g x) s of
        (Inl e, s') \<Rightarrow> (Inl e, s')
      | (Inr u, s') \<Rightarrow> each_call g xs s')"

lemma each_call_Inr:
  "each_call g xs s = (Inr u, s') \<Longrightarrow> contents s' = fold g xs (contents s)"
proof (induction xs arbitrary: s)
  case Nil
  then show ?case by simp
next
  case (Cons x xs)
  then show ?case
    by (auto simp: db_call_def split: list.splits call_outcome.splits)
qed

lemma each_call_Inl:
  "each_call g xs s = (Inl e, s') \<Longrightarrow>
     length (faults s') < length (faults s) \<and>
     (\<exists>p q. xs = p @ q \<and> contents s' = fold g p (contents s))"
proof (induction xs arbitrary: s)
  case Nil
  then show ?case by simp
next
  case (Cons x xs)
  obtain r t where t: "db_write (g x) s = (r, t)" by force
  show ?case
  proof (cases r)
    case (Inl e')
    with Cons.prems t have "s' = t" by simp
    moreover have "length (faults t) < length (faults s) \<and>
        (contents t = contents s \<or> contents t = g x (contents s))"
      using t Inl by (auto simp: db_call_def split: list.splits call_outcome.splits)
    ultimately show ?thesis
      by (metis append_Cons append_Nil fold_simps(1) fold_simps(2))
  next
    case (Inr u)
    have ft: "length (faults t) \<le> length (faults s)" "contents t = g x (contents s)"
      using t Inr by (auto simp: db_call_def split: list.splits call_outcome.splits)
    from Cons.prems t Inr have "each_call g xs t = (Inl e, s')" by simp
    from Cons.IH [OF this] obtain p q where "length (faults s') < length (faults t)"
      "xs = p @ q" "contents s' = fold g p (contents t)" by blast
    with ft have "length (faults s') < length (faults s)" "x # xs = (x # p) @ q"
      "contents s' = fold g (x # p) (contents s)" by auto
    then show ?thesis by blast
  qed
qed

text \<open>
  The contract of a batch: a write keeps the invariant of the contents and acts on their
  abstraction, and re-applying a batch after a part of it changes nothing.
\<close>

locale batch_store =
  fixes g :: "'x \<Rightarrow> 'c \<Rightarrow> 'c" and invar :: "'c \<Rightarrow> bool"
    and view :: "'c \<Rightarrow> 'v" and put_view :: "'x list \<Rightarrow> 'v \<Rightarrow> 'v"
  assumes invar_write: "invar c \<Longrightarrow> invar (g x c)"
    and view_writes: "invar c \<Longrightarrow> view (fold g xs c) = put_view xs (view c)"
    and view_absorb: "put_view (p @ q) (put_view p v) = put_view (p @ q) v"
begin

lemma invar_writes: "invar c \<Longrightarrow> invar (fold g xs c)"
  by (induction xs arbitrary: c) (auto intro: invar_write)

lemma retry_batch:
  "invar (contents s) \<Longrightarrow>
     \<exists>s'. retry_loop d (each_call g xs) s = Some ((), s') \<and> invar (contents s') \<and>
       view (contents s') = put_view xs (view (contents s))"
proof (induction "length (faults s)" arbitrary: s d rule: less_induct)
  case less
  obtain r t where t: "each_call g xs s = (r, t)" by force
  show ?case
  proof (cases r)
    case (Inr u)
    with t have e: "each_call g xs s = (Inr (), t)" by simp
    from each_call_Inr [OF this] have "contents t = fold g xs (contents s)" .
    with less.prems show ?thesis
      using retry_loop_Inr [of "each_call g xs", OF e] by (auto simp: invar_writes view_writes)
  next
    case (Inl e)
    with t have e: "each_call g xs s = (Inl e, t)" by simp
    from each_call_Inl [OF e] obtain p q where f: "length (faults t) < length (faults s)"
      and p: "xs = p @ q" and c: "contents t = fold g p (contents s)" by blast
    have i: "invar (contents t)" using less.prems c by (simp add: invar_writes)
    have v: "view (contents t) = put_view p (view (contents s))"
      using less.prems c by (simp add: view_writes)
    from less.hyps [OF f i, of "next_delay d"] retry_loop_Inl [of "each_call g xs", OF e]
    show ?thesis using v p by (auto simp: view_absorb)
  qed
qed

end

end
