(* ===== verification/LedgerDb.thy ===== *)
theory LedgerDb
  imports FailStop
begin

text \<open>
  The ledger's persistent state and its access layer, modules/db/vsc/ledger (types.go and
  ledger.go): the four collections \<open>ledger\<close>, \<open>ledger_balances\<close>, \<open>ledger_actions\<close> and
  \<open>ledger_claims\<close>, the document structs, and the queries the node runs on them. Every query is
  one or more driver calls on a server whose calls may fail; an error return of the Go code is
  \<open>Inl\<close>, and the methods that discard the driver's error discard it here too.

  A document is decoded into its struct, so a row that fails to decode does not occur. The
  queries that only the GraphQL API runs (\<open>GetLedgersTsRange\<close>, \<open>GetRawLedgerRange\<close>,
  \<open>GetActionsRange\<close>, \<open>GetActionsByTxId\<close>, \<open>FindClaims\<close>) and the index set-up are left out, as is the field
  \<open>ObservedApr\<close>, a float statistic nothing reads back.
\<close>

section \<open>Documents\<close>

text \<open>The dynamic values the code stores in a \<open>map[string]interface{}\<close>.\<close>

datatype goval =
    GBool bool
  | GString string
  | GInt64 int64
  | GInt int64
  | GUint64 uint64
  | GFloat64 rat

type_synonym goparams = "string \<rightharpoonup> goval"

record LedgerRecord =
  lr_Id :: string
  lr_Amount :: int64
  lr_BlockHeight :: uint64
  lr_Timestamp :: "string option"
  lr_From :: string
  lr_Owner :: string
  lr_Type :: string
  lr_Asset :: string
  lr_TxId :: string
  lr_BIdx :: int64
  lr_OpIdx :: int64

text \<open>The zero value of the struct; a Go composite literal sets some fields of it.\<close>

definition LedgerRecord_zero :: LedgerRecord where
  "LedgerRecord_zero = \<lparr>lr_Id = [], lr_Amount = 0, lr_BlockHeight = 0, lr_Timestamp = None,
     lr_From = [], lr_Owner = [], lr_Type = [], lr_Asset = [], lr_TxId = [],
     lr_BIdx = 0, lr_OpIdx = 0\<rparr>"

record BalanceRecord =
  br_Account :: string
  br_BlockHeight :: uint64
  br_Hive :: int64
  br_HIVE_CONSENSUS :: int64
  br_HBD :: int64
  br_HBD_SAVINGS :: int64
  br_HBD_AVG :: int64
  br_HBD_CLAIM_HEIGHT :: uint64
  br_HBD_MODIFY_HEIGHT :: uint64

definition BalanceRecord_zero :: BalanceRecord where
  "BalanceRecord_zero = \<lparr>br_Account = [], br_BlockHeight = 0, br_Hive = 0, br_HIVE_CONSENSUS = 0,
     br_HBD = 0, br_HBD_SAVINGS = 0, br_HBD_AVG = 0, br_HBD_CLAIM_HEIGHT = 0,
     br_HBD_MODIFY_HEIGHT = 0\<rparr>"

record ActionRecord =
  ar_Id :: string
  ar_Status :: string
  ar_Amount :: int64
  ar_Asset :: string
  ar_To :: string
  ar_Memo :: string
  ar_TxId :: string
  ar_Type :: string
  ar_Params :: goparams
  ar_BlockHeight :: uint64
  ar_Timestamp :: "string option"

definition ActionRecord_zero :: ActionRecord where
  "ActionRecord_zero = \<lparr>ar_Id = [], ar_Status = [], ar_Amount = 0, ar_Asset = [], ar_To = [],
     ar_Memo = [], ar_TxId = [], ar_Type = [], ar_Params = Map.empty, ar_BlockHeight = 0,
     ar_Timestamp = None\<rparr>"

record ClaimRecord =
  cl_BlockHeight :: uint64
  cl_Amount :: int64
  cl_TxId :: string
  cl_ReceivedN :: nat

lemmas zero_records = LedgerRecord_zero_def BalanceRecord_zero_def ActionRecord_zero_def

section \<open>The collections\<close>

record ledger_dbs =
  ledger_c :: "LedgerRecord list"
  balances_c :: "BalanceRecord list"
  actions_c :: "ActionRecord list"
  claims_c :: "ClaimRecord list"

type_synonym dbs = "ledger_dbs server"

abbreviation ledger_of :: "dbs \<Rightarrow> LedgerRecord list" where
  "ledger_of s \<equiv> ledger_c (contents s)"

abbreviation balances_of :: "dbs \<Rightarrow> BalanceRecord list" where
  "balances_of s \<equiv> balances_c (contents s)"

abbreviation actions_of :: "dbs \<Rightarrow> ActionRecord list" where
  "actions_of s \<equiv> actions_c (contents s)"

abbreviation claims_of :: "dbs \<Rightarrow> ClaimRecord list" where
  "claims_of s \<equiv> claims_c (contents s)"

section \<open>The ledger collection\<close>

definition by_height :: "LedgerRecord \<Rightarrow> LedgerRecord \<Rightarrow> bool" where
  "by_height a b \<longleftrightarrow> lr_BlockHeight a \<le> lr_BlockHeight b"

definition by_height_id :: "LedgerRecord \<Rightarrow> LedgerRecord \<Rightarrow> bool" where
  "by_height_id a b \<longleftrightarrow> lr_BlockHeight a < lr_BlockHeight b \<or>
     lr_BlockHeight a = lr_BlockHeight b \<and> lr_Id a \<le> lr_Id b"

definition upsert_ledger :: "LedgerRecord collection \<Rightarrow> LedgerRecord \<Rightarrow> ledger_dbs \<Rightarrow> ledger_dbs" where
  "upsert_ledger L r c = c\<lparr>ledger_c := Upsert L (\<lambda>d. lr_Id d = lr_Id r) r (ledger_c c)\<rparr>"

definition StoreLedger ::
  "LedgerRecord collection \<Rightarrow> LedgerRecord list \<Rightarrow> dbs \<Rightarrow> (db_error + unit) \<times> dbs" where
  "StoreLedger L ledgerRecords s = each_call (upsert_ledger L) ledgerRecords s"

definition legacy_interest :: "uint64 \<Rightarrow> string list \<Rightarrow> LedgerRecord \<Rightarrow> bool" where
  "legacy_interest recordBlockHeight owners r \<longleftrightarrow>
     lr_Type r = ''interest'' \<and> lr_BlockHeight r = recordBlockHeight \<and>
     lr_Owner r \<in> set owners \<and> CHR ''#'' \<notin> set (lr_Id r)"

definition DeleteLegacyInterestRecords ::
  "LedgerRecord collection \<Rightarrow> uint64 \<Rightarrow> string list \<Rightarrow> dbs \<Rightarrow> (db_error + unit) \<times> dbs" where
  "DeleteLegacyInterestRecords L recordBlockHeight owners s =
     (if owners = [] then (Inr (), s)
      else db_write (\<lambda>c. c\<lparr>ledger_c :=
             DeleteMany L (legacy_interest recordBlockHeight owners) (ledger_c c)\<rparr>) s)"

text \<open>The asset argument of \<open>GetLedgerAfterHeight\<close> does not enter the query.\<close>

definition GetLedgerAfterHeight ::
  "LedgerRecord collection \<Rightarrow> string \<Rightarrow> uint64 \<Rightarrow> string \<Rightarrow> nat option \<Rightarrow> dbs
     \<Rightarrow> (db_error + LedgerRecord list option) \<times> dbs" where
  "GetLedgerAfterHeight L account blockHeight asset limit =
     db_read (\<lambda>c.
       let found = Find L (\<lambda>r. lr_Owner r = account \<and> blockHeight \<le> lr_BlockHeight r) by_height (ledger_c c)
       in Some (case limit of None \<Rightarrow> found | Some n \<Rightarrow> take n found))"

text \<open>\<open>options\<close>: the \<open>OpType\<close> lists of the variadic argument; the last non-empty one is the filter.\<close>

definition opType_filter :: "string list list \<Rightarrow> string \<Rightarrow> bool" where
  "opType_filter searchOps t =
     (case filter (\<lambda>ts. ts \<noteq> []) searchOps of [] \<Rightarrow> True | tss \<Rightarrow> t \<in> set (last tss))"

definition range_query ::
  "string \<Rightarrow> uint64 \<Rightarrow> uint64 \<Rightarrow> string \<Rightarrow> string list list \<Rightarrow> LedgerRecord \<Rightarrow> bool" where
  "range_query account start end asset searchOps r \<longleftrightarrow>
     lr_Owner r = account \<and> start \<le> lr_BlockHeight r \<and> lr_BlockHeight r \<le> end \<and>
     (asset \<noteq> [] \<longrightarrow> lr_Asset r = asset) \<and> opType_filter searchOps (lr_Type r)"

definition GetLedgerRange ::
  "LedgerRecord collection \<Rightarrow> string \<Rightarrow> uint64 \<Rightarrow> uint64 \<Rightarrow> string \<Rightarrow> string list list \<Rightarrow> dbs
     \<Rightarrow> (db_error + LedgerRecord list option) \<times> dbs" where
  "GetLedgerRange L account start end asset searchOps =
     db_read (\<lambda>c. Some (Find L (range_query account start end asset searchOps) by_height (ledger_c c)))"

definition GetLedgerRecordsByType ::
  "LedgerRecord collection \<Rightarrow> string list \<Rightarrow> uint64 \<Rightarrow> dbs \<Rightarrow> (db_error + LedgerRecord list) \<times> dbs" where
  "GetLedgerRecordsByType L types toBlock =
     db_read (\<lambda>c. Find L (\<lambda>r. lr_Type r \<in> set types \<and> lr_BlockHeight r \<le> toBlock) by_height_id (ledger_c c))"

definition GetLedgersByTxId ::
  "LedgerRecord collection \<Rightarrow> string \<Rightarrow> dbs \<Rightarrow> (db_error + LedgerRecord list) \<times> dbs" where
  "GetLedgersByTxId L txId =
     db_read (\<lambda>c. Find L (\<lambda>r. HasPrefix (lr_Id r) txId) by_height (ledger_c c))"

definition GetDistinctAccountsRange ::
  "LedgerRecord collection \<Rightarrow> uint64 \<Rightarrow> uint64 \<Rightarrow> dbs \<Rightarrow> (db_error + string list) \<times> dbs" where
  "GetDistinctAccountsRange L startHeight endHeight =
     db_read (\<lambda>c. Distinct L lr_Owner
       (\<lambda>r. startHeight \<le> lr_BlockHeight r \<and> lr_BlockHeight r \<le> endHeight) (ledger_c c))"

section \<open>The balance snapshots\<close>

definition newest_balance :: "BalanceRecord \<Rightarrow> BalanceRecord \<Rightarrow> bool" where
  "newest_balance a b \<longleftrightarrow> br_BlockHeight b \<le> br_BlockHeight a"

definition balance_query :: "string \<Rightarrow> uint64 \<Rightarrow> BalanceRecord \<Rightarrow> bool" where
  "balance_query account blockHeight r \<longleftrightarrow> br_Account r = account \<and> br_BlockHeight r \<le> blockHeight"

definition GetBalanceRecord ::
  "BalanceRecord collection \<Rightarrow> string \<Rightarrow> uint64 \<Rightarrow> dbs \<Rightarrow> (db_error + BalanceRecord option) \<times> dbs" where
  "GetBalanceRecord B account blockHeight =
     db_read (\<lambda>c. FindOne B (balance_query account blockHeight) newest_balance (balances_c c))"

definition balance_key :: "BalanceRecord \<Rightarrow> string \<times> uint64" where
  "balance_key r = (br_Account r, br_BlockHeight r)"

definition upsert_balance :: "BalanceRecord collection \<Rightarrow> BalanceRecord \<Rightarrow> ledger_dbs \<Rightarrow> ledger_dbs" where
  "upsert_balance B r c = c\<lparr>balances_c := Upsert B (\<lambda>d. balance_key d = balance_key r) r (balances_c c)\<rparr>"

definition UpdateBalanceRecord ::
  "BalanceRecord collection \<Rightarrow> BalanceRecord \<Rightarrow> dbs \<Rightarrow> (db_error + unit) \<times> dbs" where
  "UpdateBalanceRecord B record = db_write (upsert_balance B record)"

text \<open>One ordered bulk write: the server runs its upserts in order and stops at the first failure.\<close>

definition UpdateBalanceRecords ::
  "BalanceRecord collection \<Rightarrow> BalanceRecord list \<Rightarrow> dbs \<Rightarrow> (db_error + unit) \<times> dbs" where
  "UpdateBalanceRecords B records s =
     (if records = [] then (Inr (), s) else each_call (upsert_balance B) records s)"

fun collect_balances ::
  "BalanceRecord collection \<Rightarrow> string list \<Rightarrow> uint64 \<Rightarrow> dbs \<Rightarrow> (db_error + BalanceRecord list) \<times> dbs" where
  "collect_balances B [] blockHeight s = (Inr [], s)"
| "collect_balances B (act # acts) blockHeight s =
     (case GetBalanceRecord B act blockHeight s of
        (Inl e, s') \<Rightarrow> (Inl e, s')
      | (Inr br, s') \<Rightarrow>
          (case collect_balances B acts blockHeight s' of
             (Inl e, s'') \<Rightarrow> (Inl e, s'')
           | (Inr rs, s'') \<Rightarrow> (Inr (case br of None \<Rightarrow> rs | Some r \<Rightarrow> r # rs), s'')))"

definition GetAll ::
  "BalanceRecord collection \<Rightarrow> uint64 \<Rightarrow> dbs \<Rightarrow> (db_error + BalanceRecord list) \<times> dbs" where
  "GetAll B blockHeight s =
     (case db_read (\<lambda>c. Distinct B br_Account (\<lambda>_. True) (balances_c c)) s of
        (Inl e, s') \<Rightarrow> (Inl e, s')
      | (Inr distinctAccount, s') \<Rightarrow> collect_balances B distinctAccount blockHeight s')"

section \<open>The bridge actions\<close>

text \<open>\<open>StoreAction\<close>, \<open>ExecuteComplete\<close> and \<open>SetStatus\<close> discard the driver's error.\<close>

definition StoreAction :: "ActionRecord collection \<Rightarrow> ActionRecord \<Rightarrow> dbs \<Rightarrow> dbs" where
  "StoreAction A withdraw s =
     snd (db_write (\<lambda>c. c\<lparr>actions_c := Upsert A (\<lambda>d. ar_Id d = ar_Id withdraw) withdraw (actions_c c)\<rparr>) s)"

definition complete_action :: "string option \<Rightarrow> ActionRecord \<Rightarrow> ActionRecord" where
  "complete_action actionId a =
     (case actionId of
        None \<Rightarrow> a\<lparr>ar_Status := ''complete''\<rparr>
      | Some t \<Rightarrow> a\<lparr>ar_Status := ''complete'', ar_TxId := t\<rparr>)"

definition ExecuteComplete :: "ActionRecord collection \<Rightarrow> string option \<Rightarrow> string list \<Rightarrow> dbs \<Rightarrow> dbs" where
  "ExecuteComplete A actionId ids s =
     (if ids = [] then s
      else snd (db_write (\<lambda>c. c\<lparr>actions_c :=
             UpdateMany A (\<lambda>a. ar_Id a \<in> set ids) (complete_action actionId) (actions_c c)\<rparr>) s))"

definition any_order :: "'d \<Rightarrow> 'd \<Rightarrow> bool" where
  "any_order a b \<longleftrightarrow> True"

definition Get :: "ActionRecord collection \<Rightarrow> string \<Rightarrow> dbs \<Rightarrow> (db_error + ActionRecord) \<times> dbs" where
  "Get A actId s =
     (case db_read (\<lambda>c. FindOne A (\<lambda>a. ar_Id a = actId) any_order (actions_c c)) s of
        (Inl e, s') \<Rightarrow> (Inl e, s')
      | (Inr None, s') \<Rightarrow> (Inl NoDocuments, s')
      | (Inr (Some a), s') \<Rightarrow> (Inr a, s'))"

definition RevertProcessingToPending ::
  "ActionRecord collection \<Rightarrow> dbs \<Rightarrow> (db_error + ActionRecord list) \<times> dbs" where
  "RevertProcessingToPending A s =
     (case db_read (\<lambda>c. Find A (\<lambda>a. ar_Status a = ''processing'') any_order (actions_c c)) s of
        (Inl e, s') \<Rightarrow> (Inl e, s')
      | (Inr reverted, s') \<Rightarrow>
          if reverted = [] then (Inr [], s')
          else (Inr reverted, snd (db_write (\<lambda>c. c\<lparr>actions_c :=
                 UpdateMany A (\<lambda>a. ar_Status a = ''processing'') (\<lambda>a. a\<lparr>ar_Status := ''pending''\<rparr>)
                   (actions_c c)\<rparr>) s')))"

definition SetStatus :: "ActionRecord collection \<Rightarrow> string \<Rightarrow> string \<Rightarrow> dbs \<Rightarrow> dbs" where
  "SetStatus A actId status s =
     (if actId = [] \<or> status = [] then s
      else snd (db_write (\<lambda>c. c\<lparr>actions_c :=
             UpdateMany A (\<lambda>a. ar_Id a = actId) (\<lambda>a. a\<lparr>ar_Status := status\<rparr>) (actions_c c)\<rparr>) s))"

definition action_by_height_id :: "ActionRecord \<Rightarrow> ActionRecord \<Rightarrow> bool" where
  "action_by_height_id a b \<longleftrightarrow> ar_BlockHeight a < ar_BlockHeight b \<or>
     ar_BlockHeight a = ar_BlockHeight b \<and> ar_Id a \<le> ar_Id b"

definition MaxGatewayActionBatch :: nat where
  "MaxGatewayActionBatch = 100"

definition GetPendingActions ::
  "ActionRecord collection \<Rightarrow> uint64 \<Rightarrow> string list \<Rightarrow> dbs \<Rightarrow> (db_error + ActionRecord list) \<times> dbs" where
  "GetPendingActions A bh t =
     db_read (\<lambda>c. take MaxGatewayActionBatch (Find A
       (\<lambda>a. ar_Status a = ''pending'' \<and> ar_BlockHeight a \<le> bh \<and> (t \<noteq> [] \<longrightarrow> ar_Type a \<in> set t))
       action_by_height_id (actions_c c)))"

text \<open>The server compares numbers of different types by value.\<close>

fun goval_le_uint64 :: "goval \<Rightarrow> uint64 \<Rightarrow> bool" where
  "goval_le_uint64 (GInt64 i) e \<longleftrightarrow> sint i \<le> uint e"
| "goval_le_uint64 (GInt i) e \<longleftrightarrow> sint i \<le> uint e"
| "goval_le_uint64 (GUint64 u) e \<longleftrightarrow> u \<le> e"
| "goval_le_uint64 (GFloat64 r) e \<longleftrightarrow> r \<le> of_int (uint e)"
| "goval_le_uint64 _ e \<longleftrightarrow> False"

definition GetPendingActionsByEpoch ::
  "ActionRecord collection \<Rightarrow> uint64 \<Rightarrow> string list \<Rightarrow> dbs \<Rightarrow> (db_error + ActionRecord list) \<times> dbs" where
  "GetPendingActionsByEpoch A epoch t =
     db_read (\<lambda>c. Find A
       (\<lambda>a. (case ar_Params a ''epoch'' of None \<Rightarrow> False | Some v \<Rightarrow> goval_le_uint64 v epoch) \<and>
            ar_Status a = ''pending'' \<and> (t \<noteq> [] \<longrightarrow> ar_Type a \<in> set t))
       action_by_height_id (actions_c c))"

definition GetAccountPendingConsensusUnstake ::
  "ActionRecord collection \<Rightarrow> string \<Rightarrow> dbs \<Rightarrow> (db_error + int64) \<times> dbs" where
  "GetAccountPendingConsensusUnstake A account =
     db_read (\<lambda>c. sum_list (map ar_Amount (Find A
       (\<lambda>a. ar_To a = account \<and> ar_Status a = ''pending'' \<and> ar_Type a = ''consensus_unstake'')
       any_order (actions_c c))))"

section \<open>The interest claims\<close>

definition newest_claim :: "ClaimRecord \<Rightarrow> ClaimRecord \<Rightarrow> bool" where
  "newest_claim a b \<longleftrightarrow> cl_BlockHeight b \<le> cl_BlockHeight a"

definition GetLastClaim :: "ClaimRecord collection \<Rightarrow> uint64 \<Rightarrow> dbs \<Rightarrow> ClaimRecord option \<times> dbs" where
  "GetLastClaim K blockHeight s =
     (case db_read (\<lambda>c. FindOne K (\<lambda>r. cl_BlockHeight r < blockHeight) newest_claim (claims_c c)) s of
        (Inl e, s') \<Rightarrow> (None, s')
      | (Inr r, s') \<Rightarrow> (r, s'))"

definition SaveClaim :: "ClaimRecord collection \<Rightarrow> ClaimRecord \<Rightarrow> dbs \<Rightarrow> dbs" where
  "SaveClaim K claim s =
     snd (db_write (\<lambda>c. c\<lparr>claims_c :=
       Upsert K (\<lambda>d. cl_BlockHeight d = cl_BlockHeight claim) claim (claims_c c)\<rparr>) s)"

section \<open>The ledger collection as a keyed store\<close>

text \<open>
  Every write to the ledger collection is an upsert by \<open>Id\<close>, so ids stay unique; a store of a
  batch of records, retried until it succeeds, leaves exactly the keyed write of the batch,
  whatever faults interrupted it, and touches no other collection.
\<close>

definition ids_unique :: "ledger_dbs \<Rightarrow> bool" where
  "ids_unique c \<longleftrightarrow> distinct (map lr_Id (ledger_c c))"

definition ledger_view :: "ledger_dbs \<Rightarrow> LedgerRecord multiset \<times> ledger_dbs" where
  "ledger_view c = (mset (ledger_c c), c\<lparr>ledger_c := []\<rparr>)"

definition put_rows ::
  "LedgerRecord list \<Rightarrow> LedgerRecord multiset \<times> ledger_dbs \<Rightarrow> LedgerRecord multiset \<times> ledger_dbs" where
  "put_rows rs v = (puts lr_Id rs (fst v), snd v)"

definition stored :: "LedgerRecord list \<Rightarrow> dbs \<Rightarrow> dbs \<Rightarrow> bool" where
  "stored rs s s' \<longleftrightarrow> ids_unique (contents s') \<and> ledger_view (contents s') = put_rows rs (ledger_view (contents s))"

lemma storedD:
  assumes "stored rs s s'"
  shows "ids_unique (contents s')" "mset (ledger_of s') = puts lr_Id rs (mset (ledger_of s))"
    "balances_of s' = balances_of s" "actions_of s' = actions_of s" "claims_of s' = claims_of s"
  using assms
  by (auto simp: stored_def ledger_view_def put_rows_def)
    (metis ledger_dbs.select_convs(2-4) ledger_dbs.surjective ledger_dbs.update_convs(1))+

lemma stored_refl: "ids_unique (contents s) \<Longrightarrow> stored [] s (s\<lparr>faults := fs\<rparr>)"
  by (simp add: stored_def put_rows_def)

lemma stored_trans: "stored rs s s1 \<Longrightarrow> stored rs' s1 s2 \<Longrightarrow> stored (rs @ rs') s s2"
  by (simp add: stored_def put_rows_def puts_append)

lemma stored_faults [simp]: "stored rs (s\<lparr>faults := fs\<rparr>) s' = stored rs s s'"
  by (simp add: stored_def)

lemma last_writes_ids: "lr_Id ` set (last_writes lr_Id rs) = lr_Id ` set rs"
  by (induction rs) auto

lemma last_writes_subset: "set (last_writes lr_Id rs) \<subseteq> set rs"
  by (induction rs) auto

lemma stored_set:
  assumes "stored rs s s'"
  shows "set (ledger_of s') = {r \<in> set (ledger_of s). lr_Id r \<notin> lr_Id ` set rs} \<union> set (last_writes lr_Id rs)"
proof -
  have "set_mset (mset (ledger_of s')) =
      set_mset (filter_mset (\<lambda>x. lr_Id x \<notin> lr_Id ` set rs) (mset (ledger_of s)) + mset (last_writes lr_Id rs))"
    using storedD(2) [OF assms] by (simp add: puts_eq)
  then show ?thesis by auto
qed

locale ledger_collection = mongo_collection L for L :: "LedgerRecord collection"
begin

lemma upsert_ids_unique: "ids_unique c \<Longrightarrow> ids_unique (upsert_ledger L r c)"
  by (simp add: ids_unique_def upsert_ledger_def upsert_distinct)

lemma upsert_view: "ids_unique c \<Longrightarrow> ledger_view (upsert_ledger L r c) = put_rows [r] (ledger_view c)"
  by (simp add: ids_unique_def upsert_ledger_def ledger_view_def put_rows_def upsert_put)

lemma upserts_view:
  "ids_unique c \<Longrightarrow> ledger_view (fold (upsert_ledger L) rs c) = put_rows rs (ledger_view c)"
proof (induction rs arbitrary: c)
  case Nil
  then show ?case by (simp add: put_rows_def)
next
  case (Cons r rs)
  then show ?case by (simp add: upsert_ids_unique upsert_view) (simp add: put_rows_def)
qed

end

sublocale ledger_collection \<subseteq> rows: batch_store "upsert_ledger L" ids_unique ledger_view put_rows
  by unfold_locales
    (simp_all add: upsert_ids_unique upserts_view, simp add: put_rows_def puts_prefix_absorb)

context ledger_collection
begin

lemma store_blocks_until_stored:
  assumes "ids_unique (contents s)"
  shows "\<exists>s'. blockingRetry (StoreLedger L rs) s = Some ((), s') \<and> stored rs s s'"
  using rows.retry_batch [OF assms, of baseDelay rs]
  by (auto simp: blockingRetry_def StoreLedger_def [abs_def] stored_def)

end

interpretation list_ledger: ledger_collection list_collection
  by unfold_locales

section \<open>The balance collection as a keyed store\<close>

definition balances_keyed :: "ledger_dbs \<Rightarrow> bool" where
  "balances_keyed c \<longleftrightarrow> distinct (map balance_key (balances_c c))"

definition balance_view :: "ledger_dbs \<Rightarrow> BalanceRecord multiset \<times> ledger_dbs" where
  "balance_view c = (mset (balances_c c), c\<lparr>balances_c := []\<rparr>)"

definition put_balances ::
  "BalanceRecord list \<Rightarrow> BalanceRecord multiset \<times> ledger_dbs \<Rightarrow> BalanceRecord multiset \<times> ledger_dbs" where
  "put_balances rs v = (puts balance_key rs (fst v), snd v)"

locale balance_collection = mongo_collection B for B :: "BalanceRecord collection"
begin

lemma upsert_balance_keyed: "balances_keyed c \<Longrightarrow> balances_keyed (upsert_balance B r c)"
  by (simp add: balances_keyed_def upsert_balance_def upsert_distinct)

lemma upsert_balance_view: "balances_keyed c \<Longrightarrow> balance_view (upsert_balance B r c) = put_balances [r] (balance_view c)"
  by (simp add: balances_keyed_def upsert_balance_def balance_view_def put_balances_def upsert_put)

lemma upsert_balances_view:
  "balances_keyed c \<Longrightarrow> balance_view (fold (upsert_balance B) rs c) = put_balances rs (balance_view c)"
proof (induction rs arbitrary: c)
  case Nil
  then show ?case by (simp add: put_balances_def)
next
  case (Cons r rs)
  then show ?case by (simp add: upsert_balance_keyed upsert_balance_view) (simp add: put_balances_def)
qed

end

sublocale balance_collection \<subseteq> snapshots: batch_store "upsert_balance B" balances_keyed balance_view put_balances
  by unfold_locales
    (simp_all add: upsert_balance_keyed upsert_balances_view, simp add: put_balances_def puts_prefix_absorb)

context balance_collection
begin

lemma flush_blocks:
  assumes "balances_keyed (contents s)"
  shows "\<exists>s'. blockingRetry (UpdateBalanceRecords B rs) s = Some ((), s') \<and> balances_keyed (contents s') \<and>
    mset (balances_of s') = puts balance_key rs (mset (balances_of s)) \<and>
    ledger_of s' = ledger_of s \<and> actions_of s' = actions_of s \<and> claims_of s' = claims_of s"
proof -
  have "UpdateBalanceRecords B rs = each_call (upsert_balance B) rs"
    by (cases rs) (simp_all add: UpdateBalanceRecords_def fun_eq_iff)
  then obtain s' where s': "blockingRetry (UpdateBalanceRecords B rs) s = Some ((), s')" "balances_keyed (contents s')"
    "balance_view (contents s') = put_balances rs (balance_view (contents s))"
    using snapshots.retry_batch [OF assms, of baseDelay rs] by (auto simp: blockingRetry_def)
  have "mset (balances_of s') = puts balance_key rs (mset (balances_of s))"
    "ledger_of s' = ledger_of s \<and> actions_of s' = actions_of s \<and> claims_of s' = claims_of s"
    using s'(3) by (auto simp: balance_view_def put_balances_def)
      (metis ledger_dbs.select_convs(1,3,4) ledger_dbs.surjective ledger_dbs.update_convs(2))+
  with s'(1,2) show ?thesis by blast
qed

end

interpretation list_balances: balance_collection list_collection
  by unfold_locales

text \<open>A read closure that treats a nil result as an error, as several retry closures do.\<close>

definition non_nil :: "(db_error + 'a option) \<times> 's \<Rightarrow> (db_error + 'a) \<times> 's" where
  "non_nil r =
     (case r of
        (Inl e, s) \<Rightarrow> (Inl e, s)
      | (Inr None, s) \<Rightarrow> (Inl NilResult, s)
      | (Inr (Some v), s) \<Rightarrow> (Inr v, s))"

lemma non_nil_read [simp]: "non_nil (db_read (\<lambda>c. Some (q c)) s) = db_read q s"
  by (auto simp: non_nil_def db_call_def split: list.splits call_outcome.splits)

end
