(* ===== verification/Oplog.thy ===== *)
theory Oplog
  imports LedgerDb
begin

text \<open>
  The data types of the ledger system (modules/ledger-system/types.go) and its pure core
  (utils.go): the account formats, the delegation edge keys, and \<open>ExecuteOplog\<close>, which turns the
  log of operations into ledger records and bridge actions. The lemmas give what every operation
  moves: a transfer conserves its asset, the staking operations conserve HIVE against the bond,
  and a delegated operation moves edge and gross total together.
\<close>

section \<open>Types\<close>

record LedgerUpdate =
  lu_Id :: string
  lu_BlockHeight :: uint64
  lu_BIdx :: int64
  lu_OpIdx :: int64
  lu_Owner :: string
  lu_Amount :: int64
  lu_Asset :: string
  lu_Memo :: string
  lu_Type :: string

definition LedgerUpdate_zero :: LedgerUpdate where
  "LedgerUpdate_zero = \<lparr>lu_Id = [], lu_BlockHeight = 0, lu_BIdx = 0, lu_OpIdx = 0, lu_Owner = [],
     lu_Amount = 0, lu_Asset = [], lu_Memo = [], lu_Type = []\<rparr>"

record OpLogEvent =
  ev_To :: string
  ev_From :: string
  ev_Amount :: int64
  ev_Asset :: string
  ev_Memo :: string
  ev_Type :: string
  ev_Id :: string
  ev_BIdx :: int64
  ev_OpIdx :: int64
  ev_BlockHeight :: uint64
  ev_Params :: goparams

definition OpLogEvent_zero :: OpLogEvent where
  "OpLogEvent_zero = \<lparr>ev_To = [], ev_From = [], ev_Amount = 0, ev_Asset = [], ev_Memo = [],
     ev_Type = [], ev_Id = [], ev_BIdx = 0, ev_OpIdx = 0, ev_BlockHeight = 0, ev_Params = Map.empty\<rparr>"

record WithdrawParams =
  wp_Id :: string
  wp_From :: string
  wp_To :: string
  wp_Asset :: string
  wp_Amount :: int64
  wp_Memo :: string
  wp_BIdx :: int64
  wp_OpIdx :: int64
  wp_BlockHeight :: uint64

record ConsensusParams =
  cp_Id :: string
  cp_From :: string
  cp_To :: string
  cp_Amount :: int64
  cp_Type :: string
  cp_BlockHeight :: uint64
  cp_ElectionEpoch :: uint64
  cp_Delegated :: bool

record LedgerResult =
  Ok :: bool
  Msg :: string

record StakeOp =
  so_Event :: OpLogEvent
  so_Instant :: bool
  so_NoFail :: bool

abbreviation fail :: "string \<Rightarrow> LedgerResult" where
  "fail m \<equiv> \<lparr>Ok = False, Msg = m\<rparr>"

abbreviation success :: "string \<Rightarrow> LedgerResult" where
  "success m \<equiv> \<lparr>Ok = True, Msg = m\<rparr>"

lemmas zero_updates = LedgerUpdate_zero_def OpLogEvent_zero_def

section \<open>Assets, edges and account formats\<close>

definition transferableAssetTypes :: "string list" where
  "transferableAssetTypes = [''hive'', ''hbd'', ''hbd_savings'']"

definition AssetDelegation :: string where
  "AssetDelegation = ''delegation''"

definition AssetDelegationTotal :: string where
  "AssetDelegationTotal = ''delegation_total''"

definition delegationEdgeSep :: string where
  "delegationEdgeSep = ''::''"

definition assetTypes :: "string list" where
  "assetTypes = transferableAssetTypes @ [''hive_consensus'', AssetDelegation, AssetDelegationTotal]"

definition DelegationEdgeKey :: "string \<Rightarrow> string \<Rightarrow> string" where
  "DelegationEdgeKey from to = from @ delegationEdgeSep @ to"

definition opDelegated :: "OpLogEvent \<Rightarrow> bool" where
  "opDelegated v = (case ev_Params v ''delegated'' of Some (GBool d) \<Rightarrow> d | _ \<Rightarrow> False)"

text \<open>\<open>int64(x)\<close> of a float: truncation towards zero.\<close>

definition float_to_int64 :: "rat \<Rightarrow> int64" where
  "float_to_int64 x = word_of_int (if 0 \<le> x then \<lfloor>x\<rfloor> else \<lceil>x\<rceil>)"

definition opReleased :: "OpLogEvent \<Rightarrow> int64 \<Rightarrow> int64" where
  "opReleased v fallback =
     (case ev_Params v ''released'' of
        Some (GInt64 x) \<Rightarrow> x
      | Some (GFloat64 x) \<Rightarrow> float_to_int64 x
      | Some (GUint64 x) \<Rightarrow> x
      | Some (GInt x) \<Rightarrow> x
      | _ \<Rightarrow> fallback)"

text \<open>
  \<open>HIVE_REGEX\<close>: segments separated by dots, each of at least two bytes, that start with a letter,
  end with a letter or digit and hold letters, digits and dashes. \<open>ETH_REGEX\<close>: \<open>0x\<close> and forty hex
  digits.
\<close>

definition is_lower :: "char \<Rightarrow> bool" where
  "is_lower c \<longleftrightarrow> CHR ''a'' \<le> c \<and> c \<le> CHR ''z''"

definition is_hex :: "char \<Rightarrow> bool" where
  "is_hex c \<longleftrightarrow> isDigit c \<or> CHR ''a'' \<le> c \<and> c \<le> CHR ''f'' \<or> CHR ''A'' \<le> c \<and> c \<le> CHR ''F''"

definition hive_segment :: "string \<Rightarrow> bool" where
  "hive_segment w \<longleftrightarrow> 2 \<le> length w \<and> is_lower (hd w) \<and>
     list_all (\<lambda>c. isDigit c \<or> is_lower c \<or> c = CHR ''-'') w \<and>
     (isDigit (last w) \<or> is_lower (last w))"

definition hiveRegex :: "string \<Rightarrow> bool" where
  "hiveRegex s \<longleftrightarrow> list_all hive_segment (SplitOn CHR ''.'' s)"

definition ethRegex :: "string \<Rightarrow> bool" where
  "ethRegex s \<longleftrightarrow> length s = 42 \<and> HasPrefix s ''0x'' \<and> list_all is_hex (drop 2 s)"

section \<open>Filtering the virtual ledger\<close>

record FilterLedgerParams =
  fl_FinalHeight :: uint64
  fl_BelowBIdx :: int64
  fl_BelowOpIdx :: int64

definition FilterLedgerOps :: "FilterLedgerParams \<Rightarrow> LedgerUpdate list \<Rightarrow> LedgerUpdate list" where
  "FilterLedgerOps query array =
     filter (\<lambda>v. lu_BlockHeight v < fl_FinalHeight query \<or>
       lu_BlockHeight v = fl_FinalHeight query \<and>
       sint (lu_BIdx v) < sint (fl_BelowBIdx query) \<and> sint (lu_OpIdx v) < sint (fl_BelowOpIdx query)) array"

section \<open>Executing the oplog\<close>

record oplog_result =
  accounts :: "string set"
  ledgerRecords :: "LedgerUpdate list"
  actionRecords :: "ActionRecord list"

abbreviation lupdate :: "string \<Rightarrow> string \<Rightarrow> int64 \<Rightarrow> string \<Rightarrow> string \<Rightarrow> uint64 \<Rightarrow> LedgerUpdate" where
  "lupdate i owner amt asset ty h \<equiv> LedgerUpdate_zero\<lparr>lu_Id := i, lu_Owner := owner, lu_Amount := amt,
     lu_Asset := asset, lu_Type := ty, lu_BlockHeight := h\<rparr>"

abbreviation pending_action ::
  "OpLogEvent \<Rightarrow> int64 \<Rightarrow> string \<Rightarrow> string \<Rightarrow> string \<Rightarrow> goparams \<Rightarrow> uint64 \<Rightarrow> ActionRecord" where
  "pending_action v amt asset to ty ps h \<equiv> ActionRecord_zero\<lparr>ar_Id := ev_Id v, ar_Amount := amt,
     ar_Asset := asset, ar_To := to, ar_Memo := ev_Memo v, ar_TxId := ev_Id v,
     ar_Status := ''pending'', ar_Type := ty, ar_Params := ps, ar_BlockHeight := h\<rparr>"

definition exec_transfer :: "OpLogEvent \<Rightarrow> uint64 \<Rightarrow> oplog_result" where
  "exec_transfer v endBlock = \<lparr>
     accounts = {ev_From v, ev_To v},
     ledgerRecords =
       [lupdate (ev_Id v @ ''#in'') (ev_From v) (- ev_Amount v) (ev_Asset v) ''transfer'' endBlock,
        lupdate (ev_Id v @ ''#out'') (ev_To v) (ev_Amount v) (ev_Asset v) ''transfer'' endBlock],
     actionRecords = []\<rparr>"

definition exec_withdraw :: "OpLogEvent \<Rightarrow> uint64 \<Rightarrow> oplog_result" where
  "exec_withdraw v endBlock = \<lparr>
     accounts = {ev_From v},
     ledgerRecords =
       [lupdate (ev_Id v @ ''#in'') (ev_From v) (- ev_Amount v) (ev_Asset v) ''withdraw'' endBlock],
     actionRecords =
       [pending_action v (ev_Amount v) (ev_Asset v) (ev_To v) ''withdraw'' Map.empty (ev_BlockHeight v)]\<rparr>"

definition exec_stake :: "OpLogEvent \<Rightarrow> uint64 \<Rightarrow> oplog_result" where
  "exec_stake v endBlock = \<lparr>
     accounts = {ev_From v},
     ledgerRecords =
       [lupdate (ev_Id v @ ''#in'') (ev_From v) (- ev_Amount v) ''hbd'' ''stake'' endBlock],
     actionRecords =
       [pending_action v (ev_Amount v) ''hbd_savings'' (ev_To v) ''stake'' Map.empty endBlock]\<rparr>"

definition exec_unstake :: "OpLogEvent \<Rightarrow> uint64 \<Rightarrow> oplog_result" where
  "exec_unstake v endBlock = \<lparr>
     accounts = {ev_From v},
     ledgerRecords =
       [lupdate (ev_Id v @ ''#in'') (ev_From v) (- ev_Amount v) ''hbd_savings'' ''unstake'' endBlock],
     actionRecords =
       [pending_action v (ev_Amount v) ''hbd_savings'' (ev_To v) ''unstake'' Map.empty endBlock]\<rparr>"

definition exec_consensus_stake :: "OpLogEvent \<Rightarrow> uint64 \<Rightarrow> oplog_result" where
  "exec_consensus_stake v endBlock = \<lparr>
     accounts = {},
     ledgerRecords =
       [lupdate (ev_Id v @ ''#in'') (ev_From v) (- ev_Amount v) ''hive'' ''consensus_stake'' endBlock,
        lupdate (ev_Id v @ ''#out'') (ev_To v) (ev_Amount v) ''hive_consensus'' ''consensus_stake'' endBlock] @
       (if opDelegated v then
          [lupdate (ev_Id v @ ''#edge'') (DelegationEdgeKey (ev_From v) (ev_To v)) (ev_Amount v)
             AssetDelegation ''consensus_stake'' endBlock,
           lupdate (ev_Id v @ ''#total'') (ev_To v) (ev_Amount v)
             AssetDelegationTotal ''consensus_stake'' endBlock]
        else []),
     actionRecords = []\<rparr>"

definition exec_unstake_delegated :: "OpLogEvent \<Rightarrow> uint64 \<Rightarrow> oplog_result" where
  "exec_unstake_delegated v endBlock =
     (let released = opReleased v (ev_Amount v) in \<lparr>
     accounts = {},
     ledgerRecords =
       [lupdate (ev_Id v @ ''#in'') (ev_To v) (- released) ''hive_consensus'' ''consensus_unstake'' endBlock,
        lupdate (ev_Id v @ ''#edge'') (DelegationEdgeKey (ev_From v) (ev_To v)) (- ev_Amount v)
          AssetDelegation ''consensus_unstake'' endBlock,
        lupdate (ev_Id v @ ''#total'') (ev_To v) (- ev_Amount v)
          AssetDelegationTotal ''consensus_unstake'' endBlock],
     actionRecords =
       [pending_action v released ''-'' (ev_From v) ''consensus_unstake''
          (Map.empty(''epoch'' := ev_Params v ''epoch'', ''node'' := Some (GString (ev_To v)))) endBlock]\<rparr>)"

definition exec_unstake_legacy :: "OpLogEvent \<Rightarrow> uint64 \<Rightarrow> oplog_result" where
  "exec_unstake_legacy v endBlock = \<lparr>
     accounts = {},
     ledgerRecords =
       [lupdate (ev_Id v @ ''#in'') (ev_From v) (- ev_Amount v) ''hive_consensus'' ''consensus_unstake'' endBlock],
     actionRecords =
       [pending_action v (ev_Amount v) ''-'' (ev_To v) ''consensus_unstake''
          (Map.empty(''epoch'' := ev_Params v ''epoch'', ''from'' := Some (GString (ev_From v)))) endBlock]\<rparr>"

definition exec_consensus_unstake :: "OpLogEvent \<Rightarrow> uint64 \<Rightarrow> oplog_result" where
  "exec_consensus_unstake v endBlock =
     (if opDelegated v then exec_unstake_delegated v endBlock else exec_unstake_legacy v endBlock)"

definition no_records :: oplog_result where
  "no_records = \<lparr>accounts = {}, ledgerRecords = [], actionRecords = []\<rparr>"

definition exec_event :: "OpLogEvent \<Rightarrow> uint64 \<Rightarrow> oplog_result" where
  "exec_event v endBlock =
     (if ev_Type v = ''transfer'' then exec_transfer v endBlock
      else if ev_Type v = ''withdraw'' then exec_withdraw v endBlock
      else if ev_Type v = ''stake'' then exec_stake v endBlock
      else if ev_Type v = ''unstake'' then exec_unstake v endBlock
      else if ev_Type v = ''consensus_stake'' then exec_consensus_stake v endBlock
      else if ev_Type v = ''consensus_unstake'' then exec_consensus_unstake v endBlock
      else no_records)"

fun ExecuteOplog :: "OpLogEvent list \<Rightarrow> uint64 \<Rightarrow> uint64 \<Rightarrow> oplog_result" where
  "ExecuteOplog [] startHeight endBlock = no_records"
| "ExecuteOplog (v # oplog) startHeight endBlock =
     (let r = exec_event v endBlock; rest = ExecuteOplog oplog startHeight endBlock in \<lparr>
        accounts = accounts r \<union> accounts rest,
        ledgerRecords = ledgerRecords r @ ledgerRecords rest,
        actionRecords = actionRecords r @ actionRecords rest\<rparr>)"

lemmas exec_defs = exec_event_def exec_transfer_def exec_withdraw_def exec_stake_def exec_unstake_def
  exec_consensus_stake_def exec_consensus_unstake_def exec_unstake_delegated_def exec_unstake_legacy_def
  no_records_def

section \<open>What the oplog moves\<close>

text \<open>
  The backing coin of an asset and of an action: the bond is HIVE and savings are HBD; a pending
  action is an amount of its coin the gateway or the bond release still owes. The delegation
  balances are bookkeeping and back nothing.
\<close>

definition coin :: "string \<Rightarrow> string" where
  "coin a = (if a = ''hive_consensus'' then ''hive'' else if a = ''hbd_savings'' then ''hbd'' else a)"

definition action_coin :: "ActionRecord \<Rightarrow> string" where
  "action_coin a = (if ar_Type a = ''consensus_unstake'' then ''hive'' else coin (ar_Asset a))"

definition coin_rows :: "string \<Rightarrow> LedgerUpdate list \<Rightarrow> int64" where
  "coin_rows k us = sum_list (map lu_Amount (filter (\<lambda>u. coin (lu_Asset u) = k) us))"

definition coin_owed :: "string \<Rightarrow> ActionRecord list \<Rightarrow> int64" where
  "coin_owed k as = sum_list (map ar_Amount (filter (\<lambda>a. action_coin a = k) as))"

definition asset_rows :: "string \<Rightarrow> LedgerUpdate list \<Rightarrow> int64" where
  "asset_rows k us = sum_list (map lu_Amount (filter (\<lambda>u. lu_Asset u = k) us))"

lemma row_sums_append [simp]:
  "coin_rows k (us @ vs) = coin_rows k us + coin_rows k vs"
  "coin_owed k (as @ bs) = coin_owed k as + coin_owed k bs"
  "asset_rows k (us @ vs) = asset_rows k us + asset_rows k vs"
  by (simp_all add: coin_rows_def coin_owed_def asset_rows_def)

definition balanced :: "string \<Rightarrow> oplog_result \<Rightarrow> bool" where
  "balanced k r \<longleftrightarrow> coin_rows k (ledgerRecords r) + coin_owed k (actionRecords r) = 0"

lemmas balance_simps = balanced_def coin_rows_def coin_owed_def coin_def action_coin_def zero_updates
  zero_records AssetDelegation_def AssetDelegationTotal_def

lemma exec_balanced:
  "balanced k no_records"
  "balanced k (exec_transfer v h)"
  "balanced k (exec_withdraw v h)"
  "balanced k (exec_stake v h)"
  "balanced k (exec_unstake v h)"
  "balanced k (exec_unstake_legacy v h)"
  by (simp_all add: no_records_def exec_transfer_def exec_withdraw_def exec_stake_def exec_unstake_def
      exec_unstake_legacy_def balance_simps)

lemma exec_balanced_delegated:
  assumes "k \<noteq> AssetDelegation" "k \<noteq> AssetDelegationTotal"
  shows "balanced k (exec_consensus_stake v h)" "balanced k (exec_unstake_delegated v h)"
  using assms
  by (simp_all add: exec_consensus_stake_def exec_unstake_delegated_def Let_def balance_simps)

lemma exec_event_conserves:
  assumes "k \<noteq> AssetDelegation" "k \<noteq> AssetDelegationTotal"
  shows "coin_rows k (ledgerRecords (exec_event v h)) + coin_owed k (actionRecords (exec_event v h)) = 0"
proof -
  have "balanced k (exec_event v h)"
    unfolding exec_event_def exec_consensus_unstake_def
    using exec_balanced exec_balanced_delegated [OF assms] by (simp split: if_split)
  then show ?thesis by (simp only: balanced_def)
qed

lemma ExecuteOplog_conserves:
  assumes "k \<noteq> AssetDelegation" "k \<noteq> AssetDelegationTotal"
  shows "coin_rows k (ledgerRecords (ExecuteOplog oplog st h)) +
    coin_owed k (actionRecords (ExecuteOplog oplog st h)) = 0"
proof (induction oplog)
  case Nil
  then show ?case by (simp add: no_records_def coin_rows_def coin_owed_def)
next
  case (Cons v oplog)
  have "coin_rows k (ledgerRecords (ExecuteOplog (v # oplog) st h)) +
      coin_owed k (actionRecords (ExecuteOplog (v # oplog) st h)) =
      (coin_rows k (ledgerRecords (exec_event v h)) + coin_owed k (actionRecords (exec_event v h))) +
      (coin_rows k (ledgerRecords (ExecuteOplog oplog st h)) +
       coin_owed k (actionRecords (ExecuteOplog oplog st h)))"
    by (simp add: Let_def algebra_simps)
  then show ?case
    using exec_event_conserves [OF assms] Cons.IH by simp
qed

lemma exec_consensus_edges:
  "asset_rows AssetDelegation (ledgerRecords (exec_consensus_stake v h)) =
     asset_rows AssetDelegationTotal (ledgerRecords (exec_consensus_stake v h))"
  "asset_rows AssetDelegation (ledgerRecords (exec_unstake_delegated v h)) =
     asset_rows AssetDelegationTotal (ledgerRecords (exec_unstake_delegated v h))"
  "asset_rows AssetDelegation (ledgerRecords (exec_unstake_legacy v h)) =
     asset_rows AssetDelegationTotal (ledgerRecords (exec_unstake_legacy v h))"
  by (simp_all add: exec_consensus_stake_def exec_unstake_delegated_def exec_unstake_legacy_def Let_def
      asset_rows_def zero_updates AssetDelegation_def AssetDelegationTotal_def)

lemma exec_event_edges:
  assumes "ev_Type v \<in> {''consensus_stake'', ''consensus_unstake''}"
  shows "asset_rows AssetDelegation (ledgerRecords (exec_event v h)) =
    asset_rows AssetDelegationTotal (ledgerRecords (exec_event v h))"
proof -
  have "exec_event v h \<in> {exec_consensus_stake v h, exec_unstake_delegated v h, exec_unstake_legacy v h}"
    using assms by (elim insertE emptyE) (simp_all add: exec_event_def exec_consensus_unstake_def)
  then show ?thesis by (elim insertE emptyE) (simp_all only: exec_consensus_edges)
qed

lemma ExecuteOplog_append:
  "ledgerRecords (ExecuteOplog (xs @ ys) st h) =
     ledgerRecords (ExecuteOplog xs st h) @ ledgerRecords (ExecuteOplog ys st h)"
  "actionRecords (ExecuteOplog (xs @ ys) st h) =
     actionRecords (ExecuteOplog xs st h) @ actionRecords (ExecuteOplog ys st h)"
  by (induction xs) (auto simp: no_records_def Let_def)

text \<open>Every record carries the id of its event, a \<open>#\<close> and a suffix; an action carries the id itself.\<close>

definition row_suffixes :: "OpLogEvent \<Rightarrow> oplog_result \<Rightarrow> string list \<Rightarrow> bool" where
  "row_suffixes v r sufs \<longleftrightarrow> map lu_Id (ledgerRecords r) = map (\<lambda>suf. ev_Id v @ CHR ''#'' # suf) sufs \<and>
     map ar_Id (actionRecords r) \<in> {[], [ev_Id v]}"

lemma exec_suffixes:
  "row_suffixes v no_records []"
  "row_suffixes v (exec_transfer v h) [''in'', ''out'']"
  "row_suffixes v (exec_withdraw v h) [''in'']"
  "row_suffixes v (exec_stake v h) [''in'']"
  "row_suffixes v (exec_unstake v h) [''in'']"
  "row_suffixes v (exec_unstake_legacy v h) [''in'']"
  "row_suffixes v (exec_unstake_delegated v h) [''in'', ''edge'', ''total'']"
  "row_suffixes v (exec_consensus_stake v h)
     (if opDelegated v then [''in'', ''out'', ''edge'', ''total''] else [''in'', ''out''])"
  by (simp_all add: row_suffixes_def no_records_def exec_transfer_def exec_withdraw_def exec_stake_def
      exec_unstake_def exec_unstake_legacy_def exec_unstake_delegated_def exec_consensus_stake_def Let_def)

definition plain_suffixes :: "string list \<Rightarrow> bool" where
  "plain_suffixes sufs \<longleftrightarrow> distinct sufs \<and> (\<forall>suf \<in> set sufs. CHR ''#'' \<notin> set suf)"

lemma plain_suffix_lists:
  "plain_suffixes []" "plain_suffixes [''in'']" "plain_suffixes [''in'', ''out'']"
  "plain_suffixes [''in'', ''edge'', ''total'']" "plain_suffixes [''in'', ''out'', ''edge'', ''total'']"
  by (simp_all add: plain_suffixes_def)

definition tagged :: "OpLogEvent \<Rightarrow> oplog_result \<Rightarrow> bool" where
  "tagged v r \<longleftrightarrow> (\<exists>sufs. row_suffixes v r sufs \<and> plain_suffixes sufs)"

lemma taggedI: "row_suffixes v r sufs \<Longrightarrow> plain_suffixes sufs \<Longrightarrow> tagged v r"
  by (auto simp: tagged_def)

lemma exec_tagged:
  "tagged v no_records" "tagged v (exec_transfer v h)" "tagged v (exec_withdraw v h)"
  "tagged v (exec_stake v h)" "tagged v (exec_unstake v h)" "tagged v (exec_unstake_legacy v h)"
  "tagged v (exec_unstake_delegated v h)" "tagged v (exec_consensus_stake v h)"
  by (rule taggedI, rule exec_suffixes, simp add: plain_suffix_lists)+

lemma exec_event_tagged: "tagged v (exec_event v h)"
  by (simp add: exec_event_def exec_consensus_unstake_def exec_tagged)

lemma exec_event_ids:
  shows "\<forall>u \<in> set (ledgerRecords (exec_event v h)). \<exists>suf. lu_Id u = ev_Id v @ CHR ''#'' # suf \<and> CHR ''#'' \<notin> set suf"
    and "distinct (map lu_Id (ledgerRecords (exec_event v h)))"
    and "\<forall>a \<in> set (actionRecords (exec_event v h)). ar_Id a = ev_Id v"
    and "distinct (map ar_Id (actionRecords (exec_event v h)))"
proof -
  obtain sufs where r: "map lu_Id (ledgerRecords (exec_event v h)) = map (\<lambda>suf. ev_Id v @ CHR ''#'' # suf) sufs"
    and a: "map ar_Id (actionRecords (exec_event v h)) \<in> {[], [ev_Id v]}"
    and p: "distinct sufs" "\<forall>suf \<in> set sufs. CHR ''#'' \<notin> set suf"
    using exec_event_tagged unfolding tagged_def row_suffixes_def plain_suffixes_def by blast
  show "\<forall>u \<in> set (ledgerRecords (exec_event v h)). \<exists>suf. lu_Id u = ev_Id v @ CHR ''#'' # suf \<and> CHR ''#'' \<notin> set suf"
  proof
    fix u assume "u \<in> set (ledgerRecords (exec_event v h))"
    then have "lu_Id u \<in> set (map lu_Id (ledgerRecords (exec_event v h)))" by simp
    then show "\<exists>suf. lu_Id u = ev_Id v @ CHR ''#'' # suf \<and> CHR ''#'' \<notin> set suf"
      unfolding r using p(2) by auto
  qed
  show "distinct (map lu_Id (ledgerRecords (exec_event v h)))"
    unfolding r using p(1) by (simp add: distinct_map inj_on_def)
  show "distinct (map ar_Id (actionRecords (exec_event v h)))" using a by auto
  show "\<forall>a \<in> set (actionRecords (exec_event v h)). ar_Id a = ev_Id v" using a by auto
qed

lemma event_id_of_record:
  "CHR ''#'' \<notin> set s \<Longrightarrow> CHR ''#'' \<notin> set t \<Longrightarrow> a @ CHR ''#'' # s = b @ CHR ''#'' # t \<longleftrightarrow> a = b \<and> s = t"
  by (metis CutLast_append option.inject prod.inject)

lemma ExecuteOplog_ids:
  "\<forall>u \<in> set (ledgerRecords (ExecuteOplog oplog st h)).
     \<exists>v \<in> set oplog. \<exists>suf. lu_Id u = ev_Id v @ CHR ''#'' # suf \<and> CHR ''#'' \<notin> set suf"
  "ar_Id ` set (actionRecords (ExecuteOplog oplog st h)) \<subseteq> ev_Id ` set oplog"
proof (induction oplog)
  case (Cons v oplog)
  {
    case 1
    show ?case using Cons.IH(1) exec_event_ids(1) [of v h] by (auto simp: Let_def; blast)
  next
    case 2
    show ?case using Cons.IH(2) exec_event_ids(3) [of v h] by (auto simp: Let_def)
  }
qed (simp_all add: no_records_def)

lemma ExecuteOplog_distinct:
  assumes "distinct (map ev_Id oplog)"
  shows "distinct (map lu_Id (ledgerRecords (ExecuteOplog oplog st h)))"
    and "distinct (map ar_Id (actionRecords (ExecuteOplog oplog st h)))"
proof -
  show "distinct (map lu_Id (ledgerRecords (ExecuteOplog oplog st h)))"
    using assms
  proof (induction oplog)
    case Nil
    then show ?case by (simp add: no_records_def)
  next
    case (Cons v oplog)
    have "False" if u: "u \<in> set (ledgerRecords (exec_event v h))"
      and w: "w \<in> set (ledgerRecords (ExecuteOplog oplog st h))" and eq: "lu_Id u = lu_Id w" for u w
    proof -
      obtain suf where s: "lu_Id u = ev_Id v @ CHR ''#'' # suf" "CHR ''#'' \<notin> set suf"
        using exec_event_ids(1) u by blast
      obtain v' suf' where s': "v' \<in> set oplog" "lu_Id w = ev_Id v' @ CHR ''#'' # suf'" "CHR ''#'' \<notin> set suf'"
        using ExecuteOplog_ids(1) w by blast
      have "ev_Id v = ev_Id v'" using s s' eq by (simp add: event_id_of_record)
      with s'(1) Cons.prems show False by (metis distinct.simps(2) image_eqI list.set_map list.simps(9))
    qed
    then have "set (map lu_Id (ledgerRecords (exec_event v h))) \<inter>
        set (map lu_Id (ledgerRecords (ExecuteOplog oplog st h))) = {}"
      by (auto; blast)
    with Cons show ?case using exec_event_ids(2) [of v h] by (simp add: Let_def)
  qed
  show "distinct (map ar_Id (actionRecords (ExecuteOplog oplog st h)))"
    using assms
  proof (induction oplog)
    case Nil
    then show ?case by (simp add: no_records_def)
  next
    case (Cons v oplog)
    have "distinct (map ar_Id (actionRecords (exec_event v h)))" by (rule exec_event_ids)
    moreover have one: "ar_Id ` set (actionRecords (exec_event v h)) \<subseteq> {ev_Id v}"
      using exec_event_ids(3) by auto
    have new: "ev_Id v \<notin> ev_Id ` set oplog" using Cons.prems by simp
    have "ar_Id ` set (actionRecords (exec_event v h)) \<inter>
        ar_Id ` set (actionRecords (ExecuteOplog oplog st h)) = {}"
      by (rule disjoint_single [OF one ExecuteOplog_ids(2) new])
    ultimately show ?case using Cons by (simp add: Let_def)
  qed
qed

section \<open>Properties\<close>

text \<open>
  C4. Executing an oplog conserves value: whatever events the log holds, for every coin but the
  delegation bookkeeping the ledger records it produces, counted with the bond as HIVE and savings
  as HBD, and the amounts of the pending actions it creates sum to zero.
\<close>

theorem oplog_conserves_value:
  assumes "k \<noteq> AssetDelegation" "k \<noteq> AssetDelegationTotal"
  shows "coin_rows k (ledgerRecords (ExecuteOplog oplog startHeight endBlock)) +
    coin_owed k (actionRecords (ExecuteOplog oplog startHeight endBlock)) = 0"
  by (rule ExecuteOplog_conserves [OF assms])

theorem oplog_conserves_value_witness:
  "let e = OpLogEvent_zero\<lparr>ev_From := ''hive:alice'', ev_To := ''hive:bob'', ev_Amount := 700,
         ev_Asset := ''hive'', ev_Type := ''consensus_unstake'', ev_Id := ''tx1'',
         ev_Params := [''delegated'' \<mapsto> GBool True, ''released'' \<mapsto> GInt64 350]\<rparr>;
       r = ExecuteOplog [e, e\<lparr>ev_Type := ''consensus_stake'', ev_Id := ''tx2''\<rparr>] 0 10
   in length (ledgerRecords r) = 7 \<and> coin_owed ''hive'' (actionRecords r) = 350 \<and>
      coin_rows ''hive'' (ledgerRecords r) + coin_owed ''hive'' (actionRecords r) = 0"
  unfolding Let_def
  apply (intro conjI oplog_conserves_value)
  by (simp_all add: exec_defs opDelegated_def opReleased_def zero_updates zero_records coin_owed_def
      action_coin_def Let_def AssetDelegation_def AssetDelegationTotal_def)

text \<open>
  The record ids of an oplog are distinct when the ids of its events are, and so are the ids of
  its actions: a batch of records never overwrites one of its own rows in a store keyed by id.
\<close>

theorem oplog_ids_distinct:
  assumes "distinct (map ev_Id oplog)"
  shows "distinct (map lu_Id (ledgerRecords (ExecuteOplog oplog startHeight endBlock))) \<and>
    distinct (map ar_Id (actionRecords (ExecuteOplog oplog startHeight endBlock)))"
  using ExecuteOplog_distinct [OF assms] by blast

theorem oplog_ids_distinct_witness:
  "let e = OpLogEvent_zero\<lparr>ev_Type := ''withdraw'', ev_Id := ''tx1'', ev_Amount := 5\<rparr>;
       r = ExecuteOplog [e, e\<lparr>ev_Id := ''tx2''\<rparr>] 0 10
   in length (actionRecords r) = 2 \<and> distinct (map lu_Id (ledgerRecords r)) \<and>
      distinct (map ar_Id (actionRecords r))"
  unfolding Let_def
  apply (rule conjI)
   apply (simp add: exec_defs zero_updates zero_records)
  by (rule oplog_ids_distinct) (simp add: zero_updates)

end
