(* ===== verification/Ledger_State.thy ===== *)
theory Ledger_State
  imports Oplog
begin

text \<open>
  The state a block executes on (modules/ledger-system/ledger_state.go): the log of operations,
  the virtual ledger of balance changes not yet persisted, and the balance reads. \<open>GetBalance\<close> is
  the spend check: the newest balance snapshot plus every later ledger row that is not protocol
  bookkeeping. Both reads are fail-stop, so the result depends on the documents alone. The lemmas
  show that, that a sound snapshot may be replaced by a replay of the ledger from its beginning,
  and that \<open>GetConsensusBalanceAt\<close>, which returns its read errors, gives the same bond.

  The database handles may be nil; using a nil handle is a panic, which is \<open>None\<close> here. The lock
  around the virtual ledger and \<open>GatewayBalances\<close>, which nothing reads, have no counterpart.
\<close>

section \<open>Ledger types\<close>

definition LedgerTypeSafetySlashConsensus :: string where
  "LedgerTypeSafetySlashConsensus = ''safety_slash_consensus''"

definition LedgerTypeSafetySlashHiveBurn :: string where
  "LedgerTypeSafetySlashHiveBurn = ''safety_slash_hive_burn''"

definition LedgerTypeSafetySlashReserve :: string where
  "LedgerTypeSafetySlashReserve = ''safety_slash_reserve''"

definition LedgerTypeSafetySlashHiveBurnPending :: string where
  "LedgerTypeSafetySlashHiveBurnPending = ''safety_slash_hive_burn_pending''"

definition LedgerTypeSafetySlashHiveBurnPendingRelease :: string where
  "LedgerTypeSafetySlashHiveBurnPendingRelease = ''safety_slash_hive_burn_pending_release''"

definition LedgerTypeSafetySlashHiveBurnPendingFinalized :: string where
  "LedgerTypeSafetySlashHiveBurnPendingFinalized = ''safety_slash_hive_burn_pending_finalized''"

definition LedgerTypeSafetySlashHiveBurnPendingCancelled :: string where
  "LedgerTypeSafetySlashHiveBurnPendingCancelled = ''safety_slash_hive_burn_pending_cancelled''"

definition LedgerTypeSafetySlashConsensusReverse :: string where
  "LedgerTypeSafetySlashConsensusReverse = ''safety_slash_consensus_reverse''"

definition LedgerTypeSafetySlashBurnFinalizeCursor :: string where
  "LedgerTypeSafetySlashBurnFinalizeCursor = ''safety_slash_burn_finalize_cursor''"

definition safetySlashFinalizeCursorRowID :: string where
  "safetySlashFinalizeCursorRowID = ''safety_slash_burn_finalize_cursor''"

definition LedgerTypeReservePayoutDebit :: string where
  "LedgerTypeReservePayoutDebit = ''reserve_payout_debit''"

definition LedgerTypeReservePayoutCredit :: string where
  "LedgerTypeReservePayoutCredit = ''reserve_payout_credit''"

definition LedgerTypeRemediationCredit :: string where
  "LedgerTypeRemediationCredit = ''remediation_credit''"

definition LedgerTypeRemediationDebit :: string where
  "LedgerTypeRemediationDebit = ''remediation_debit''"

lemmas ledger_types = LedgerTypeSafetySlashConsensus_def LedgerTypeSafetySlashHiveBurn_def
  LedgerTypeSafetySlashReserve_def LedgerTypeSafetySlashHiveBurnPending_def
  LedgerTypeSafetySlashHiveBurnPendingRelease_def LedgerTypeSafetySlashHiveBurnPendingFinalized_def
  LedgerTypeSafetySlashHiveBurnPendingCancelled_def LedgerTypeSafetySlashConsensusReverse_def
  LedgerTypeSafetySlashBurnFinalizeCursor_def LedgerTypeReservePayoutDebit_def
  LedgerTypeReservePayoutCredit_def LedgerTypeRemediationCredit_def LedgerTypeRemediationDebit_def

definition IsProtocolMetaLedgerType :: "string \<Rightarrow> bool" where
  "IsProtocolMetaLedgerType t \<longleftrightarrow> t \<in> set
     [LedgerTypeSafetySlashHiveBurn, LedgerTypeSafetySlashReserve,
      LedgerTypeSafetySlashHiveBurnPending, LedgerTypeSafetySlashHiveBurnPendingRelease,
      LedgerTypeSafetySlashHiveBurnPendingFinalized, LedgerTypeSafetySlashHiveBurnPendingCancelled,
      LedgerTypeSafetySlashBurnFinalizeCursor, LedgerTypeReservePayoutDebit,
      LedgerTypeRemediationDebit]"

definition hiveConsensusLedgerOps :: "string list" where
  "hiveConsensusLedgerOps =
     [''consensus_stake'', ''consensus_unstake'', LedgerTypeSafetySlashConsensus,
      LedgerTypeSafetySlashConsensusReverse, LedgerTypeRemediationCredit]"

section \<open>The state\<close>

record LedgerState =
  ls_Oplog :: "OpLogEvent list"
  ls_VirtualLedger :: "string \<Rightarrow> LedgerUpdate list"
  ls_BlockHeight :: uint64
  ls_LedgerDb :: "LedgerRecord collection option"
  ls_ActionDb :: "ActionRecord collection option"
  ls_BalanceDb :: "BalanceRecord collection option"

definition NewEmptyState ::
  "LedgerRecord collection option \<Rightarrow> ActionRecord collection option \<Rightarrow> BalanceRecord collection option
     \<Rightarrow> LedgerState" where
  "NewEmptyState ledgerDb actionsDb balanceDb = \<lparr>ls_Oplog = [], ls_VirtualLedger = (\<lambda>_. []),
     ls_BlockHeight = 0, ls_LedgerDb = ledgerDb, ls_ActionDb = actionsDb, ls_BalanceDb = balanceDb\<rparr>"

definition Validate :: "LedgerState \<Rightarrow> unit option" where
  "Validate state =
     (if ls_LedgerDb state = None \<or> ls_ActionDb state = None \<or> ls_BalanceDb state = None then None
      else Some ())"

definition Export :: "LedgerState \<Rightarrow> OpLogEvent list" where
  "Export le = ls_Oplog le"

definition Flush :: "LedgerState \<Rightarrow> LedgerState" where
  "Flush state = state\<lparr>ls_VirtualLedger := (\<lambda>_. []), ls_Oplog := []\<rparr>"

definition Compile :: "LedgerState \<Rightarrow> uint64 \<Rightarrow> OpLogEvent list option" where
  "Compile state bh =
     (if length (ls_Oplog state) = 0 then None
      else Some (filter (\<lambda>v. ev_BlockHeight v \<le> bh) (ls_Oplog state)))"

definition DropVirtual :: "LedgerState \<Rightarrow> string \<Rightarrow> (LedgerUpdate \<Rightarrow> bool) \<Rightarrow> LedgerState" where
  "DropVirtual state account dropped =
     state\<lparr>ls_VirtualLedger := (ls_VirtualLedger state)
       (account := filter (\<lambda>v. \<not> dropped v) (ls_VirtualLedger state account))\<rparr>"

section \<open>Balance reads\<close>

definition ledgerRangeOrBlock ::
  "LedgerState \<Rightarrow> string \<Rightarrow> uint64 \<Rightarrow> uint64 \<Rightarrow> string \<Rightarrow> string list \<Rightarrow> dbs
     \<Rightarrow> (LedgerRecord list \<times> dbs) option" where
  "ledgerRangeOrBlock ls account start end asset opTypes s = do {
     L \<leftarrow> ls_LedgerDb ls;
     blockingLedgerRead (\<lambda>s. non_nil (GetLedgerRange L account start end asset [opTypes] s)) s
   }"

definition snapshot_base :: "string \<Rightarrow> BalanceRecord \<Rightarrow> int64" where
  "snapshot_base asset r =
     (if asset = ''hbd'' then br_HBD r
      else if asset = ''hive'' then br_Hive r
      else if asset = ''hbd_savings'' then br_HBD_SAVINGS r
      else if asset = ''hive_consensus'' then br_HIVE_CONSENSUS r
      else 0)"

text \<open>The height the replay starts at, and the snapshot with Go's zero value for a missing one.\<close>

definition record_height :: "BalanceRecord option \<Rightarrow> uint64" where
  "record_height r = (case r of None \<Rightarrow> 0 | Some b \<Rightarrow> br_BlockHeight b + 1)"

definition record_or_zero :: "BalanceRecord option \<Rightarrow> BalanceRecord" where
  "record_or_zero r = (case r of None \<Rightarrow> BalanceRecord_zero | Some b \<Rightarrow> b)"

definition GetBalance :: "LedgerState \<Rightarrow> string \<Rightarrow> uint64 \<Rightarrow> string \<Rightarrow> dbs \<Rightarrow> (int64 \<times> dbs) option" where
  "GetBalance ls account blockHeight asset s =
     (if asset \<notin> set assetTypes then Some (0, s)
      else do {
        B \<leftarrow> ls_BalanceDb ls;
        (balRecordPtr, s) \<leftarrow> blockingLedgerRead (GetBalanceRecord B account blockHeight) s;
        if asset = AssetDelegation \<or> asset = AssetDelegationTotal then do {
          (rows, s) \<leftarrow> ledgerRangeOrBlock ls account 0 blockHeight asset
            [''consensus_stake'', ''consensus_unstake''] s;
          Some (sum_list (map lr_Amount rows), s)
        } else do {
          let base = snapshot_base asset (record_or_zero balRecordPtr);
          (rows, s) \<leftarrow> ledgerRangeOrBlock ls account (record_height balRecordPtr) blockHeight asset [] s;
          Some (base + sum_list (map lr_Amount (filter (\<lambda>v. \<not> IsProtocolMetaLedgerType (lr_Type v)) rows)), s)
        }
      })"

definition SnapshotForAccount ::
  "LedgerState \<Rightarrow> string \<Rightarrow> uint64 \<Rightarrow> string \<Rightarrow> dbs \<Rightarrow> (int64 \<times> dbs) option" where
  "SnapshotForAccount state account blockHeight asset s = do {
     (bal, s) \<leftarrow> GetBalance state account blockHeight asset s;
     Some (bal + sum_list (map lu_Amount
       (filter (\<lambda>v. lu_Asset v = asset) (ls_VirtualLedger state account))), s)
   }"

definition GetConsensusBalanceAt ::
  "LedgerState \<Rightarrow> string \<Rightarrow> uint64 \<Rightarrow> dbs \<Rightarrow> ((db_error + int64) \<times> dbs) option" where
  "GetConsensusBalanceAt ls account blockHeight s = do {
     B \<leftarrow> ls_BalanceDb ls;
     case GetBalanceRecord B account blockHeight s of
       (Inl e, s) \<Rightarrow> Some (Inl e, s)
     | (Inr balRecordPtr, s) \<Rightarrow> do {
         let base = br_HIVE_CONSENSUS (record_or_zero balRecordPtr);
         L \<leftarrow> ls_LedgerDb ls;
         case GetLedgerRange L account (record_height balRecordPtr) blockHeight ''hive_consensus''
                [hiveConsensusLedgerOps] s of
           (Inl e, s) \<Rightarrow> Some (Inl e, s)
         | (Inr None, s) \<Rightarrow> Some (Inl NilResult, s)
         | (Inr (Some rows), s) \<Rightarrow> Some (Inr (base + sum_list (map lr_Amount rows)), s)
       }
   }"

definition ConsensusReverseCreditsInRange ::
  "LedgerState \<Rightarrow> string \<Rightarrow> uint64 \<Rightarrow> uint64 \<Rightarrow> dbs \<Rightarrow> ((db_error + LedgerRecord list) \<times> dbs) option" where
  "ConsensusReverseCreditsInRange ls account start end s = do {
     L \<leftarrow> ls_LedgerDb ls;
     case GetLedgerRange L account start end ''hive_consensus''
            [[LedgerTypeSafetySlashConsensusReverse]] s of
       (Inl e, s) \<Rightarrow> Some (Inl e, s)
     | (Inr None, s) \<Rightarrow> Some (Inl NilResult, s)
     | (Inr (Some rows), s) \<Rightarrow> Some (Inr rows, s)
   }"

section \<open>What the reads return\<close>

definition net_rows :: "(LedgerRecord \<Rightarrow> bool) \<Rightarrow> LedgerRecord list \<Rightarrow> int64" where
  "net_rows P rows = sum_list (map lr_Amount (filter P rows))"

definition counted :: "string \<Rightarrow> string \<Rightarrow> LedgerRecord \<Rightarrow> bool" where
  "counted account asset r \<longleftrightarrow>
     lr_Owner r = account \<and> lr_Asset r = asset \<and> \<not> IsProtocolMetaLedgerType (lr_Type r)"

definition edge_row :: "string \<Rightarrow> string \<Rightarrow> LedgerRecord \<Rightarrow> bool" where
  "edge_row account asset r \<longleftrightarrow>
     lr_Owner r = account \<and> lr_Asset r = asset \<and> lr_Type r \<in> {''consensus_stake'', ''consensus_unstake''}"

definition newest_snapshot ::
  "BalanceRecord collection \<Rightarrow> ledger_dbs \<Rightarrow> string \<Rightarrow> uint64 \<Rightarrow> BalanceRecord option" where
  "newest_snapshot B c account h = FindOne B (balance_query account h) newest_balance (balances_c c)"

definition balance_of ::
  "BalanceRecord collection \<Rightarrow> ledger_dbs \<Rightarrow> string \<Rightarrow> uint64 \<Rightarrow> string \<Rightarrow> int64" where
  "balance_of B c account h asset =
     (if asset \<notin> set assetTypes then 0
      else if asset = AssetDelegation \<or> asset = AssetDelegationTotal then
        net_rows (\<lambda>r. edge_row account asset r \<and> lr_BlockHeight r \<le> h) (ledger_c c)
      else (let b = newest_snapshot B c account h in
        snapshot_base asset (record_or_zero b) +
        net_rows (\<lambda>r. counted account asset r \<and> record_height b \<le> lr_BlockHeight r \<and> lr_BlockHeight r \<le> h)
          (ledger_c c)))"

definition replay :: "ledger_dbs \<Rightarrow> string \<Rightarrow> uint64 \<Rightarrow> string \<Rightarrow> int64" where
  "replay c account h asset = net_rows (\<lambda>r. counted account asset r \<and> lr_BlockHeight r \<le> h) (ledger_c c)"

definition snapshotted :: "string list" where
  "snapshotted = [''hbd'', ''hive'', ''hbd_savings'', ''hive_consensus'']"

definition sound_snapshot :: "ledger_dbs \<Rightarrow> BalanceRecord \<Rightarrow> bool" where
  "sound_snapshot c b \<longleftrightarrow> list_all (\<lambda>asset.
     snapshot_base asset b = replay c (br_Account b) (br_BlockHeight b) asset) snapshotted"

definition snapshots_sound :: "ledger_dbs \<Rightarrow> bool" where
  "snapshots_sound c \<longleftrightarrow> list_all (sound_snapshot c) (balances_c c)"

lemma snapshotted_assets:
  "asset \<in> set snapshotted \<Longrightarrow> asset \<in> set assetTypes \<and> asset \<noteq> AssetDelegation \<and> asset \<noteq> AssetDelegationTotal"
  by (auto simp: snapshotted_def assetTypes_def transferableAssetTypes_def AssetDelegation_def
      AssetDelegationTotal_def)

lemma snapshotted_nonempty: "[] \<notin> set assetTypes"
  by (simp add: assetTypes_def transferableAssetTypes_def AssetDelegation_def AssetDelegationTotal_def)

lemma net_rows_split:
  "\<lbrakk>\<And>r. P r \<longleftrightarrow> Q r \<or> R r; \<And>r. \<not> (Q r \<and> R r)\<rbrakk> \<Longrightarrow> net_rows P rows = net_rows Q rows + net_rows R rows"
  by (induction rows) (auto simp: net_rows_def algebra_simps)

lemma net_rows_cong: "(\<And>r. r \<in> set rows \<Longrightarrow> P r \<longleftrightarrow> Q r) \<Longrightarrow> net_rows P rows = net_rows Q rows"
  unfolding net_rows_def by (metis (mono_tags, lifting) filter_cong)

lemma net_rows_mset: "mset xs = mset ys \<Longrightarrow> net_rows P xs = net_rows P ys"
  unfolding net_rows_def by (rule sum_list_mset_cong) (metis mset_filter)

lemma range_or_block:
  "ls_LedgerDb ls = Some L \<Longrightarrow>
     ledgerRangeOrBlock ls account start end asset opTypes s =
     Some (Find L (range_query account start end asset [opTypes]) by_height (ledger_of s),
       s\<lparr>faults := settle (faults s)\<rparr>)"
  by (simp add: ledgerRangeOrBlock_def GetLedgerRange_def)

lemma opType_filter_single [simp]:
  "opType_filter [[]] t" "ts \<noteq> [] \<Longrightarrow> opType_filter [ts] t \<longleftrightarrow> t \<in> set ts"
  by (simp_all add: opType_filter_def)

context ledger_collection
begin

lemma find_net:
  "sum_list (map lr_Amount (filter Q (Find L P le rows))) = net_rows (\<lambda>r. P r \<and> Q r) rows"
proof -
  have "mset (filter Q (Find L P le rows)) = mset (filter (\<lambda>r. P r \<and> Q r) rows)"
    by (simp add: find_docs filter_mset_filter_mset)
  then show ?thesis unfolding net_rows_def by (rule sum_list_mset_cong)
qed

lemma find_net_all: "sum_list (map lr_Amount (Find L P le rows)) = net_rows P rows"
  using find_net [of "\<lambda>_. True"] by simp

lemma GetBalance_reads:
  assumes "ls_LedgerDb ls = Some L" "ls_BalanceDb ls = Some B"
  shows "\<exists>fs. GetBalance ls account h asset s =
    Some (balance_of B (contents s) account h asset, s\<lparr>faults := fs\<rparr>)"
proof (cases "asset \<in> set assetTypes")
  case False
  then show ?thesis by (auto simp: GetBalance_def balance_of_def intro: exI [of _ "faults s"])
next
  case asset: True
  then have ne: "asset \<noteq> []" using snapshotted_nonempty by metis
  show ?thesis
  proof (cases "asset = AssetDelegation \<or> asset = AssetDelegationTotal")
    case True
    have "net_rows (range_query account 0 h asset [[''consensus_stake'', ''consensus_unstake'']]) rows =
        net_rows (\<lambda>r. edge_row account asset r \<and> lr_BlockHeight r \<le> h) rows" for rows
      using ne by (intro net_rows_cong) (auto simp: range_query_def edge_row_def)
    then show ?thesis
      using assms asset True
      by (intro exI [of _ "settle (settle (faults s))"])
        (simp add: GetBalance_def GetBalanceRecord_def range_or_block find_net_all balance_of_def)
  next
    case False
    have "net_rows (\<lambda>r. range_query account lo h asset [[]] r \<and> \<not> IsProtocolMetaLedgerType (lr_Type r)) rows =
        net_rows (\<lambda>r. counted account asset r \<and> lo \<le> lr_BlockHeight r \<and> lr_BlockHeight r \<le> h) rows" for rows lo
      using ne by (intro net_rows_cong) (auto simp: range_query_def counted_def)
    then show ?thesis
      using assms asset False
      by (intro exI [of _ "settle (settle (faults s))"])
        (simp add: GetBalance_def GetBalanceRecord_def range_or_block find_net balance_of_def
          newest_snapshot_def Let_def)
  qed
qed

lemma Snapshot_reads:
  assumes "ls_LedgerDb st = Some L" "ls_BalanceDb st = Some B"
  shows "\<exists>fs. SnapshotForAccount st account h asset s =
    Some (balance_of B (contents s) account h asset + asset_rows asset (ls_VirtualLedger st account),
      s\<lparr>faults := fs\<rparr>)"
  using GetBalance_reads [OF assms, of account h asset s]
  by (auto simp: SnapshotForAccount_def asset_rows_def)

lemma consensus_balance:
  assumes "ls_LedgerDb ls = Some L" "ls_BalanceDb ls = Some B"
    and "\<forall>r \<in> set (ledger_of s). lr_Asset r = ''hive_consensus'' \<longrightarrow>
      (IsProtocolMetaLedgerType (lr_Type r) \<or> lr_Type r \<in> set hiveConsensusLedgerOps)"
    and "GetConsensusBalanceAt ls account h s = Some (Inr v, s')"
  shows "v = balance_of B (contents s) account h ''hive_consensus''"
proof -
  have same: "net_rows (range_query account lo h ''hive_consensus'' [hiveConsensusLedgerOps]) (ledger_of s) =
      net_rows (\<lambda>r. counted account ''hive_consensus'' r \<and> lo \<le> lr_BlockHeight r \<and> lr_BlockHeight r \<le> h)
        (ledger_of s)" for lo
    using assms(3)
    by (intro net_rows_cong)
      (auto simp: range_query_def counted_def opType_filter_def hiveConsensusLedgerOps_def
        IsProtocolMetaLedgerType_def ledger_types)
  have read: "contents t = contents s" "b = newest_snapshot B (contents s) account h"
    if "GetBalanceRecord B account h s = (Inr b, t)" for b t
    using that by (auto simp: GetBalanceRecord_def newest_snapshot_def db_call_def
        split: list.splits call_outcome.splits)
  obtain b t where bt: "GetBalanceRecord B account h s = (Inr b, t)"
    using assms(2,4) by (auto simp: GetConsensusBalanceAt_def split: prod.splits sum.splits)
  have "v = br_HIVE_CONSENSUS (record_or_zero b) +
      net_rows (range_query account (record_height b) h ''hive_consensus'' [hiveConsensusLedgerOps]) (ledger_of s)"
    using assms(1,2,4) bt read(1) [OF bt]
    by (auto simp: GetConsensusBalanceAt_def GetLedgerRange_def db_call_def find_net_all
        split: list.splits call_outcome.splits)
  then show ?thesis
    using snapshotted_assets [of "''hive_consensus''"]
    by (simp add: same read(2) [OF bt] balance_of_def snapshotted_def snapshot_base_def Let_def)
qed

end

text \<open>A sound snapshot stands for the rows below it.\<close>

lemma newest_snapshot_query:
  assumes "mongo_collection B" "newest_snapshot B c account h = Some b"
  shows "b \<in> set (balances_c c)" "br_Account b = account" "br_BlockHeight b \<le> h"
  using mongo_collection.find_one_some [OF assms(1), of "balance_query account h" newest_balance "balances_c c" b] assms(2)
  by (auto simp: newest_snapshot_def balance_query_def)

lemma height_split:
  fixes b h x :: uint64
  assumes "b \<le> h" "h < - 1"
  shows "x \<le> h \<longleftrightarrow> x \<le> b \<or> b + 1 \<le> x \<and> x \<le> h" "\<not> (x \<le> b \<and> b + 1 \<le> x)"
proof -
  have "b < - 1" using assms by (rule le_less_trans)
  then show "x \<le> h \<longleftrightarrow> x \<le> b \<or> b + 1 \<le> x \<and> x \<le> h" "\<not> (x \<le> b \<and> b + 1 \<le> x)"
    using assms by (auto simp: uint64_succ_le)
qed

lemma balance_of_replay:
  assumes "mongo_collection B" "snapshots_sound c" "asset \<in> set snapshotted" "h < - 1"
  shows "balance_of B c account h asset = replay c account h asset"
proof (cases "newest_snapshot B c account h")
  case None
  then show ?thesis
    using snapshotted_assets [OF assms(3)]
    by (simp add: balance_of_def record_or_zero_def record_height_def snapshot_base_def replay_def zero_records)
next
  case (Some b)
  note q = newest_snapshot_query [OF assms(1) Some]
  have "snapshot_base asset b = replay c account (br_BlockHeight b) asset"
    using assms(2,3) q(1,2) by (auto simp: snapshots_sound_def sound_snapshot_def list_all_iff)
  moreover have "replay c account h asset = replay c account (br_BlockHeight b) asset +
      net_rows (\<lambda>r. counted account asset r \<and> br_BlockHeight b + 1 \<le> lr_BlockHeight r \<and> lr_BlockHeight r \<le> h)
        (ledger_c c)"
    unfolding replay_def
    by (rule net_rows_split) (use height_split [OF q(3) assms(4)] in blast)+
  ultimately show ?thesis
    using snapshotted_assets [OF assms(3)] Some
    by (simp add: balance_of_def record_or_zero_def record_height_def)
qed

section \<open>Properties\<close>

text \<open>
  C2. The spend check is a replay of the ledger: when the balance snapshots are sound, \<open>GetBalance\<close>
  returns the sum of all rows of the account and asset up to the height that are not protocol
  bookkeeping, whichever snapshot it starts from and whatever database faults occur on the way; it
  always returns, and changes no document.
\<close>

theorem GetBalance_is_replay:
  assumes "ledger_collection L" "mongo_collection B"
    and "ls_LedgerDb ls = Some L" "ls_BalanceDb ls = Some B"
    and "snapshots_sound (contents s)" "asset \<in> set snapshotted" "blockHeight < - 1"
  shows "\<exists>fs. GetBalance ls account blockHeight asset s =
    Some (replay (contents s) account blockHeight asset, s\<lparr>faults := fs\<rparr>)"
  using ledger_collection.GetBalance_reads [OF assms(1,3,4), of account blockHeight asset s]
    balance_of_replay [OF assms(2,5,6,7), of account] by simp

definition ledger_row :: "string \<Rightarrow> string \<Rightarrow> int64 \<Rightarrow> string \<Rightarrow> string \<Rightarrow> uint64 \<Rightarrow> LedgerRecord" where
  "ledger_row i owner amt asset ty h = LedgerRecord_zero\<lparr>lr_Id := i, lr_Owner := owner, lr_Amount := amt,
     lr_Asset := asset, lr_Type := ty, lr_BlockHeight := h\<rparr>"

definition example_dbs :: ledger_dbs where
  "example_dbs = \<lparr>ledger_c = [ledger_row ''d1'' ''hive:alice'' 100 ''hbd'' ''deposit'' 5,
      ledger_row ''t1#in'' ''hive:alice'' (- 30) ''hbd'' ''transfer'' 12],
    balances_c = [BalanceRecord_zero\<lparr>br_Account := ''hive:alice'', br_BlockHeight := 10, br_HBD := 100\<rparr>],
    actions_c = [], claims_c = []\<rparr>"

theorem GetBalance_is_replay_witness:
  "replay example_dbs ''hive:alice'' 20 ''hbd'' = 70 \<and>
   (\<exists>fs. GetBalance (NewEmptyState (Some list_collection) None (Some list_collection)) ''hive:alice'' 20 ''hbd''
      \<lparr>contents = example_dbs, faults = [RequestLost, CallOk, ReplyLost]\<rparr> =
    Some (70, \<lparr>contents = example_dbs, faults = fs\<rparr>))"
proof -
  have r: "replay example_dbs ''hive:alice'' 20 ''hbd'' = 70"
    by (simp add: example_dbs_def ledger_row_def replay_def net_rows_def counted_def
        IsProtocolMetaLedgerType_def ledger_types zero_records)
  have "snapshots_sound example_dbs"
    by (simp add: example_dbs_def ledger_row_def snapshots_sound_def sound_snapshot_def snapshotted_def
        snapshot_base_def replay_def net_rows_def counted_def IsProtocolMetaLedgerType_def ledger_types
        zero_records)
  then show ?thesis
    using GetBalance_is_replay [OF list_ledger.ledger_collection_axioms list_coll.mongo_collection_axioms,
        of "NewEmptyState (Some list_collection) None (Some list_collection)"
          "\<lparr>contents = example_dbs, faults = [RequestLost, CallOk, ReplyLost]\<rparr>" "''hbd''" 20 "''hive:alice''"] r
    by (simp add: NewEmptyState_def snapshotted_def)
qed


definition bond_dbs :: ledger_dbs where
  "bond_dbs = \<lparr>ledger_c = [ledger_row ''s1#out'' ''hive:node'' 2000 ''hive_consensus'' ''consensus_stake'' 5,
      ledger_row ''k1'' ''hive:node'' (- 200) ''hive_consensus'' ''safety_slash_consensus'' 9],
    balances_c = [], actions_c = [], claims_c = []\<rparr>"


end
