(* ===== verification/Session_Spec.thy ===== *)
theory Session_Spec
  imports Session
begin

text \<open>
  What a session promises, and that it keeps it. The abstract session is a function from account
  and asset to balance. \<open>outcome\<close> says for every operation which result it gives on such a
  function and which event it logs; the lemmas show that the session of \<open>Session\<close>, with its
  cache, its id counter and its database reads that fail and are retried, gives that result and
  moves the abstract balances by the ledger records of that event and nothing else.
\<close>

section \<open>The abstract session\<close>

type_synonym view = "string \<Rightarrow> string \<Rightarrow> int64"

definition apply_rows :: "LedgerUpdate list \<Rightarrow> view \<Rightarrow> view" where
  "apply_rows us bal account asset =
     bal account asset + asset_rows asset (filter (\<lambda>u. lu_Owner u = account) us)"

datatype session_op =
    OpTransfer OpLogEvent "int64 list"
  | OpWithdraw WithdrawParams
  | OpStake StakeOp "int64 list"
  | OpUnstake StakeOp
  | OpConsensusStake ConsensusParams
  | OpConsensusUnstake ConsensusParams

fun op_height :: "session_op \<Rightarrow> uint64" where
  "op_height (OpTransfer e _) = ev_BlockHeight e"
| "op_height (OpWithdraw w) = wp_BlockHeight w"
| "op_height (OpStake p _) = ev_BlockHeight (so_Event p)"
| "op_height (OpUnstake p) = ev_BlockHeight (so_Event p)"
| "op_height (OpConsensusStake p) = cp_BlockHeight p"
| "op_height (OpConsensusUnstake p) = cp_BlockHeight p"

text \<open>The loss of a slash, shared pro rata: the bond over the gross total is the node's solvency.\<close>

definition pro_rata :: "int64 \<Rightarrow> int64 \<Rightarrow> int64 \<Rightarrow> int64" where
  "pro_rata gross bond gross_total =
     (if sint gross \<le> 0 then 0
      else if sint gross_total \<le> 0 \<or> sint bond \<ge> sint gross_total then gross
      else if sint bond \<le> 0 then 0
      else word_of_int ((sint gross * sint bond) div sint gross_total))"

definition withdraw_outcome :: "WithdrawParams \<Rightarrow> view \<Rightarrow> string + OpLogEvent" where
  "withdraw_outcome w bal =
     (let hiveAsset = wp_Asset w \<in> {''hive'', ''hbd''} in
      if sint (wp_Amount w) \<le> 0 then Inl ''invalid amount''
      else if \<not> hiveAsset \<and> wp_Asset w \<notin> {''eth'', ''usdc''} then Inl ''invalid asset''
      else case withdraw_dest hiveAsset (wp_To w) of
        Inl msg \<Rightarrow> Inl msg
      | Inr dest \<Rightarrow>
          if sint (bal (wp_From w) (wp_Asset w)) < sint (wp_Amount w) then Inl ''insufficient balance''
          else Inr (withdraw_event w dest))"

definition stake_outcome :: "StakeOp \<Rightarrow> int64 list \<Rightarrow> view \<Rightarrow> string + OpLogEvent" where
  "stake_outcome p options bal =
     (let e = so_Event p in
      if sint (ev_Amount e) \<le> 0 \<or> so_Instant p \<and> sint (ev_Amount e) < 2 then Inl ''invalid amount''
      else if ev_Asset e \<noteq> ''hbd'' then Inl ''invalid asset''
      else if sint (bal (ev_From e) ''hbd'' - exclusion_of options) < sint (ev_Amount e)
      then Inl ''insufficient balance''
      else Inr (stake_event ''stake'' e))"

definition unstake_outcome :: "StakeOp \<Rightarrow> view \<Rightarrow> string + OpLogEvent" where
  "unstake_outcome p bal =
     (let e = so_Event p in
      if sint (ev_Amount e) \<le> 0 \<or> so_Instant p \<and> sint (ev_Amount e) < 2 then Inl ''invalid amount''
      else if ev_Asset e \<noteq> ''hbd'' \<and> ev_Asset e \<noteq> ''hbd_savings'' then Inl ''invalid asset''
      else if sint (bal (ev_From e) ''hbd_savings'') < sint (ev_Amount e) then Inl ''insufficient balance''
      else Inr (stake_event ''unstake'' e))"

definition transfer_outcome :: "OpLogEvent \<Rightarrow> int64 list \<Rightarrow> view \<Rightarrow> string + OpLogEvent" where
  "transfer_outcome e options bal =
     (if sint (ev_Amount e) \<le> 0 then Inl ''invalid amount''
      else if ev_To e = ev_From e then Inl ''cannot send to self''
      else if HasPrefix (ev_To e) ''system:'' then Inl ''invalid destination''
      else if ev_Asset e \<notin> set transferableAssetTypes then Inl ''invalid asset''
      else if sint (bal (ev_From e) (ev_Asset e) - exclusion_of options) < sint (ev_Amount e)
      then Inl ''insufficient balance''
      else Inr (e\<lparr>ev_Type := ''transfer''\<rparr>))"

definition consensus_stake_outcome :: "ConsensusParams \<Rightarrow> view \<Rightarrow> string + OpLogEvent" where
  "consensus_stake_outcome p bal =
     (if sint (cp_Amount p) \<le> 0 then Inl ''invalid amount''
      else if sint (bal (cp_From p) ''hive'') < sint (cp_Amount p) then Inl ''insufficient balance''
      else Inr (consensus_stake_event p))"

definition consensus_unstake_outcome :: "ConsensusParams \<Rightarrow> view \<Rightarrow> string + OpLogEvent" where
  "consensus_unstake_outcome p bal =
     (if sint (cp_Amount p) \<le> 0 then Inl ''invalid amount''
      else if cp_Delegated p then
        if sint (bal (DelegationEdgeKey (cp_From p) (cp_To p)) AssetDelegation) < sint (cp_Amount p)
        then Inl ''amount exceeds delegated stake''
        else Inr (unstake_event p (pro_rata (cp_Amount p) (bal (cp_To p) ''hive_consensus'')
               (bal (cp_To p) AssetDelegationTotal)))
      else if sint (bal (cp_From p) ''hive_consensus'') < sint (cp_Amount p) then Inl ''insufficient balance''
      else Inr (unstake_event p (cp_Amount p)))"

fun outcome :: "session_op \<Rightarrow> view \<Rightarrow> string + OpLogEvent" where
  "outcome (OpTransfer e options) bal = transfer_outcome e options bal"
| "outcome (OpWithdraw w) bal = withdraw_outcome w bal"
| "outcome (OpStake p options) bal = stake_outcome p options bal"
| "outcome (OpUnstake p) bal = unstake_outcome p bal"
| "outcome (OpConsensusStake p) bal = consensus_stake_outcome p bal"
| "outcome (OpConsensusUnstake p) bal = consensus_unstake_outcome p bal"

definition result_of :: "string + OpLogEvent \<Rightarrow> LedgerResult" where
  "result_of r = (case r of Inl msg \<Rightarrow> fail msg | Inr _ \<Rightarrow> success ''success'')"

definition moved :: "string + OpLogEvent \<Rightarrow> view \<Rightarrow> view" where
  "moved r bal = (case r of Inl _ \<Rightarrow> bal | Inr e \<Rightarrow> apply_rows (ledgerRecords (exec_event e (ev_BlockHeight e))) bal)"

fun spec_ops :: "session_op list \<Rightarrow> view \<Rightarrow> LedgerResult list \<times> view" where
  "spec_ops [] bal = ([], bal)"
| "spec_ops (op # ops) bal =
     (let r = outcome op bal; (rs, bal') = spec_ops ops (moved r bal) in (result_of r # rs, bal'))"

section \<open>The concrete session behind it\<close>

fun run_op :: "LedgerState \<Rightarrow> session_op \<Rightarrow> ledgerSession \<Rightarrow> dbs \<Rightarrow> LedgerResult session_result" where
  "run_op st (OpTransfer e options) sess s = ExecuteTransfer st e options sess s"
| "run_op st (OpWithdraw w) sess s = Withdraw st w sess s"
| "run_op st (OpStake p options) sess s = Stake st p options sess s"
| "run_op st (OpUnstake p) sess s = Unstake st p sess s"
| "run_op st (OpConsensusStake p) sess s = ConsensusStake st p sess s"
| "run_op st (OpConsensusUnstake p) sess s = ConsensusUnstake st p sess s"

fun run_ops :: "LedgerState \<Rightarrow> session_op list \<Rightarrow> ledgerSession \<Rightarrow> dbs \<Rightarrow> LedgerResult list session_result" where
  "run_ops st [] sess s = Some ([], sess, s)"
| "run_ops st (op # ops) sess s = do {
     (r, sess, s) \<leftarrow> run_op st op sess s;
     (rs, sess, s) \<leftarrow> run_ops st ops sess s;
     Some (r # rs, sess, s)
   }"

definition state_view :: "LedgerState \<Rightarrow> BalanceRecord collection \<Rightarrow> ledger_dbs \<Rightarrow> uint64 \<Rightarrow> view" where
  "state_view st B c h account asset =
     balance_of B c account h asset + asset_rows asset (ls_VirtualLedger st account)"

definition session_view ::
  "LedgerState \<Rightarrow> BalanceRecord collection \<Rightarrow> ledger_dbs \<Rightarrow> uint64 \<Rightarrow> ledgerSession \<Rightarrow> view" where
  "session_view st B c h sess = apply_rows (ss_ledgerOps sess) (state_view st B c h)"

text \<open>The cache holds the abstract balances, and every balance an update moved is cached.\<close>

definition coherent ::
  "LedgerState \<Rightarrow> BalanceRecord collection \<Rightarrow> ledger_dbs \<Rightarrow> uint64 \<Rightarrow> ledgerSession \<Rightarrow> bool" where
  "coherent st B c h sess \<longleftrightarrow>
     (\<forall>account asset v. CHR ''#'' \<notin> set asset \<longrightarrow> ss_balances sess (key account asset) = Some v \<longrightarrow>
        v = session_view st B c h sess account asset) \<and>
     (\<forall>u \<in> set (ss_ledgerOps sess). ss_balances sess (key (lu_Owner u) (lu_Asset u)) \<noteq> None)"

lemma key_inject:
  "CHR ''#'' \<notin> set asset \<Longrightarrow> CHR ''#'' \<notin> set asset' \<Longrightarrow>
     key account asset = key account' asset' \<longleftrightarrow> account = account' \<and> asset = asset'"
  by (simp add: key_def event_id_of_record)

lemma asset_names [simp]:
  "asset \<in> set assetTypes \<Longrightarrow> CHR ''#'' \<notin> set asset"
  by (auto simp: assetTypes_def transferableAssetTypes_def AssetDelegation_def AssetDelegationTotal_def)

lemma apply_rows_Nil [simp]: "apply_rows [] bal = bal"
  by (simp add: apply_rows_def asset_rows_def fun_eq_iff)

lemma apply_rows_append: "apply_rows (us @ vs) bal = apply_rows vs (apply_rows us bal)"
  by (simp add: apply_rows_def fun_eq_iff add.assoc)

lemma apply_rows_single:
  "apply_rows [u] bal = bal(lu_Owner u := (bal (lu_Owner u))
     (lu_Asset u := bal (lu_Owner u) (lu_Asset u) + lu_Amount u))"
  by (auto simp: apply_rows_def asset_rows_def fun_eq_iff)

lemma view_uncached:
  assumes "coherent st B c h sess" "ss_balances sess (key account asset) = None"
  shows "session_view st B c h sess account asset = state_view st B c h account asset"
proof -
  have "filter (\<lambda>u. lu_Asset u = asset) (filter (\<lambda>u. lu_Owner u = account) (ss_ledgerOps sess)) = []"
    using assms by (auto simp: coherent_def filter_empty_conv)
  then show ?thesis by (simp add: session_view_def apply_rows_def asset_rows_def)
qed

lemma coherent_cache:
  assumes "coherent st B c h sess" "CHR ''#'' \<notin> set asset"
  shows "coherent st B c h (setBalance account asset (session_view st B c h sess account asset) sess)"
  using assms by (auto simp: coherent_def setBalance_def session_view_def key_inject)

text \<open>
  The state's handles are set. Under that the session's reads and appends do what the abstract
  session does.
\<close>

locale wired = ledger_collection L for L :: "LedgerRecord collection" +
  fixes st :: LedgerState and A :: "ActionRecord collection" and B :: "BalanceRecord collection"
  assumes handles: "ls_LedgerDb st = Some L" "ls_ActionDb st = Some A" "ls_BalanceDb st = Some B"
begin

lemma valid [simp]: "Validate st = Some ()"
  by (simp add: Validate_def handles)

lemma read_balance:
  assumes coh: "coherent st B (contents s) h sess" and asset: "CHR ''#'' \<notin> set asset"
    and at: "h' = h \<or> ss_balances sess (key account asset) \<noteq> None"
  shows "\<exists>m fs. session_GetBalance st account h' asset sess s =
      Some (session_view st B (contents s) h sess account asset, sess\<lparr>ss_balances := m\<rparr>, s\<lparr>faults := fs\<rparr>) \<and>
    coherent st B (contents s) h (sess\<lparr>ss_balances := m\<rparr>) \<and>
    dom (ss_balances sess) \<subseteq> dom m \<and> m (key account asset) \<noteq> None"
proof (cases "ss_balances sess (key account asset)")
  case (Some v)
  then have "v = session_view st B (contents s) h sess account asset"
    using coh asset by (simp add: coherent_def)
  with Some coh show ?thesis
    by (intro exI [of _ "ss_balances sess"] exI [of _ "faults s"]) (simp add: session_GetBalance_def)
next
  case None
  let ?v = "session_view st B (contents s) h sess account asset"
  obtain fs where "SnapshotForAccount st account h asset s = Some (?v, s\<lparr>faults := fs\<rparr>)"
    using Snapshot_reads [OF handles(1,3), of account h asset s] view_uncached [OF coh None]
    by (auto simp: state_view_def)
  with None at coherent_cache [OF coh asset, of account] show ?thesis
    by (intro exI [of _ "(ss_balances sess)(key account asset \<mapsto> ?v)"] exI [of _ fs])
      (auto simp: session_GetBalance_def setBalance_def)
qed

lemma append_ledger:
  assumes coh: "coherent st B (contents s) h sess" and asset: "CHR ''#'' \<notin> set (lu_Asset u)"
    and at: "lu_BlockHeight u = h \<or> ss_balances sess (key (lu_Owner u) (lu_Asset u)) \<noteq> None"
  shows "\<exists>m fs. AppendLedger st u sess s =
      Some ((), sess\<lparr>ss_balances := m, ss_ledgerOps := ss_ledgerOps sess @ [u]\<rparr>, s\<lparr>faults := fs\<rparr>) \<and>
    coherent st B (contents s) h (sess\<lparr>ss_balances := m, ss_ledgerOps := ss_ledgerOps sess @ [u]\<rparr>) \<and>
    dom (ss_balances sess) \<subseteq> dom m"
proof -
  let ?v = "session_view st B (contents s) h sess (lu_Owner u) (lu_Asset u)"
  obtain m fs where m: "session_GetBalance st (lu_Owner u) (lu_BlockHeight u) (lu_Asset u) sess s =
      Some (?v, sess\<lparr>ss_balances := m\<rparr>, s\<lparr>faults := fs\<rparr>)"
    and coh': "coherent st B (contents s) h (sess\<lparr>ss_balances := m\<rparr>)"
    and dom: "dom (ss_balances sess) \<subseteq> dom m"
    using read_balance [OF coh asset at] by blast
  let ?m = "m(key (lu_Owner u) (lu_Asset u) \<mapsto> ?v + lu_Amount u)"
  have "coherent st B (contents s) h (sess\<lparr>ss_balances := ?m, ss_ledgerOps := ss_ledgerOps sess @ [u]\<rparr>)"
    using coh' asset
    by (auto simp: coherent_def session_view_def apply_rows_append apply_rows_single key_inject)
  moreover have "AppendLedger st u sess s =
      Some ((), sess\<lparr>ss_balances := ?m, ss_ledgerOps := ss_ledgerOps sess @ [u]\<rparr>, s\<lparr>faults := fs\<rparr>)"
    by (simp add: AppendLedger_def m setBalance_def)
  moreover have "dom (ss_balances sess) \<subseteq> dom ?m" using dom by auto
  ultimately show ?thesis by blast
qed

lemma append_ledgers:
  assumes "coherent st B (contents s) h sess"
    and "\<forall>u \<in> set us. CHR ''#'' \<notin> set (lu_Asset u) \<and>
      (lu_BlockHeight u = h \<or> ss_balances sess (key (lu_Owner u) (lu_Asset u)) \<noteq> None)"
  shows "\<exists>m fs. append_ledgers st us sess s =
      Some ((), sess\<lparr>ss_balances := m, ss_ledgerOps := ss_ledgerOps sess @ us\<rparr>, s\<lparr>faults := fs\<rparr>) \<and>
    coherent st B (contents s) h (sess\<lparr>ss_balances := m, ss_ledgerOps := ss_ledgerOps sess @ us\<rparr>)"
  using assms
proof (induction us arbitrary: sess s)
  case Nil
  then show ?case
    by (intro exI [of _ "ss_balances sess"] exI [of _ "faults s"]) simp
next
  case (Cons u us)
  let ?sess = "\<lambda>m. sess\<lparr>ss_balances := m, ss_ledgerOps := ss_ledgerOps sess @ [u]\<rparr>"
  obtain m fs where a: "AppendLedger st u sess s = Some ((), ?sess m, s\<lparr>faults := fs\<rparr>)"
    and coh: "coherent st B (contents s) h (?sess m)" and dom: "dom (ss_balances sess) \<subseteq> dom m"
    using append_ledger [of s h sess u] Cons.prems by (auto simp del: not_None_eq)
  have keep: "m k \<noteq> None" if "ss_balances sess k \<noteq> None" for k
    using that dom by auto
  have "\<forall>v \<in> set us. CHR ''#'' \<notin> set (lu_Asset v) \<and>
      (lu_BlockHeight v = h \<or> ss_balances (?sess m) (key (lu_Owner v) (lu_Asset v)) \<noteq> None)"
    using Cons.prems(2) keep by (simp del: not_None_eq) blast
  with Cons.IH [of "s\<lparr>faults := fs\<rparr>" "?sess m"] coh a show ?case by simp
qed

end

text \<open>The ids of an event's records do not enter the balances.\<close>

definition strip_id :: "LedgerUpdate \<Rightarrow> LedgerUpdate" where
  "strip_id u = u\<lparr>lu_Id := []\<rparr>"

lemma strip_id_simps [simp]:
  "lu_Owner (strip_id u) = lu_Owner u" "lu_Asset (strip_id u) = lu_Asset u"
  "lu_Amount (strip_id u) = lu_Amount u" "lu_BlockHeight (strip_id u) = lu_BlockHeight u"
  by (simp_all add: strip_id_def)

lemma apply_rows_strip: "apply_rows (map strip_id us) = apply_rows us"
  by (auto simp: apply_rows_def asset_rows_def fun_eq_iff filter_map comp_def)

lemma exec_strip:
  "map strip_id (ledgerRecords (exec_event (v\<lparr>ev_Id := i\<rparr>) h)) = map strip_id (ledgerRecords (exec_event v h))"
  unfolding exec_event_def exec_consensus_unstake_def
  by (simp add: exec_transfer_def exec_withdraw_def exec_stake_def exec_unstake_def exec_unstake_legacy_def
      exec_unstake_delegated_def exec_consensus_stake_def no_records_def opDelegated_def opReleased_def
      strip_id_def Let_def)

lemma dedup_strip:
  "map strip_id (ledgerRecords (exec_event (dedup_id sess v) (ev_BlockHeight (dedup_id sess v)))) =
     map strip_id (ledgerRecords (exec_event v (ev_BlockHeight v)))"
  by (simp add: dedup_id_def Let_def exec_strip)

lemma ExecuteOplog_single [simp]:
  "ledgerRecords (ExecuteOplog [v] st h) = ledgerRecords (exec_event v h)"
  by (simp add: no_records_def Let_def)

lemma ball_strip:
  assumes "map strip_id us = map strip_id vs" "\<forall>v \<in> set vs. P (lu_Owner v) (lu_Asset v) (lu_BlockHeight v)"
  shows "\<forall>u \<in> set us. P (lu_Owner u) (lu_Asset u) (lu_BlockHeight u)"
proof
  fix u assume "u \<in> set us"
  then have "strip_id u \<in> strip_id ` set vs" using assms(1) by (metis image_eqI list.set_map)
  then show "P (lu_Owner u) (lu_Asset u) (lu_BlockHeight u)"
    using assms(2) by (auto; metis strip_id_simps)
qed

lemma session_view_cong [simp]:
  "session_view st B c h (sess\<lparr>ss_balances := m\<rparr>) = session_view st B c h sess"
  "session_view st B c h (sess\<lparr>ss_idCache := i\<rparr>) = session_view st B c h sess"
  "session_view st B c h (sess\<lparr>ss_oplog := l\<rparr>) = session_view st B c h sess"
  by (simp_all add: session_view_def)

lemma coherent_cong [simp]:
  "coherent st B c h (sess\<lparr>ss_idCache := i\<rparr>) = coherent st B c h sess"
  "coherent st B c h (sess\<lparr>ss_oplog := l\<rparr>) = coherent st B c h sess"
  by (simp_all add: coherent_def)

definition refines ::
  "LedgerState \<Rightarrow> BalanceRecord collection \<Rightarrow> uint64 \<Rightarrow> ledgerSession \<Rightarrow> dbs \<Rightarrow> LedgerResult session_result
     \<Rightarrow> string + OpLogEvent \<Rightarrow> bool" where
  "refines st B h sess s res r \<longleftrightarrow> (\<exists>sess' fs. res = Some (result_of r, sess', s\<lparr>faults := fs\<rparr>) \<and>
     coherent st B (contents s) h sess' \<and>
     session_view st B (contents s) h sess' = moved r (session_view st B (contents s) h sess))"

definition rows_ok :: "uint64 \<Rightarrow> string \<Rightarrow> string \<Rightarrow> OpLogEvent \<Rightarrow> bool" where
  "rows_ok h account asset ev \<longleftrightarrow> (\<forall>u \<in> set (ledgerRecords (exec_event ev (ev_BlockHeight ev))).
     CHR ''#'' \<notin> set (lu_Asset u) \<and> (lu_BlockHeight u = h \<or> lu_Owner u = account \<and> lu_Asset u = asset))"

lemma rows_ok_transfer:
  "ev_Asset e \<in> set transferableAssetTypes \<Longrightarrow> ev_BlockHeight e = h \<Longrightarrow> rows_ok h account asset (e\<lparr>ev_Type := ''transfer''\<rparr>)"
  by (simp add: rows_ok_def exec_event_def exec_transfer_def zero_updates asset_names assetTypes_def)

lemma rows_ok_withdraw:
  "CHR ''#'' \<notin> set (wp_Asset w) \<Longrightarrow> rows_ok h (wp_From w) (wp_Asset w) (withdraw_event w dest)"
  by (simp add: rows_ok_def exec_event_def exec_withdraw_def withdraw_event_def zero_updates)

lemma rows_ok_stake:
  "rows_ok h (ev_From e) ''hbd'' (stake_event ''stake'' e)"
  "rows_ok h (ev_From e) ''hbd_savings'' (stake_event ''unstake'' e)"
  by (simp_all add: rows_ok_def exec_event_def exec_stake_def exec_unstake_def stake_event_def zero_updates)

lemma rows_ok_consensus:
  "cp_BlockHeight p = h \<Longrightarrow> rows_ok h account asset (consensus_stake_event p)"
  "cp_BlockHeight p = h \<Longrightarrow> rows_ok h account asset (unstake_event p released)"
  by (auto simp: rows_ok_def exec_event_def exec_consensus_stake_def exec_consensus_unstake_def
      exec_unstake_delegated_def exec_unstake_legacy_def consensus_stake_event_def unstake_event_def
      zero_updates AssetDelegation_def AssetDelegationTotal_def Let_def)

context wired
begin

lemma append_oplog:
  assumes "coherent st B (contents s) h sess"
    and "\<forall>u \<in> set (ledgerRecords (exec_event ev (ev_BlockHeight ev))). CHR ''#'' \<notin> set (lu_Asset u) \<and>
      (lu_BlockHeight u = h \<or> ss_balances sess (key (lu_Owner u) (lu_Asset u)) \<noteq> None)"
  shows "\<exists>sess' fs. AppendOplog st ev sess s = Some ((), sess', s\<lparr>faults := fs\<rparr>) \<and>
    coherent st B (contents s) h sess' \<and>
    session_view st B (contents s) h sess' =
      apply_rows (ledgerRecords (exec_event ev (ev_BlockHeight ev))) (session_view st B (contents s) h sess) \<and>
    ss_oplog sess' = ss_oplog sess @ [dedup_id sess ev]"
proof -
  let ?ev = "dedup_id sess ev"
  let ?rows = "ledgerRecords (exec_event ?ev (ev_BlockHeight ?ev))"
  let ?sess = "sess\<lparr>ss_idCache := (ss_idCache sess)(ev_Id ev := ss_idCache sess (ev_Id ev) + 1)\<rparr>"
  have "\<forall>u \<in> set ?rows. CHR ''#'' \<notin> set (lu_Asset u) \<and>
      (lu_BlockHeight u = h \<or> ss_balances ?sess (key (lu_Owner u) (lu_Asset u)) \<noteq> None)"
    using ball_strip [OF dedup_strip, of _ "\<lambda>owner asset bh. CHR ''#'' \<notin> set asset \<and>
      (bh = h \<or> ss_balances sess (key owner asset) \<noteq> None)"] assms(2) by simp
  with append_ledgers [of s h ?sess ?rows] assms(1) obtain m fs where
    a: "append_ledgers st ?rows ?sess s =
      Some ((), ?sess\<lparr>ss_balances := m, ss_ledgerOps := ss_ledgerOps sess @ ?rows\<rparr>, s\<lparr>faults := fs\<rparr>)"
    and coh: "coherent st B (contents s) h (?sess\<lparr>ss_balances := m, ss_ledgerOps := ss_ledgerOps sess @ ?rows\<rparr>)"
    by auto
  let ?out = "?sess\<lparr>ss_balances := m, ss_ledgerOps := ss_ledgerOps sess @ ?rows\<rparr>\<lparr>ss_oplog := ss_oplog sess @ [?ev]\<rparr>"
  have "AppendOplog st ev sess s = Some ((), ?out, s\<lparr>faults := fs\<rparr>)"
    using a by (simp add: AppendOplog_def Let_def del: ExecuteOplog.simps)
  moreover have "session_view st B (contents s) h ?out =
      apply_rows (ledgerRecords (exec_event ev (ev_BlockHeight ev))) (session_view st B (contents s) h sess)"
    by (simp add: session_view_def apply_rows_append) (metis apply_rows_strip dedup_strip)
  moreover have "coherent st B (contents s) h ?out" using coh by (simp only: coherent_cong)
  ultimately show ?thesis by (intro exI [of _ ?out] exI [of _ fs]) simp
qed

lemma refines_error:
  "coherent st B (contents s) h sess \<Longrightarrow> refines st B h sess s (Some (fail msg, sess, s)) (Inl msg)"
  by (auto simp: refines_def result_of_def moved_def intro: exI [of _ "faults s"])

lemma refines_append:
  assumes "coherent st B (contents s) h sess" "rows_ok h account asset ev"
    "ss_balances sess (key account asset) \<noteq> None"
  shows "refines st B h sess s
    (do {(_, sess, s) \<leftarrow> AppendOplog st ev sess s; Some (success ''success'', sess, s)}) (Inr ev)"
proof -
  have "\<forall>u \<in> set (ledgerRecords (exec_event ev (ev_BlockHeight ev))). CHR ''#'' \<notin> set (lu_Asset u) \<and>
      (lu_BlockHeight u = h \<or> ss_balances sess (key (lu_Owner u) (lu_Asset u)) \<noteq> None)"
    using assms(2,3) by (simp add: rows_ok_def del: not_None_eq) blast
  from append_oplog [OF assms(1) this] show ?thesis
    by (auto simp: refines_def result_of_def moved_def)
qed

text \<open>A read that precedes the rest of an operation changes only the cache.\<close>

lemma refines_read:
  assumes coh: "coherent st B (contents s) h sess" and asset: "CHR ''#'' \<notin> set asset"
    and rest: "\<And>sess' s'. coherent st B (contents s') h sess' \<Longrightarrow> contents s' = contents s \<Longrightarrow>
      session_view st B (contents s) h sess' = session_view st B (contents s) h sess \<Longrightarrow>
      dom (ss_balances sess) \<subseteq> dom (ss_balances sess') \<Longrightarrow>
      ss_balances sess' (key account asset) \<noteq> None \<Longrightarrow>
      refines st B h sess' s' (k (session_view st B (contents s) h sess account asset) sess' s') r"
  shows "refines st B h sess s
    (do {(bal, sess, s) \<leftarrow> session_GetBalance st account h asset sess s; k bal sess s}) r"
proof -
  obtain m fs where m: "session_GetBalance st account h asset sess s =
      Some (session_view st B (contents s) h sess account asset, sess\<lparr>ss_balances := m\<rparr>, s\<lparr>faults := fs\<rparr>)"
    and coh': "coherent st B (contents s) h (sess\<lparr>ss_balances := m\<rparr>)"
    and dom: "dom (ss_balances sess) \<subseteq> dom m" and c: "m (key account asset) \<noteq> None"
    using read_balance [OF coh asset] by blast
  from rest [of "s\<lparr>faults := fs\<rparr>" "sess\<lparr>ss_balances := m\<rparr>"] coh' dom c m show ?thesis
    by (auto simp: refines_def simp del: not_None_eq)
qed

lemma refines_checked:
  assumes "coherent st B (contents s) h sess" "CHR ''#'' \<notin> set asset" "rows_ok h account asset ev"
  shows "refines st B h sess s
    (do {(bal, sess, s) \<leftarrow> session_GetBalance st account h asset sess s;
         if short bal then Some (fail msg, sess, s)
         else do {(_, sess, s) \<leftarrow> AppendOplog st ev sess s; Some (success ''success'', sess, s)}})
    (if short (session_view st B (contents s) h sess account asset) then Inl msg else Inr ev)"
  by (rule refines_read [OF assms(1,2)])
    (simp add: refines_error refines_append [OF _ assms(3)] del: not_None_eq)

lemma transfer_refines:
  assumes coh: "coherent st B (contents s) h sess" and h: "ev_BlockHeight e = h"
  shows "refines st B h sess s (ExecuteTransfer st e options sess s)
    (transfer_outcome e options (session_view st B (contents s) h sess))"
proof (cases "0 < sint (ev_Amount e) \<and> ev_To e \<noteq> ev_From e \<and> \<not> HasPrefix (ev_To e) ''system:'' \<and>
    ev_Asset e \<in> set transferableAssetTypes")
  case True
  then have a: "CHR ''#'' \<notin> set (ev_Asset e)" by (simp add: assetTypes_def asset_names)
  show ?thesis
    using refines_checked [OF coh a rows_ok_transfer [OF _ h],
        of "ev_From e" "\<lambda>bal. sint (bal - exclusion_of options) < sint (ev_Amount e)" "''insufficient balance''"] True h
    by (simp add: ExecuteTransfer_def transfer_outcome_def)
next
  case False
  then show ?thesis
    by (auto simp: ExecuteTransfer_def transfer_outcome_def refines_error [OF coh])
qed

lemma withdraw_refines:
  assumes coh: "coherent st B (contents s) h sess" and h: "wp_BlockHeight w = h"
  shows "refines st B h sess s (Withdraw st w sess s)
    (withdraw_outcome w (session_view st B (contents s) h sess))"
proof (cases "0 < sint (wp_Amount w) \<and> wp_Asset w \<in> {''hive'', ''hbd'', ''eth'', ''usdc''}")
  case True
  then have a: "CHR ''#'' \<notin> set (wp_Asset w)" by auto
  show ?thesis
  proof (cases "withdraw_dest (wp_Asset w \<in> {''hive'', ''hbd''}) (wp_To w)")
    case (Inl msg)
    with True show ?thesis
      using refines_error [OF coh] by (simp add: Withdraw_def withdraw_outcome_def Let_def) auto
  next
    case (Inr dest)
    with True h refines_checked [OF coh a rows_ok_withdraw [OF a],
        where short = "\<lambda>bal. sint bal < sint (wp_Amount w)" and msg = "''insufficient balance''" and dest1 = dest]
    show ?thesis by (simp add: Withdraw_def withdraw_outcome_def Let_def) auto
  qed
next
  case False
  then show ?thesis
    by (auto simp: Withdraw_def withdraw_outcome_def Let_def refines_error [OF coh])
qed

lemma stake_refines:
  assumes coh: "coherent st B (contents s) h sess" and h: "ev_BlockHeight (so_Event p) = h"
  shows "refines st B h sess s (Stake st p options sess s)
    (stake_outcome p options (session_view st B (contents s) h sess))"
  using refines_checked [OF coh _ rows_ok_stake(1),
      where short = "\<lambda>bal. sint (bal - exclusion_of options) < sint (ev_Amount (so_Event p))"
        and msg = "''insufficient balance''" and e1 = "so_Event p"] h
  by (auto simp: Stake_def stake_outcome_def Let_def refines_error [OF coh])

lemma unstake_refines:
  assumes coh: "coherent st B (contents s) h sess" and h: "ev_BlockHeight (so_Event p) = h"
  shows "refines st B h sess s (Unstake st p sess s)
    (unstake_outcome p (session_view st B (contents s) h sess))"
  using refines_checked [OF coh _ rows_ok_stake(2),
      where short = "\<lambda>bal. sint bal < sint (ev_Amount (so_Event p))"
        and msg = "''insufficient balance''" and e1 = "so_Event p"] h
  by (auto simp: Unstake_def unstake_outcome_def Let_def refines_error [OF coh])

lemma consensus_stake_refines:
  assumes coh: "coherent st B (contents s) h sess" and h: "cp_BlockHeight p = h"
  shows "refines st B h sess s (ConsensusStake st p sess s)
    (consensus_stake_outcome p (session_view st B (contents s) h sess))"
  using refines_checked [OF coh _ rows_ok_consensus(1) [OF h],
      where asset = "''hive''" and account = "cp_From p" and short = "\<lambda>bal. sint bal < sint (cp_Amount p)"
        and msg = "''insufficient balance''"] h
  by (auto simp: ConsensusStake_def consensus_stake_outcome_def Let_def refines_error [OF coh])

lemma release_reads:
  assumes "0 < sint gross"
  shows "do {(released, sess, s) \<leftarrow> slashAdjustedRelease st gross to h sess s; k released sess s} =
    do {(total, sess, s) \<leftarrow> session_GetBalance st to h AssetDelegationTotal sess s;
        (bond, sess, s) \<leftarrow> session_GetBalance st to h ''hive_consensus'' sess s;
        k (pro_rata gross bond total) sess s}"
  using assms
  by (simp add: slashAdjustedRelease_def pro_rata_def split: Option.bind_split prod.split)

lemma delegated_unstake_refines:
  assumes coh: "coherent st B (contents s) h sess" and h: "cp_BlockHeight p = h"
    and p: "0 < sint (cp_Amount p)" "cp_Delegated p"
  shows "refines st B h sess s (ConsensusUnstake st p sess s)
    (consensus_unstake_outcome p (session_view st B (contents s) h sess))"
proof -
  let ?edge = "DelegationEdgeKey (cp_From p) (cp_To p)" and ?to = "cp_To p"
  have asset: "CHR ''#'' \<notin> set AssetDelegation" "CHR ''#'' \<notin> set AssetDelegationTotal"
    "CHR ''#'' \<notin> set ''hive_consensus''"
    by (simp_all add: AssetDelegation_def AssetDelegationTotal_def)
  have append: "refines st B h se s'
      (do {(_, se, s) \<leftarrow> AppendOplog st (unstake_event p r) se s'; Some (success ''success'', se, s)})
      (Inr (unstake_event p r))"
    if "coherent st B (contents s') h se" "ss_balances se (key ?edge AssetDelegation) \<noteq> None" for se s' r
    by (rule refines_append [OF that(1) rows_ok_consensus(2) [OF h] that(2)])
  have "refines st B h sess s
      (do {(edge, sess, s) \<leftarrow> session_GetBalance st ?edge h AssetDelegation sess s;
           if sint edge < sint (cp_Amount p) then Some (fail ''amount exceeds delegated stake'', sess, s)
           else do {(total, sess, s) \<leftarrow> session_GetBalance st ?to h AssetDelegationTotal sess s;
             (bond, sess, s) \<leftarrow> session_GetBalance st ?to h ''hive_consensus'' sess s;
             (_, sess, s) \<leftarrow> AppendOplog st (unstake_event p (pro_rata (cp_Amount p) bond total)) sess s;
             Some (success ''success'', sess, s)}})
      (consensus_unstake_outcome p (session_view st B (contents s) h sess))"
  proof (rule refines_read [OF coh asset(1)], goal_cases)
    case (1 se1 s1)
    show ?case
    proof (cases "sint (session_view st B (contents s) h sess ?edge AssetDelegation) < sint (cp_Amount p)")
      case True
      with p 1 show ?thesis by (simp add: consensus_unstake_outcome_def refines_error)
    next
      case False
      have "refines st B h se1 s1
          (do {(total, sess, s) \<leftarrow> session_GetBalance st ?to h AssetDelegationTotal se1 s1;
             (bond, sess, s) \<leftarrow> session_GetBalance st ?to h ''hive_consensus'' sess s;
             (_, sess, s) \<leftarrow> AppendOplog st (unstake_event p (pro_rata (cp_Amount p) bond total)) sess s;
             Some (success ''success'', sess, s)})
          (Inr (unstake_event p (pro_rata (cp_Amount p) (session_view st B (contents s) h sess ?to ''hive_consensus'')
             (session_view st B (contents s) h sess ?to AssetDelegationTotal))))"
        apply (rule refines_read [OF 1(1) asset(2)])
        apply (rule refines_read [OF _ asset(3)], assumption)
        using 1 append by (auto simp: subset_iff domIff simp del: not_None_eq)
      with False p show ?thesis by (simp add: consensus_unstake_outcome_def)
    qed
  qed
  then show ?thesis
    using p h by (simp add: ConsensusUnstake_def release_reads cong: if_cong)
qed

lemma consensus_unstake_refines:
  assumes coh: "coherent st B (contents s) h sess" and h: "cp_BlockHeight p = h"
  shows "refines st B h sess s (ConsensusUnstake st p sess s)
    (consensus_unstake_outcome p (session_view st B (contents s) h sess))"
proof (cases "0 < sint (cp_Amount p) \<and> cp_Delegated p")
  case True
  then show ?thesis using delegated_unstake_refines [OF coh h] by blast
next
  case False
  then show ?thesis
    using refines_checked [OF coh _ rows_ok_consensus(2) [OF h],
        where asset = "''hive_consensus''" and account = "cp_From p" and released1 = "cp_Amount p"
          and short = "\<lambda>bal. sint bal < sint (cp_Amount p)" and msg = "''insufficient balance''"] h
    by (auto simp: ConsensusUnstake_def consensus_unstake_outcome_def refines_error [OF coh])
qed

lemma run_op_refines:
  assumes "coherent st B (contents s) h sess" "op_height op = h"
  shows "refines st B h sess s (run_op st op sess s) (outcome op (session_view st B (contents s) h sess))"
  using assms
  by (cases op) (simp_all add: transfer_refines withdraw_refines stake_refines unstake_refines
      consensus_stake_refines consensus_unstake_refines)

lemma run_ops_refine:
  assumes "coherent st B (contents s) h sess" "\<forall>op \<in> set ops. op_height op = h"
  shows "\<exists>sess' fs. run_ops st ops sess s =
      Some (fst (spec_ops ops (session_view st B (contents s) h sess)), sess', s\<lparr>faults := fs\<rparr>) \<and>
    coherent st B (contents s) h sess' \<and>
    session_view st B (contents s) h sess' = snd (spec_ops ops (session_view st B (contents s) h sess))"
  using assms
proof (induction ops arbitrary: sess s)
  case Nil
  then show ?case by (auto intro: exI [of _ "faults s"])
next
  case (Cons op ops)
  let ?bal = "session_view st B (contents s) h sess"
  from run_op_refines [OF Cons.prems(1), of op] Cons.prems(2) obtain sess1 fs1 where
    1: "run_op st op sess s = Some (result_of (outcome op ?bal), sess1, s\<lparr>faults := fs1\<rparr>)"
    and coh: "coherent st B (contents s) h sess1"
    and v: "session_view st B (contents s) h sess1 = moved (outcome op ?bal) ?bal"
    by (auto simp: refines_def)
  from Cons.IH [of "s\<lparr>faults := fs1\<rparr>" sess1] coh Cons.prems(2) v 1 show ?case
    by (auto simp: case_prod_beta Let_def)
qed

end

interpretation empty_state: wired list_collection
    "NewEmptyState (Some list_collection) (Some list_collection) (Some list_collection)"
    list_collection list_collection
  by unfold_locales (simp_all add: NewEmptyState_def)

section \<open>Commit\<close>

lemma append_virtual_eq: "append_virtual us vl account = vl account @ filter (\<lambda>u. lu_Owner u = account) us"
  by (induction us arbitrary: vl) auto

lemma committed_view: "state_view (fst (snd (Done st sess))) B c h = session_view st B c h sess"
  by (simp add: Done_def state_view_def session_view_def apply_rows_def append_virtual_eq fun_eq_iff add.assoc)

lemma fresh_coherent: "coherent st B c h (NewEmptySession sh)"
  by (simp add: coherent_def NewEmptySession_def)

lemma fresh_view: "session_view st B c h (NewEmptySession sh) = state_view st B c h"
  by (simp add: session_view_def NewEmptySession_def)

lemma Done_handles:
  "ls_LedgerDb (fst (snd (Done st sess))) = ls_LedgerDb st" "ls_BalanceDb (fst (snd (Done st sess))) = ls_BalanceDb st"
  by (simp_all add: Done_def)

section \<open>Savepoints\<close>

text \<open>Every operation only appends to the log and to the updates.\<close>

definition extends :: "ledgerSession \<Rightarrow> ledgerSession \<Rightarrow> bool" where
  "extends sess sess' \<longleftrightarrow> prefix (ss_oplog sess) (ss_oplog sess') \<and>
     prefix (ss_ledgerOps sess) (ss_ledgerOps sess') \<and> ss_StartHeight sess' = ss_StartHeight sess"

definition grows :: "ledgerSession \<Rightarrow> 'a session_result \<Rightarrow> bool" where
  "grows sess res \<longleftrightarrow> (\<forall>v sess' s'. res = Some (v, sess', s') \<longrightarrow> extends sess sess')"

lemma extends_refl [simp]: "extends sess sess"
  by (simp add: extends_def)

lemma extends_trans: "extends a b \<Longrightarrow> extends b c \<Longrightarrow> extends a c"
  by (auto simp: extends_def intro: prefix_order.trans)

lemma grows_Some [simp]: "grows sess (Some (v, sess', s')) \<longleftrightarrow> extends sess sess'"
  by (simp add: grows_def)

lemma grows_bind:
  "grows sess res \<Longrightarrow> (\<And>v sess' s'. grows sess' (k v sess' s')) \<Longrightarrow>
     grows sess (do {(v, sess, s) \<leftarrow> res; k v sess s})"
  unfolding grows_def by (auto simp: bind_eq_Some_conv) (meson extends_trans)

lemma grows_GetBalance: "grows sess (session_GetBalance st account h asset sess s)"
  by (auto simp: grows_def session_GetBalance_def setBalance_def extends_def bind_eq_Some_conv
      split: option.splits)

lemma grows_AppendLedger: "grows sess (AppendLedger st u sess s)"
  using grows_GetBalance [of sess st "lu_Owner u" "lu_BlockHeight u" "lu_Asset u" s]
  by (fastforce simp: grows_def AppendLedger_def setBalance_def extends_def bind_eq_Some_conv Let_def
      intro: prefix_prefix)

lemma grows_append_ledgers: "grows sess (append_ledgers st us sess s)"
  by (induction us arbitrary: sess s) (auto intro!: grows_bind grows_AppendLedger)

lemma grows_AppendOplog: "grows sess (AppendOplog st ev sess s)"
proof -
  have "extends sess sess'" if "extends (sess\<lparr>ss_idCache := i\<rparr>) sess'" for sess' i
    using that by (simp add: extends_def)
  then show ?thesis
    using grows_append_ledgers
    by (fastforce simp: grows_def AppendOplog_def extends_def bind_eq_Some_conv Let_def intro: prefix_prefix)
qed

lemmas grows_intros = grows_bind grows_GetBalance grows_AppendOplog

lemma grows_release: "grows sess (slashAdjustedRelease st gross to h sess s)"
  by (auto simp: slashAdjustedRelease_def intro!: grows_intros)

lemma grows_run_op: "grows sess (run_op st op sess s)"
  by (cases op)
    (auto simp: ExecuteTransfer_def Withdraw_def Stake_def Unstake_def ConsensusStake_def ConsensusUnstake_def
      Let_def split: sum.split intro!: grows_intros grows_release)

lemma grows_run_ops: "grows sess (run_ops st ops sess s)"
  by (induction ops arbitrary: sess s) (auto intro!: grows_bind grows_run_op)

lemma restore_exact: "extends sess sess' \<Longrightarrow> RestoreSavepoint sess' (Savepoint sess) = sess"
  by (auto simp: RestoreSavepoint_def Savepoint_def extends_def prefix_def)

section \<open>No overdraft\<close>

fun debit :: "session_op \<Rightarrow> string \<times> string \<times> int64" where
  "debit (OpTransfer e _) = (ev_From e, ev_Asset e, ev_Amount e)"
| "debit (OpWithdraw w) = (wp_From w, wp_Asset w, wp_Amount w)"
| "debit (OpStake p _) = (ev_From (so_Event p), ''hbd'', ev_Amount (so_Event p))"
| "debit (OpUnstake p) = (ev_From (so_Event p), ''hbd_savings'', ev_Amount (so_Event p))"
| "debit (OpConsensusStake p) = (cp_From p, ''hive'', cp_Amount p)"
| "debit (OpConsensusUnstake p) =
     (if cp_Delegated p then (DelegationEdgeKey (cp_From p) (cp_To p), AssetDelegation, cp_Amount p)
      else (cp_From p, ''hive_consensus'', cp_Amount p))"

fun op_exclusion :: "session_op \<Rightarrow> int64" where
  "op_exclusion (OpTransfer _ options) = exclusion_of options"
| "op_exclusion (OpStake _ options) = exclusion_of options"
| "op_exclusion _ = 0"

lemma unstake_event_params [simp]:
  "opDelegated (unstake_event p r) = cp_Delegated p"
  "cp_Delegated p \<Longrightarrow> opReleased (unstake_event p r) d = r"
  "opDelegated (consensus_stake_event p) = cp_Delegated p"
  by (simp_all add: opDelegated_def opReleased_def unstake_event_def consensus_stake_event_def zero_updates)

lemma consensus_events [simp]:
  "ev_Type (unstake_event p r) = ''consensus_unstake''" "ev_From (unstake_event p r) = cp_From p"
  "ev_To (unstake_event p r) = cp_To p" "ev_Amount (unstake_event p r) = cp_Amount p"
  "ev_Type (consensus_stake_event p) = ''consensus_stake''" "ev_From (consensus_stake_event p) = cp_From p"
  "ev_To (consensus_stake_event p) = cp_To p" "ev_Amount (consensus_stake_event p) = cp_Amount p"
  by (simp_all add: unstake_event_def consensus_stake_event_def zero_updates)

lemma sint_exclusion:
  assumes "0 \<le> sint (b :: int64)" "0 \<le> sint (x :: int64)" "\<not> sint (b - x) < sint a"
  shows "sint a \<le> sint b"
proof -
  have "fits_int64 (sint b - sint x)"
    using assms(1,2) sint_bounds(1) [of b] sint_bounds(2) [of b] sint_bounds(2) [of x]
    by (simp add: fits_int64_def i64_min_def i64_max_def)
  then have "sint (b - x) = sint b - sint x" by (rule sint_diff_fits)
  with assms show ?thesis by simp
qed

lemma outcome_funds:
  assumes "outcome op bal = Inr e" "debit op = (account, asset, amount)"
    and "0 \<le> sint (bal account asset)" "0 \<le> sint (op_exclusion op)"
  shows "0 < sint amount \<and> sint amount \<le> sint (bal account asset)"
  using assms
  by (cases op)
    (auto simp: transfer_outcome_def withdraw_outcome_def stake_outcome_def unstake_outcome_def
      consensus_stake_outcome_def consensus_unstake_outcome_def Let_def
      split: if_splits sum.splits dest: sint_exclusion [rotated 2])

lemmas move_simps = moved_def apply_rows_def asset_rows_def exec_event_def exec_transfer_def exec_withdraw_def
  exec_stake_def exec_unstake_def exec_consensus_stake_def exec_consensus_unstake_def
  exec_unstake_delegated_def exec_unstake_legacy_def AssetDelegation_def AssetDelegationTotal_def zero_updates

lemma outcome_debits:
  assumes "outcome op bal = Inr e" "debit op = (account, asset, amount)"
  shows "moved (Inr e) bal account asset = bal account asset - amount"
proof (cases op)
  case (OpTransfer v options)
  then have e: "e = v\<lparr>ev_Type := ''transfer''\<rparr>" "ev_To v \<noteq> ev_From v"
    using assms(1) by (auto simp: transfer_outcome_def split: if_splits)
  then show ?thesis using assms(2) OpTransfer by (auto simp: move_simps)
next
  case (OpWithdraw w)
  then obtain dest where "e = withdraw_event w dest"
    using assms(1) by (auto simp: withdraw_outcome_def Let_def split: if_splits sum.splits)
  then show ?thesis using assms(2) OpWithdraw by (auto simp: move_simps withdraw_event_def)
next
  case (OpStake p options)
  then have "e = stake_event ''stake'' (so_Event p)"
    using assms(1) by (auto simp: stake_outcome_def Let_def split: if_splits)
  then show ?thesis using assms(2) OpStake by (auto simp: move_simps stake_event_def)
next
  case (OpUnstake p)
  then have "e = stake_event ''unstake'' (so_Event p)"
    using assms(1) by (auto simp: unstake_outcome_def Let_def split: if_splits)
  then show ?thesis using assms(2) OpUnstake by (auto simp: move_simps stake_event_def)
next
  case (OpConsensusStake p)
  then have "e = consensus_stake_event p"
    using assms(1) by (auto simp: consensus_stake_outcome_def split: if_splits)
  then show ?thesis using assms(2) OpConsensusStake by (auto simp: move_simps)
next
  case (OpConsensusUnstake p)
  then obtain r where "e = unstake_event p r"
    using assms(1) by (auto simp: consensus_unstake_outcome_def split: if_splits)
  then show ?thesis using assms(2) OpConsensusUnstake by (auto simp: move_simps split: if_splits)
qed

section \<open>Sharing a slash\<close>

lemma pro_rata_slashed:
  assumes "0 < sint gross" "0 < sint bond" "sint bond < sint tot" "sint gross \<le> sint tot"
  shows "sint (pro_rata gross bond tot) = sint gross * sint bond div sint tot"
proof -
  let ?q = "sint gross * sint bond div sint tot"
  have "0 \<le> ?q" using assms by (simp add: pos_imp_zdiv_nonneg_iff)
  moreover have "?q \<le> sint gross"
    using quo_mult_le [of "sint gross" "sint bond" "sint tot"] assms by simp
  ultimately have "fits_int64 ?q"
    using sint_bounds [of gross] by (simp add: fits_int64_def i64_min_def i64_max_def)
  with assms show ?thesis by (simp add: pro_rata_def sint_of_fits)
qed

lemma pro_rata_fair:
  assumes "0 < sint gross" "sint gross \<le> sint tot" "0 \<le> sint bond"
  shows "0 \<le> sint (pro_rata gross bond tot) \<and> sint (pro_rata gross bond tot) \<le> sint gross \<and>
    sint (pro_rata gross bond tot) \<le> sint bond \<and>
    (if sint bond < sint tot
     then sint bond * (sint tot - sint gross) \<le> (sint bond - sint (pro_rata gross bond tot)) * sint tot \<and>
       (sint bond - sint (pro_rata gross bond tot)) * sint tot < sint bond * (sint tot - sint gross) + sint tot
     else pro_rata gross bond tot = gross)"
proof (cases "0 < sint bond \<and> sint bond < sint tot")
  case True
  let ?q = "sint gross * sint bond div sint tot"
  have q: "sint (pro_rata gross bond tot) = ?q" using True assms by (intro pro_rata_slashed) auto
  have tot: "0 < sint tot" using True by simp
  have "?q * sint tot \<le> sint gross * sint bond" "sint gross * sint bond < ?q * sint tot + sint tot"
    using tot minus_mod_eq_div_mult [of "sint gross * sint bond" "sint tot"]
      pos_mod_bound [OF tot, of "sint gross * sint bond"] pos_mod_sign [OF tot, of "sint gross * sint bond"]
    by linarith+
  moreover have "0 \<le> ?q" using True assms tot by (simp add: pos_imp_zdiv_nonneg_iff)
  moreover have "?q \<le> sint gross" "?q \<le> sint bond"
    using quo_mult_le [of "sint gross" "sint bond" "sint tot"] quo_mult_le [of "sint bond" "sint gross" "sint tot"]
      True assms by (simp_all add: mult.commute)
  ultimately show ?thesis using True q by (simp add: algebra_simps)
next
  case False
  then show ?thesis using assms by (auto simp: pro_rata_def)
qed

context wired
begin

lemma release_returns:
  assumes coh: "coherent st B (contents s) h sess" and gross: "0 < sint gross"
  shows "\<exists>sess' s'. slashAdjustedRelease st gross to h sess s =
    Some (pro_rata gross (session_view st B (contents s) h sess to ''hive_consensus'')
      (session_view st B (contents s) h sess to AssetDelegationTotal), sess', s')"
proof -
  have a: "CHR ''#'' \<notin> set AssetDelegationTotal" "CHR ''#'' \<notin> set ''hive_consensus''"
    by (simp_all add: AssetDelegationTotal_def)
  obtain m1 f1 where 1: "session_GetBalance st to h AssetDelegationTotal sess s =
      Some (session_view st B (contents s) h sess to AssetDelegationTotal, sess\<lparr>ss_balances := m1\<rparr>, s\<lparr>faults := f1\<rparr>)"
    and coh1: "coherent st B (contents s) h (sess\<lparr>ss_balances := m1\<rparr>)"
    using read_balance [OF coh a(1)] by blast
  obtain m2 f2 where "session_GetBalance st to h ''hive_consensus'' (sess\<lparr>ss_balances := m1\<rparr>) (s\<lparr>faults := f1\<rparr>) =
      Some (session_view st B (contents s) h sess to ''hive_consensus'', sess\<lparr>ss_balances := m2\<rparr>, s\<lparr>faults := f2\<rparr>)"
    using read_balance [of "s\<lparr>faults := f1\<rparr>", OF _ a(2)] coh1 by fastforce
  with 1 gross show ?thesis by (simp add: slashAdjustedRelease_def pro_rata_def)
qed

end

section \<open>Properties\<close>

text \<open>
  C1. The session implements its abstract specification: on a state with its database handles set,
  any sequence of operations at one block height, whatever database faults occur, returns, gives
  the results \<open>spec_ops\<close> computes on plain balances, and after \<open>Done\<close> the state shows for every
  account and asset exactly the balance the specification ends with.
\<close>

theorem session_implements_spec:
  assumes "ledger_collection L" "ls_LedgerDb st = Some L" "ls_ActionDb st = Some A" "ls_BalanceDb st = Some B"
    and "\<forall>op \<in> set ops. op_height op = h"
  shows "\<exists>sess' s'. run_ops st ops (NewEmptySession startHeight) s =
      Some (fst (spec_ops ops (state_view st B (contents s) h)), sess', s') \<and>
    (\<forall>account asset. \<exists>fs. SnapshotForAccount (fst (snd (Done st sess'))) account h asset s' =
      Some (snd (spec_ops ops (state_view st B (contents s) h)) account asset, s'\<lparr>faults := fs\<rparr>))"
proof -
  have w: "wired L st A B"
    by (rule wired.intro [OF assms(1)]) (simp add: wired_axioms_def assms(2-4))
  obtain sess' fs where run: "run_ops st ops (NewEmptySession startHeight) s =
      Some (fst (spec_ops ops (state_view st B (contents s) h)), sess', s\<lparr>faults := fs\<rparr>)"
    and view: "session_view st B (contents s) h sess' = snd (spec_ops ops (state_view st B (contents s) h))"
    using wired.run_ops_refine [OF w, of s h "NewEmptySession startHeight" ops] fresh_coherent assms(5)
    by (auto simp: fresh_view)
  have "\<exists>fs'. SnapshotForAccount (fst (snd (Done st sess'))) account h asset (s\<lparr>faults := fs\<rparr>) =
      Some (snd (spec_ops ops (state_view st B (contents s) h)) account asset, s\<lparr>faults := fs'\<rparr>)" for account asset
    using ledger_collection.Snapshot_reads [OF assms(1), of "fst (snd (Done st sess'))" B account h asset
        "s\<lparr>faults := fs\<rparr>"] assms(2,4) committed_view [of st sess' B "contents s" h] view
    by (auto simp: Done_handles state_view_def fun_eq_iff)
  then show ?thesis using run by (intro exI [of _ sess'] exI [of _ "s\<lparr>faults := fs\<rparr>"]) simp
qed

definition example_state :: LedgerState where
  "example_state = NewEmptyState (Some list_collection) (Some list_collection) (Some list_collection)"

definition pay :: "string \<Rightarrow> string \<Rightarrow> string \<Rightarrow> int64 \<Rightarrow> session_op" where
  "pay i from to amt = OpTransfer (OpLogEvent_zero\<lparr>ev_Id := i, ev_From := from, ev_To := to,
     ev_Amount := amt, ev_Asset := ''hbd'', ev_BlockHeight := 20\<rparr>) []"

definition example_ops :: "session_op list" where
  "example_ops = [pay ''t1'' ''hive:alice'' ''hive:bob'' 50, pay ''t2'' ''hive:alice'' ''hive:bob'' 30]"

lemma example_handles:
  "ls_LedgerDb example_state = Some list_collection" "ls_ActionDb example_state = Some list_collection"
  "ls_BalanceDb example_state = Some list_collection" "\<forall>op \<in> set example_ops. op_height op = 20"
  by (simp_all add: example_state_def NewEmptyState_def example_ops_def pay_def)

lemma example_view:
  "state_view example_state list_collection example_dbs 20 ''hive:alice'' ''hbd'' = 70"
  by (simp add: state_view_def example_state_def NewEmptyState_def asset_rows_def balance_of_def
      newest_snapshot_def list_collection_def sort_by_def example_dbs_def ledger_row_def zero_records
      balance_query_def newest_balance_def assetTypes_def transferableAssetTypes_def AssetDelegation_def
      AssetDelegationTotal_def Let_def snapshot_base_def record_or_zero_def record_height_def net_rows_def
      counted_def IsProtocolMetaLedgerType_def ledger_types)

lemma example_spec:
  "fst (spec_ops example_ops (state_view example_state list_collection example_dbs 20)) =
     [success ''success'', fail ''insufficient balance'']"
  "snd (spec_ops example_ops (state_view example_state list_collection example_dbs 20)) ''hive:alice'' ''hbd'' = 20"
  using example_view
  by (simp_all add: example_ops_def pay_def transfer_outcome_def zero_updates HasPrefix_def
      transferableAssetTypes_def exclusion_of_def result_of_def moved_def apply_rows_def asset_rows_def
      exec_event_def exec_transfer_def Let_def)

theorem session_implements_spec_witness:
  "\<exists>sess' s'. run_ops example_state example_ops (NewEmptySession 20)
      \<lparr>contents = example_dbs, faults = [ReplyLost, RequestLost]\<rparr> =
      Some ([success ''success'', fail ''insufficient balance''], sess', s') \<and>
    (\<exists>fs. SnapshotForAccount (fst (snd (Done example_state sess'))) ''hive:alice'' 20 ''hbd'' s' =
      Some (20, s'\<lparr>faults := fs\<rparr>))"
proof -
  let ?s = "\<lparr>contents = example_dbs, faults = [ReplyLost, RequestLost]\<rparr>"
  from session_implements_spec [OF list_ledger.ledger_collection_axioms example_handles, of 20 ?s]
  obtain sess' s' where
    "run_ops example_state example_ops (NewEmptySession 20) ?s =
      Some ([success ''success'', fail ''insufficient balance''], sess', s')"
    "\<forall>account asset. \<exists>fs. SnapshotForAccount (fst (snd (Done example_state sess'))) account 20 asset s' =
      Some (snd (spec_ops example_ops (state_view example_state list_collection example_dbs 20)) account asset,
        s'\<lparr>faults := fs\<rparr>)"
    by (auto simp: example_spec(1))
  then show ?thesis by (metis example_spec(2))
qed

text \<open>
  C31. A savepoint is exact: restoring it after any sequence of operations, from any session and with
  any results, gives back the session as it was when the savepoint was taken.
\<close>

theorem savepoint_restores_session:
  assumes "run_ops st ops sess s = Some (rs, sess', s')"
  shows "RestoreSavepoint sess' (Savepoint sess) = sess"
  using grows_run_ops [of sess st ops s] assms by (auto simp: grows_def intro: restore_exact)

theorem savepoint_restores_session_witness:
  "\<exists>rs sess' s'. run_ops example_state example_ops (NewEmptySession 20)
      \<lparr>contents = example_dbs, faults = []\<rparr> = Some (rs, sess', s') \<and>
    RestoreSavepoint sess' (Savepoint (NewEmptySession 20)) = NewEmptySession 20"
proof -
  have "\<exists>rs sess' s'. run_ops example_state example_ops (NewEmptySession 20)
      \<lparr>contents = example_dbs, faults = []\<rparr> = Some (rs, sess', s')"
    using empty_state.run_ops_refine [where h = 20 and ops = example_ops and sess = "NewEmptySession 20"
        and s = "\<lparr>contents = example_dbs, faults = []\<rparr>"] fresh_coherent example_handles(4)
    unfolding example_state_def by (blast dest: meta_mp)
  then show ?thesis using savepoint_restores_session by blast
qed

text \<open>
  C3. No overdraft: an operation the session accepts debits a positive amount that the balance it
  checked covers. The debited balance (the sender's, or for a delegated unstake the signer's own
  edge) goes down by exactly that amount, without wrapping around, and does not become negative.
\<close>

theorem accepted_op_covers_debit:
  assumes "ledger_collection L" "ls_LedgerDb st = Some L" "ls_ActionDb st = Some A" "ls_BalanceDb st = Some B"
    and coh: "coherent st B (contents s) h sess" and "op_height op = h"
    and run: "run_op st op sess s = Some (r, sess', s')" "Ok r"
    and d: "debit op = (account, asset, amount)"
    and nonneg: "0 \<le> sint (session_view st B (contents s) h sess account asset)" "0 \<le> sint (op_exclusion op)"
  shows "sint (session_view st B (contents s) h sess' account asset) =
      sint (session_view st B (contents s) h sess account asset) - sint amount \<and>
    0 < sint amount \<and> 0 \<le> sint (session_view st B (contents s) h sess' account asset)"
proof -
  let ?bal = "session_view st B (contents s) h sess"
  have w: "wired L st A B"
    by (rule wired.intro [OF assms(1)]) (simp add: wired_axioms_def assms(2-4))
  from wired.run_op_refines [OF w coh assms(6)] run obtain e where e: "outcome op ?bal = Inr e"
    and v: "session_view st B (contents s) h sess' = moved (Inr e) ?bal"
    by (auto simp: refines_def result_of_def split: sum.splits)
  from outcome_funds [OF e d nonneg] have f: "0 < sint amount" "sint amount \<le> sint (?bal account asset)" by auto
  have "sint (?bal account asset - amount) = sint (?bal account asset) - sint amount"
    by (rule sint_debit) (use f in simp_all)
  with f show ?thesis using v outcome_debits [OF e d] by simp
qed

theorem accepted_op_covers_debit_witness:
  "\<exists>r sess' s'. run_op example_state (pay ''t1'' ''hive:alice'' ''hive:bob'' 50) (NewEmptySession 20)
      \<lparr>contents = example_dbs, faults = [ReplyLost]\<rparr> = Some (r, sess', s') \<and> Ok r \<and>
    sint (session_view example_state list_collection example_dbs 20 sess' ''hive:alice'' ''hbd'') = 20"
proof -
  let ?s = "\<lparr>contents = example_dbs, faults = [ReplyLost]\<rparr>"
  let ?v = "state_view example_state list_collection example_dbs 20"
  have out: "\<exists>e. outcome (pay ''t1'' ''hive:alice'' ''hive:bob'' 50) ?v = Inr e"
    using example_view
    by (simp add: pay_def transfer_outcome_def zero_updates HasPrefix_def transferableAssetTypes_def
        exclusion_of_def)
  have coh: "coherent example_state list_collection (contents ?s) 20 (NewEmptySession 20)"
    by (rule fresh_coherent)
  from empty_state.run_op_refines [folded example_state_def, OF coh,
      of "pay ''t1'' ''hive:alice'' ''hive:bob'' 50"] out
  obtain r sess' s' where run: "run_op example_state (pay ''t1'' ''hive:alice'' ''hive:bob'' 50)
      (NewEmptySession 20) ?s = Some (r, sess', s')" "Ok r"
    by (auto simp: refines_def fresh_view result_of_def pay_def split: sum.splits)
  show ?thesis
    using accepted_op_covers_debit [OF list_ledger.ledger_collection_axioms example_handles(1-3) coh _ run,
        of "''hive:alice''" "''hbd''" 50] run example_view
    by (auto simp: pay_def zero_updates fresh_view exclusion_of_def)
qed

text \<open>
  C30. A slash is shared pro rata: the HIVE released for a delegated unstake of a gross amount that
  the node's gross total covers is at most the gross amount and at most the bond; when the bond is
  below the total, the solvency the others are left with is not lower than before, and by less
  than one unit higher; when it is not, the whole amount is released.
\<close>

theorem release_is_pro_rata:
  assumes "ledger_collection L" "ls_LedgerDb st = Some L" "ls_ActionDb st = Some A" "ls_BalanceDb st = Some B"
    and coh: "coherent st B (contents s) h sess"
    and tot: "tot = sint (session_view st B (contents s) h sess to AssetDelegationTotal)"
    and bond: "bond = sint (session_view st B (contents s) h sess to ''hive_consensus'')"
    and gross: "0 < sint grossAmount" "sint grossAmount \<le> tot" and "0 \<le> bond"
  shows "\<exists>released sess' s'. slashAdjustedRelease st grossAmount to h sess s = Some (released, sess', s') \<and>
    0 \<le> sint released \<and> sint released \<le> sint grossAmount \<and> sint released \<le> bond \<and>
    (if bond < tot
     then bond * (tot - sint grossAmount) \<le> (bond - sint released) * tot \<and>
       (bond - sint released) * tot < bond * (tot - sint grossAmount) + tot
     else released = grossAmount)"
proof -
  let ?tot = "session_view st B (contents s) h sess to AssetDelegationTotal"
  let ?bond = "session_view st B (contents s) h sess to ''hive_consensus''"
  have w: "wired L st A B"
    by (rule wired.intro [OF assms(1)]) (simp add: wired_axioms_def assms(2-4))
  have "\<exists>sess' s'. slashAdjustedRelease st grossAmount to h sess s =
      Some (pro_rata grossAmount ?bond ?tot, sess', s')"
    by (rule wired.release_returns [OF w coh gross(1)])
  moreover have "0 \<le> sint (pro_rata grossAmount ?bond ?tot) \<and>
      sint (pro_rata grossAmount ?bond ?tot) \<le> sint grossAmount \<and>
      sint (pro_rata grossAmount ?bond ?tot) \<le> sint ?bond \<and>
      (if sint ?bond < sint ?tot
       then sint ?bond * (sint ?tot - sint grossAmount) \<le> (sint ?bond - sint (pro_rata grossAmount ?bond ?tot)) * sint ?tot \<and>
         (sint ?bond - sint (pro_rata grossAmount ?bond ?tot)) * sint ?tot <
         sint ?bond * (sint ?tot - sint grossAmount) + sint ?tot
       else pro_rata grossAmount ?bond ?tot = grossAmount)"
    using pro_rata_fair [of grossAmount ?tot ?bond] assms(6-10) by simp
  ultimately show ?thesis unfolding tot bond by blast
qed

definition slashed_dbs :: ledger_dbs where
  "slashed_dbs = bond_dbs\<lparr>ledger_c := ledger_c bond_dbs @
     [ledger_row ''s1#total'' ''hive:node'' 2000 ''delegation_total'' ''consensus_stake'' 5]\<rparr>"

lemma slashed_view:
  "session_view example_state list_collection slashed_dbs 20 (NewEmptySession 20) ''hive:node'' AssetDelegationTotal = 2000"
  "session_view example_state list_collection slashed_dbs 20 (NewEmptySession 20) ''hive:node'' ''hive_consensus'' = 1800"
  by (simp_all add: fresh_view state_view_def example_state_def NewEmptyState_def asset_rows_def balance_of_def
      newest_snapshot_def list_collection_def sort_by_def slashed_dbs_def bond_dbs_def ledger_row_def zero_records
      assetTypes_def transferableAssetTypes_def AssetDelegation_def AssetDelegationTotal_def Let_def
      snapshot_base_def record_or_zero_def record_height_def net_rows_def counted_def edge_row_def
      IsProtocolMetaLedgerType_def ledger_types)

theorem release_is_pro_rata_witness:
  "\<exists>released sess' s'. slashAdjustedRelease example_state 1000 ''hive:node'' 20 (NewEmptySession 20)
      \<lparr>contents = slashed_dbs, faults = [RequestLost]\<rparr> = Some (released, sess', s') \<and>
    sint released \<le> 1800 \<and> 1800 * (2000 - 1000) \<le> (1800 - sint released) * 2000 \<and>
    (1800 - sint released) * 2000 < 1800 * (2000 - 1000) + 2000"
proof -
  have coh: "coherent example_state list_collection (contents \<lparr>contents = slashed_dbs, faults = [RequestLost]\<rparr>) 20
      (NewEmptySession 20)" by (rule fresh_coherent)
  show ?thesis
    using release_is_pro_rata [OF list_ledger.ledger_collection_axioms example_handles(1-3) coh refl refl,
        of 1000 "''hive:node''"]
    by (simp add: slashed_view) blast
qed

end
