(* ===== verification/Slash.thy ===== *)
theory Slash
  imports Ledger_State
begin

text \<open>
  Slashing and the insurance reserve (modules/ledger-system/ledger_system.go): the slash of a
  node's consensus bond, the challenge window in which the slashed amount stays pending, its
  promotion to the keyless reserve, the cancellation and the reversal of a slash, payouts from the
  reserve, and the pendulum bucket the node rewards are paid from. Every write is an upsert under a
  deterministic id, retried until it lands; the theory \<open>Slash_Spec\<close> shows what that gives.
\<close>

section \<open>The ledger system\<close>

record ledgerSystem =
  sy_BalanceDb :: "BalanceRecord collection option"
  sy_LedgerDb :: "LedgerRecord collection option"
  sy_ClaimDb :: "ClaimRecord collection option"
  sy_ActionsDb :: "ActionRecord collection option"

type_synonym 'a ledger_call = "('a \<times> dbs) option"

definition DAO_WALLET :: string where
  "DAO_WALLET = ''hive:vsc.dao''"

definition FR_VIRTUAL_ACCOUNT :: string where
  "FR_VIRTUAL_ACCOUNT = ''system:fr_balance''"

definition PendulumNodesHBDBucket :: string where
  "PendulumNodesHBDBucket = ''pendulum:nodes''"

definition ProtocolSlashReserveAccount :: string where
  "ProtocolSlashReserveAccount = ''system:protocol_slash_reserve''"

definition ProtocolSlashPendingBurnAccount :: string where
  "ProtocolSlashPendingBurnAccount = ''system:protocol_slash_burn_pending''"

definition ProtocolSlashFinalizeCursorAccount :: string where
  "ProtocolSlashFinalizeCursorAccount = ''system:protocol_slash_finalize_cursor''"

definition MaxSafetySlashBurnDelayBlocks :: uint64 where
  "MaxSafetySlashBurnDelayBlocks = 3333333"

definition MaxInt64 :: uint64 where
  "MaxInt64 = 9223372036854775807"

definition MaxUint64 :: uint64 where
  "MaxUint64 = - 1"

lemmas slash_accounts = PendulumNodesHBDBucket_def ProtocolSlashReserveAccount_def
  ProtocolSlashPendingBurnAccount_def ProtocolSlashFinalizeCursorAccount_def

definition normalizeHiveConsensusAccount :: "string \<Rightarrow> string" where
  "normalizeHiveConsensusAccount a =
     (let a = TrimSpace a in
      if a = [] then [] else if HasPrefix a ''hive:'' then a else ''hive:'' @ a)"

definition storeLedgerOrFail :: "ledgerSystem \<Rightarrow> LedgerRecord list \<Rightarrow> dbs \<Rightarrow> unit ledger_call" where
  "storeLedgerOrFail ls records s = do {
     L \<leftarrow> sy_LedgerDb ls;
     blockingRetry (StoreLedger L records) s
   }"

section \<open>The pendulum bucket\<close>

definition PendulumBucketBalance ::
  "ledgerSystem \<Rightarrow> string \<Rightarrow> uint64 \<Rightarrow> dbs \<Rightarrow> int64 ledger_call" where
  "PendulumBucketBalance ls bucket blockHeight s =
     (if TrimSpace bucket = [] then Some (0, s)
      else do {
        L \<leftarrow> sy_LedgerDb ls;
        case GetLedgerRange L bucket 0 blockHeight ''hbd'' [] s of
          (Inr (Some records), s) \<Rightarrow> Some (sum_list (map lr_Amount records), s)
        | (_, s) \<Rightarrow> Some (0, s)
      })"

definition distribute_records :: "string \<Rightarrow> int64 \<Rightarrow> string \<Rightarrow> uint64 \<Rightarrow> LedgerRecord list" where
  "distribute_records toAccount amount txID blockHeight =
     [LedgerRecord_zero\<lparr>lr_Id := txID @ ''#distribute_debit#'' @ toAccount, lr_TxId := txID,
        lr_BlockHeight := blockHeight, lr_Amount := - amount, lr_Asset := ''hbd'',
        lr_Owner := PendulumNodesHBDBucket, lr_Type := ''pendulum_distribute''\<rparr>,
      LedgerRecord_zero\<lparr>lr_Id := txID @ ''#distribute_credit#'' @ toAccount, lr_TxId := txID,
        lr_BlockHeight := blockHeight, lr_Amount := amount, lr_Asset := ''hbd'',
        lr_Owner := toAccount, lr_Type := ''pendulum_distribute''\<rparr>]"

definition PendulumDistribute ::
  "ledgerSystem \<Rightarrow> string \<Rightarrow> int64 \<Rightarrow> string \<Rightarrow> uint64 \<Rightarrow> dbs \<Rightarrow> LedgerResult ledger_call" where
  "PendulumDistribute ls toAccount amount txID blockHeight s =
     (if TrimSpace toAccount = [] then Some (fail ''invalid destination'', s)
      else if sint amount \<le> 0 then Some (fail ''invalid amount'', s)
      else if txID = [] then Some (fail ''missing tx id'', s)
      else do {
        (available, s) \<leftarrow> PendulumBucketBalance ls PendulumNodesHBDBucket blockHeight s;
        if sint available < sint amount then Some (fail ''insufficient pendulum nodes bucket balance'', s)
        else do {
          L \<leftarrow> sy_LedgerDb ls;
          case StoreLedger L (distribute_records toAccount amount txID blockHeight) s of
            (Inl e, s) \<Rightarrow> Some (fail ''ledger write failed'', s)
          | (Inr _, s) \<Rightarrow> Some (success ''success'', s)
        }
      })"

section \<open>Slashing a bond\<close>

record SafetySlashConsensusParams =
  sl_Account :: string
  sl_SlashBps :: int64
  sl_TxID :: string
  sl_BlockHeight :: uint64
  sl_EvidenceKind :: string
  sl_BurnDelayBlocks :: uint64

definition slash_base_id :: "SafetySlashConsensusParams \<Rightarrow> string" where
  "slash_base_id p = sl_TxID p @ ''#safety_slash#'' @ sl_EvidenceKind p"

definition slash_debit_id :: "SafetySlashConsensusParams \<Rightarrow> string \<Rightarrow> string" where
  "slash_debit_id p acct = slash_base_id p @ ''#consensus_debit#'' @ acct"

definition companion_id :: "SafetySlashConsensusParams \<Rightarrow> string \<Rightarrow> string" where
  "companion_id p acct = slash_base_id p @
     (if sl_BurnDelayBlocks p \<noteq> 0 then ''#hive_burn_pending#'' else ''#reserve#'') @ acct"

definition companion_owner :: "SafetySlashConsensusParams \<Rightarrow> string" where
  "companion_owner p = (if sl_BurnDelayBlocks p \<noteq> 0 then ProtocolSlashPendingBurnAccount
     else ProtocolSlashReserveAccount)"

text \<open>The closure \<open>rowExists\<close>: a fail-stop look-up by id in the rows of one block.\<close>

definition rowExists ::
  "ledgerSystem \<Rightarrow> uint64 \<Rightarrow> string \<Rightarrow> string \<Rightarrow> string \<Rightarrow> dbs \<Rightarrow> bool ledger_call" where
  "rowExists ls h owner asset i s = do {
     L \<leftarrow> sy_LedgerDb ls;
     blockingRetry (\<lambda>s. and_then (GetLedgerRange L owner h h asset [] s)
       (\<lambda>rows. case rows of None \<Rightarrow> Inl NilResult
                  | Some rows \<Rightarrow> Inr (\<exists>r \<in> set rows. lr_Id r = i))) s
   }"

definition readRecordedDebit ::
  "ledgerSystem \<Rightarrow> uint64 \<Rightarrow> string \<Rightarrow> string \<Rightarrow> dbs \<Rightarrow> int64 ledger_call" where
  "readRecordedDebit ls h acct debitID s = do {
     L \<leftarrow> sy_LedgerDb ls;
     blockingRetry (\<lambda>s. and_then (GetLedgerRange L acct h h ''hive_consensus'' [] s)
       (\<lambda>rows. case rows of None \<Rightarrow> Inl NilResult
                  | Some rows \<Rightarrow>
                      (case find (\<lambda>r. lr_Id r = debitID) rows of
                         None \<Rightarrow> Inl NilResult
                       | Some r \<Rightarrow> Inr (- lr_Amount r)))) s
   }"

text \<open>
  The replay guard: \<open>None\<close> when both legs of the slash are on record, otherwise the amount of a
  half-written slash, or 0.
\<close>

definition replay_guard ::
  "ledgerSystem \<Rightarrow> SafetySlashConsensusParams \<Rightarrow> string \<Rightarrow> dbs \<Rightarrow> int64 option ledger_call" where
  "replay_guard ls p acct s = do {
     (debited, s) \<leftarrow> rowExists ls (sl_BlockHeight p) acct ''hive_consensus'' (slash_debit_id p acct) s;
     if \<not> debited then Some (Some 0, s)
     else do {
       (complete, s) \<leftarrow> rowExists ls (sl_BlockHeight p) (companion_owner p) ''hive'' (companion_id p acct) s;
       if complete then Some (None, s)
       else do {
         (forced, s) \<leftarrow> readRecordedDebit ls (sl_BlockHeight p) acct (slash_debit_id p acct) s;
         Some (Some forced, s)
       }
     }
   }"

definition bondRecord ::
  "ledgerSystem \<Rightarrow> string \<Rightarrow> uint64 \<Rightarrow> dbs \<Rightarrow> BalanceRecord option ledger_call" where
  "bondRecord ls acct height s = do {
     B \<leftarrow> sy_BalanceDb ls;
     blockingLedgerRead (GetBalanceRecord B acct height) s
   }"

definition no_bond :: "BalanceRecord option \<Rightarrow> bool" where
  "no_bond r = (case r of None \<Rightarrow> True | Some b \<Rightarrow> sint (br_HIVE_CONSENSUS b) \<le> 0)"

text \<open>\<open>(bond/10000)*bps + ((bond%10000)*bps)/10000\<close> on \<open>int64\<close>.\<close>

definition slash_fraction :: "int64 \<Rightarrow> int64 \<Rightarrow> int64" where
  "slash_fraction bond bps =
     word_of_int (quo (sint bond) 10000) * bps +
     word_of_int (quo (sint (word_of_int (go_rem (sint bond) 10000) * bps)) 10000)"

definition derive_slash ::
  "ledgerSystem \<Rightarrow> SafetySlashConsensusParams \<Rightarrow> string \<Rightarrow> dbs \<Rightarrow> (string + int64) ledger_call" where
  "derive_slash ls p acct s = do {
     (rec, s) \<leftarrow> bondRecord ls acct (sl_BlockHeight p) s;
     (rec, s) \<leftarrow> (if no_bond rec \<and> 0 < sl_BlockHeight p then bondRecord ls acct (sl_BlockHeight p - 1) s
                 else Some (rec, s));
     if no_bond rec then Some (Inl ''zero consensus bond'', s)
     else do {
       let bond = br_HIVE_CONSENSUS (record_or_zero rec);
       let slashAmt = slash_fraction bond (sl_SlashBps p);
       if sint slashAmt \<le> 0 then Some (Inl ''slash rounds to zero'', s)
       else Some (Inr (if sint slashAmt > sint bond then bond else slashAmt), s)
     }
   }"

definition burn_delay :: "SafetySlashConsensusParams \<Rightarrow> uint64" where
  "burn_delay p = (if sl_BurnDelayBlocks p > MaxSafetySlashBurnDelayBlocks
     then MaxSafetySlashBurnDelayBlocks else sl_BurnDelayBlocks p)"

definition slash_records ::
  "SafetySlashConsensusParams \<Rightarrow> string \<Rightarrow> int64 \<Rightarrow> string + LedgerRecord list" where
  "slash_records p acct slashAmt =
     (let debit = LedgerRecord_zero\<lparr>lr_Id := slash_debit_id p acct, lr_TxId := sl_TxID p,
            lr_BlockHeight := sl_BlockHeight p, lr_Amount := - slashAmt, lr_Asset := ''hive_consensus'',
            lr_Owner := acct, lr_Type := LedgerTypeSafetySlashConsensus\<rparr>;
          residual = LedgerRecord_zero\<lparr>lr_Id := companion_id p acct, lr_TxId := sl_TxID p,
            lr_BlockHeight := sl_BlockHeight p, lr_Amount := slashAmt, lr_Asset := ''hive'',
            lr_Owner := companion_owner p\<rparr>;
          maturity = sl_BlockHeight p + burn_delay p
      in if sint slashAmt \<le> 0 then Inr [debit]
         else if sl_BurnDelayBlocks p = 0
         then Inr [debit, residual\<lparr>lr_Type := LedgerTypeSafetySlashReserve\<rparr>]
         else if maturity < sl_BlockHeight p then Inl ''slash burn maturity overflow''
         else Inr [debit, residual\<lparr>lr_From := FormatUint maturity,
                             lr_Type := LedgerTypeSafetySlashHiveBurnPending\<rparr>])"

definition SafetySlashConsensusBond ::
  "ledgerSystem \<Rightarrow> SafetySlashConsensusParams \<Rightarrow> dbs \<Rightarrow> LedgerResult ledger_call" where
  "SafetySlashConsensusBond ls p s =
     (let acct = normalizeHiveConsensusAccount (sl_Account p) in
      if acct = [] \<or> TrimSpace (sl_TxID p) = [] \<or> TrimSpace (sl_EvidenceKind p) = []
      then Some (fail ''invalid safety slash params'', s)
      else if sint (sl_SlashBps p) \<le> 0 \<or> sint (sl_SlashBps p) > 10000 then Some (fail ''invalid slash bps'', s)
      else if sy_BalanceDb ls = None \<or> sy_LedgerDb ls = None then Some (fail ''ledger not configured'', s)
      else do {
        (guard, s) \<leftarrow> replay_guard ls p acct s;
        case guard of
          None \<Rightarrow> Some (success ''safety slash already recorded'', s)
        | Some forced \<Rightarrow> do {
            (amt, s) \<leftarrow> (if sint forced > 0 then Some (Inr forced, s) else derive_slash ls p acct s);
            case amt of
              Inl msg \<Rightarrow> Some (fail msg, s)
            | Inr slashAmt \<Rightarrow>
                (case slash_records p acct slashAmt of
                   Inl msg \<Rightarrow> Some (fail msg, s)
                 | Inr records \<Rightarrow> do {
                     (_, s) \<leftarrow> storeLedgerOrFail ls records s;
                     Some (success ''success'', s)
                   })
          }
      })"

section \<open>Promotion to the reserve\<close>

text \<open>One round of the loop over the cursor rows: the row of the latest height whose \<open>From\<close> parses.\<close>

definition cursor_step :: "LedgerRecord \<Rightarrow> uint64 \<times> uint64 \<Rightarrow> uint64 \<times> uint64" where
  "cursor_step r acc =
     (let (latestHeight, latestCursor) = acc in
      if lr_BlockHeight r < latestHeight then (latestHeight, latestCursor)
      else case ParseUint (TrimSpace (lr_From r)) of
        None \<Rightarrow> (latestHeight, latestCursor)
      | Some c \<Rightarrow> (lr_BlockHeight r, c))"

definition readSafetySlashFinalizeCursor :: "ledgerSystem \<Rightarrow> dbs \<Rightarrow> uint64 \<times> dbs" where
  "readSafetySlashFinalizeCursor ls s =
     (case sy_LedgerDb ls of
        None \<Rightarrow> (0, s)
      | Some L \<Rightarrow>
          (case GetLedgerRange L ProtocolSlashFinalizeCursorAccount 0 MaxInt64 ''hive''
                  [[LedgerTypeSafetySlashBurnFinalizeCursor]] s of
             (Inr (Some recs), s) \<Rightarrow> (snd (fold cursor_step recs (0, 0)), s)
           | (_, s) \<Rightarrow> (0, s)))"

definition cursor_record :: "uint64 \<Rightarrow> uint64 \<Rightarrow> LedgerRecord" where
  "cursor_record blockHeight scanFrom = LedgerRecord_zero\<lparr>lr_Id := safetySlashFinalizeCursorRowID,
     lr_BlockHeight := blockHeight, lr_Amount := 0, lr_Asset := ''hive'',
     lr_Owner := ProtocolSlashFinalizeCursorAccount, lr_From := FormatUint scanFrom,
     lr_Type := LedgerTypeSafetySlashBurnFinalizeCursor\<rparr>"

definition writeSafetySlashFinalizeCursor ::
  "ledgerSystem \<Rightarrow> uint64 \<Rightarrow> uint64 \<Rightarrow> dbs \<Rightarrow> unit ledger_call" where
  "writeSafetySlashFinalizeCursor ls blockHeight scanFrom s =
     (if sy_LedgerDb ls = None then Some ((), s)
      else storeLedgerOrFail ls [cursor_record blockHeight scanFrom] s)"

definition promotion_records :: "uint64 \<Rightarrow> LedgerRecord \<Rightarrow> LedgerRecord list" where
  "promotion_records blockHeight rec =
     [LedgerRecord_zero\<lparr>lr_Id := lr_Id rec @ ''#pending_release'', lr_TxId := lr_TxId rec,
        lr_BlockHeight := blockHeight, lr_Amount := - lr_Amount rec, lr_Asset := ''hive'',
        lr_Owner := ProtocolSlashPendingBurnAccount, lr_From := lr_From rec,
        lr_Type := LedgerTypeSafetySlashHiveBurnPendingRelease\<rparr>,
      LedgerRecord_zero\<lparr>lr_Id := lr_Id rec @ ''#promoted_to_reserve'', lr_TxId := lr_TxId rec,
        lr_BlockHeight := blockHeight, lr_Amount := lr_Amount rec, lr_Asset := ''hive'',
        lr_Owner := ProtocolSlashReserveAccount, lr_Type := LedgerTypeSafetySlashReserve\<rparr>,
      LedgerRecord_zero\<lparr>lr_Id := lr_Id rec @ ''#finalized_marker'', lr_TxId := lr_TxId rec,
        lr_BlockHeight := blockHeight, lr_Amount := 0, lr_Asset := ''hive'',
        lr_Owner := ProtocolSlashPendingBurnAccount, lr_From := lr_From rec,
        lr_Type := LedgerTypeSafetySlashHiveBurnPendingFinalized\<rparr>]"

text \<open>What the loop does with a pending row: skip it, note it as not yet mature, or promote it.\<close>

datatype maturity = Skip | NotYet | Promote

definition row_maturity :: "uint64 \<Rightarrow> string list \<Rightarrow> LedgerRecord \<Rightarrow> maturity" where
  "row_maturity blockHeight finished rec =
     (if sint (lr_Amount rec) \<le> 0 then Skip
      else if lr_Id rec \<in> set finished then Skip
      else case ParseUint (TrimSpace (lr_From rec)) of
        None \<Rightarrow> Skip
      | Some mat \<Rightarrow> if mat > blockHeight then NotYet else Promote)"

fun finalize_rows ::
  "ledgerSystem \<Rightarrow> uint64 \<Rightarrow> string list \<Rightarrow> LedgerRecord list \<Rightarrow> uint64 \<Rightarrow> dbs \<Rightarrow> uint64 ledger_call" where
  "finalize_rows ls blockHeight finished [] minUnfinalized s = Some (minUnfinalized, s)"
| "finalize_rows ls blockHeight finished (rec # recs) minUnfinalized s =
     (case row_maturity blockHeight finished rec of
        Skip \<Rightarrow> finalize_rows ls blockHeight finished recs minUnfinalized s
      | NotYet \<Rightarrow> finalize_rows ls blockHeight finished recs
          (if lr_BlockHeight rec < minUnfinalized then lr_BlockHeight rec else minUnfinalized) s
      | Promote \<Rightarrow> do {
          (_, s) \<leftarrow> storeLedgerOrFail ls (promotion_records blockHeight rec) s;
          finalize_rows ls blockHeight finished recs minUnfinalized s
        })"

definition finished_ids :: "LedgerRecord list \<Rightarrow> string list" where
  "finished_ids markers = map (\<lambda>m. TrimSuffix (lr_Id m) ''#finalized_marker'')
     (filter (\<lambda>m. HasSuffix (lr_Id m) ''#finalized_marker'') markers)"

text \<open>A fail-stop range read of the pending account; a nil result is no error here.\<close>

definition pending_range ::
  "ledgerSystem \<Rightarrow> uint64 \<Rightarrow> uint64 \<Rightarrow> string \<Rightarrow> dbs \<Rightarrow> LedgerRecord list option ledger_call" where
  "pending_range ls from to type s = do {
     L \<leftarrow> sy_LedgerDb ls;
     blockingLedgerRead (GetLedgerRange L ProtocolSlashPendingBurnAccount from to ''hive'' [[type]]) s
   }"

definition FinalizeMaturedSafetySlashBurns :: "ledgerSystem \<Rightarrow> uint64 \<Rightarrow> dbs \<Rightarrow> unit ledger_call" where
  "FinalizeMaturedSafetySlashBurns ls blockHeight s =
     (if sy_LedgerDb ls = None \<or> blockHeight = 0 then Some ((), s)
      else let (cursor, s) = readSafetySlashFinalizeCursor ls s in
      if cursor > blockHeight then Some ((), s)
      else do {
        (pendingRecs, s) \<leftarrow> pending_range ls cursor blockHeight LedgerTypeSafetySlashHiveBurnPending s;
        case pendingRecs of
          None \<Rightarrow> Some ((), s)
        | Some pending \<Rightarrow> do {
            (finalizedRecs, s) \<leftarrow>
              pending_range ls cursor blockHeight LedgerTypeSafetySlashHiveBurnPendingFinalized s;
            let finished = (case finalizedRecs of None \<Rightarrow> [] | Some ms \<Rightarrow> finished_ids ms);
            (minUnfinalized, s) \<leftarrow> finalize_rows ls blockHeight finished pending MaxUint64 s;
            let sawAny = (pending \<noteq> []);
            let newCursor = (if \<not> sawAny \<or> minUnfinalized = MaxUint64 then blockHeight + 1 else minUnfinalized);
            if newCursor > cursor then writeSafetySlashFinalizeCursor ls blockHeight newCursor s
            else Some ((), s)
          }
      })"

section \<open>Cancelling and reversing a slash\<close>

definition safetySlashBaseID :: "string \<Rightarrow> string \<Rightarrow> string" where
  "safetySlashBaseID txID kind = TrimSpace txID @ ''#safety_slash#'' @ TrimSpace kind"

record CancelPendingSafetySlashBurnParams =
  ca_TxID :: string
  ca_EvidenceKind :: string
  ca_SlashedAccount :: string
  ca_BlockHeight :: uint64

definition cancel_records :: "string \<Rightarrow> uint64 \<Rightarrow> LedgerRecord \<Rightarrow> LedgerRecord list" where
  "cancel_records pendingID blockHeight pendingRec =
     (let base = LedgerRecord_zero\<lparr>lr_TxId := lr_TxId pendingRec, lr_BlockHeight := blockHeight,
            lr_Asset := ''hive'', lr_Owner := ProtocolSlashPendingBurnAccount, lr_From := lr_From pendingRec\<rparr>
      in [base\<lparr>lr_Id := pendingID @ ''#cancel_release'', lr_Amount := - lr_Amount pendingRec,
            lr_Type := LedgerTypeSafetySlashHiveBurnPendingRelease\<rparr>,
          base\<lparr>lr_Id := pendingID @ ''#finalized_marker'', lr_Amount := 0,
            lr_Type := LedgerTypeSafetySlashHiveBurnPendingFinalized\<rparr>,
          base\<lparr>lr_Id := pendingID @ ''#cancelled_marker'', lr_Amount := 0,
            lr_Type := LedgerTypeSafetySlashHiveBurnPendingCancelled\<rparr>])"

definition has_id :: "string \<Rightarrow> LedgerRecord list option \<Rightarrow> bool" where
  "has_id i rows = (case rows of None \<Rightarrow> False | Some rs \<Rightarrow> \<exists>r \<in> set rs. lr_Id r = i)"

definition CancelPendingSafetySlashBurn ::
  "ledgerSystem \<Rightarrow> CancelPendingSafetySlashBurnParams \<Rightarrow> dbs \<Rightarrow> LedgerResult ledger_call" where
  "CancelPendingSafetySlashBurn ls p s =
     (let tx = TrimSpace (ca_TxID p); kind = TrimSpace (ca_EvidenceKind p);
          slashedAcct = normalizeHiveConsensusAccount (ca_SlashedAccount p);
          pendingID = safetySlashBaseID tx kind @ ''#hive_burn_pending#'' @ slashedAcct
      in if tx = [] \<or> kind = [] then Some (fail ''invalid cancel params'', s)
      else if sy_LedgerDb ls = None then Some (fail ''ledger not configured'', s)
      else if slashedAcct = [] then Some (fail ''invalid slashed account'', s)
      else do {
        (allPending, s) \<leftarrow> pending_range ls 0 (ca_BlockHeight p) LedgerTypeSafetySlashHiveBurnPending s;
        case allPending of
          None \<Rightarrow> Some (fail ''no pending burn rows'', s)
        | Some rows \<Rightarrow>
            (case find (\<lambda>r. lr_Id r = pendingID) rows of
               None \<Rightarrow> Some (fail ''pending burn row not found'', s)
             | Some pendingRec \<Rightarrow> do {
                 (cancelled, s) \<leftarrow>
                   pending_range ls 0 (ca_BlockHeight p) LedgerTypeSafetySlashHiveBurnPendingCancelled s;
                 if has_id (pendingID @ ''#cancelled_marker'') cancelled
                 then Some (success ''already cancelled'', s)
                 else do {
                   (finalized, s) \<leftarrow>
                     pending_range ls 0 (ca_BlockHeight p) LedgerTypeSafetySlashHiveBurnPendingFinalized s;
                   if has_id (pendingID @ ''#finalized_marker'') finalized
                   then Some (fail ''pending burn already finalized'', s)
                   else do {
                     (_, s) \<leftarrow> storeLedgerOrFail ls (cancel_records pendingID (ca_BlockHeight p) pendingRec) s;
                     Some (success ''cancelled'', s)
                   }
                 }
               })
      })"

record ReverseSafetySlashConsensusDebitParams =
  rv_TxID :: string
  rv_EvidenceKind :: string
  rv_Account :: string
  rv_Amount :: int64
  rv_BlockHeight :: uint64
  rv_OpInstanceID :: string

definition reverse_id :: "ReverseSafetySlashConsensusDebitParams \<Rightarrow> string" where
  "reverse_id p =
     (let acct = normalizeHiveConsensusAccount (rv_Account p);
          i = safetySlashBaseID (TrimSpace (rv_TxID p)) (TrimSpace (rv_EvidenceKind p)) @ ''#consensus_reverse#'' @ acct;
          op = TrimSpace (rv_OpInstanceID p)
      in if op \<noteq> [] then i @ ''#'' @ op else i)"

definition ReverseSafetySlashConsensusDebit ::
  "ledgerSystem \<Rightarrow> ReverseSafetySlashConsensusDebitParams \<Rightarrow> dbs \<Rightarrow> LedgerResult ledger_call" where
  "ReverseSafetySlashConsensusDebit ls p s =
     (let acct = normalizeHiveConsensusAccount (rv_Account p);
          tx = TrimSpace (rv_TxID p); kind = TrimSpace (rv_EvidenceKind p)
      in if acct = [] \<or> tx = [] \<or> kind = [] then Some (fail ''invalid reverse params'', s)
      else if sint (rv_Amount p) \<le> 0 then Some (fail ''reverse amount must be positive'', s)
      else if sy_LedgerDb ls = None then Some (fail ''ledger not configured'', s)
      else do {
        (_, s) \<leftarrow> storeLedgerOrFail ls [LedgerRecord_zero\<lparr>lr_Id := reverse_id p, lr_TxId := tx,
          lr_BlockHeight := rv_BlockHeight p, lr_Amount := rv_Amount p, lr_Asset := ''hive_consensus'',
          lr_Owner := acct, lr_Type := LedgerTypeSafetySlashConsensusReverse\<rparr>] s;
        Some (success ''reverse credit recorded'', s)
      })"

section \<open>Payouts from the reserve\<close>

definition reserveAvailable :: "ledgerSystem \<Rightarrow> string \<Rightarrow> dbs \<Rightarrow> int64 ledger_call" where
  "reserveAvailable ls excludeDebitID s =
     (case sy_LedgerDb ls of
        None \<Rightarrow> Some (0, s)
      | Some L \<Rightarrow> do {
          (recs, s) \<leftarrow> blockingRetry (GetLedgerRange L ProtocolSlashReserveAccount 0 MaxInt64 ''hive''
            [[LedgerTypeSafetySlashReserve, LedgerTypeReservePayoutDebit]]) s;
          Some (case recs of
                  None \<Rightarrow> 0
                | Some rs \<Rightarrow> sum_list (map lr_Amount (filter (\<lambda>r. lr_Id r \<noteq> excludeDebitID) rs)), s)
        })"

definition ReserveAvailable :: "ledgerSystem \<Rightarrow> dbs \<Rightarrow> int64 ledger_call" where
  "ReserveAvailable ls s = reserveAvailable ls [] s"

record ReservePayoutParams =
  rp_ProposalID :: string
  rp_Recipient :: string
  rp_Amount :: int64
  rp_BlockHeight :: uint64

definition payout_debit_id :: "ReservePayoutParams \<Rightarrow> string" where
  "payout_debit_id p = TrimSpace (rp_ProposalID p) @ ''#reserve_payout#debit''"

definition payout_records :: "ReservePayoutParams \<Rightarrow> LedgerRecord list" where
  "payout_records p =
     (let proposalID = TrimSpace (rp_ProposalID p); recipient = normalizeHiveConsensusAccount (rp_Recipient p)
      in [LedgerRecord_zero\<lparr>lr_Id := payout_debit_id p, lr_TxId := proposalID,
            lr_BlockHeight := rp_BlockHeight p, lr_Amount := - rp_Amount p, lr_Asset := ''hive'',
            lr_Owner := ProtocolSlashReserveAccount, lr_Type := LedgerTypeReservePayoutDebit\<rparr>,
          LedgerRecord_zero\<lparr>lr_Id := proposalID @ ''#reserve_payout#credit#'' @ recipient, lr_TxId := proposalID,
            lr_BlockHeight := rp_BlockHeight p, lr_Amount := rp_Amount p, lr_Asset := ''hive'',
            lr_Owner := recipient, lr_Type := LedgerTypeReservePayoutCredit\<rparr>])"

definition ReservePayout :: "ledgerSystem \<Rightarrow> ReservePayoutParams \<Rightarrow> dbs \<Rightarrow> LedgerResult ledger_call" where
  "ReservePayout ls p s =
     (if TrimSpace (rp_ProposalID p) = [] \<or> normalizeHiveConsensusAccount (rp_Recipient p) = []
      then Some (fail ''invalid reserve payout params'', s)
      else if sint (rp_Amount p) \<le> 0 then Some (fail ''reserve payout amount must be positive'', s)
      else if sy_LedgerDb ls = None then Some (fail ''ledger not configured'', s)
      else do {
        (available, s) \<leftarrow> reserveAvailable ls (payout_debit_id p) s;
        if sint available \<le> 0 then Some (fail ''reserve has no available balance'', s)
        else if sint (rp_Amount p) > sint available
        then Some (fail ''reserve payout exceeds available balance'', s)
        else do {
          (_, s) \<leftarrow> storeLedgerOrFail ls (payout_records p) s;
          Some (success ''reserve payout recorded'', s)
        }
      })"

end
