(* ===== verification/Interest.thy ===== *)
theory Interest
  imports Slash
begin

text \<open>
  The distribution of the HBD interest (modules/ledger-system): the overflow-safe arithmetic of
  hbd_interest_math.go and \<open>ClaimHBDInterest\<close>, which splits an interest payment over the accounts
  in proportion to their time-weighted savings, replaces the rows an older binary wrote for the same
  payment and records what was paid.

  The lemmas show that the shares are the floors of the exact ratios and never exceed the payment,
  and that the rows are a function of the balances alone: neither the order in which the server
  lists the accounts, nor its faults, nor a second run of the same payment changes the ledger.
\<close>

section \<open>Arithmetic\<close>

definition computeEndingAvg :: "int64 \<Rightarrow> int64 \<Rightarrow> int64 \<Rightarrow> int64 \<Rightarrow> int64 option" where
  "computeEndingAvg hbdAvg hbdSavings a b =
     (if b = 0 then None
      else let out = quo (sint hbdSavings * sint a + sint hbdAvg) (sint b)
           in if fits_int64 out then Some (word_of_int out) else None)"

text \<open>The denominator is a \<open>big.Int\<close>; the caller never passes nil.\<close>

definition computeDistributeAmount :: "int64 \<Rightarrow> int64 \<Rightarrow> int \<Rightarrow> int64 option" where
  "computeDistributeAmount hbdAvg amount totalAvg =
     (if totalAvg \<le> 0 then None
      else let out = quo (sint hbdAvg * sint amount) totalAvg
           in if fits_int64 out then Some (word_of_int out) else None)"

section \<open>Distribution\<close>

definition FormatInt :: "int64 \<Rightarrow> string" where
  "FormatInt w = (if sint w < 0 then CHR ''-'' # nat_to_dec (nat (- sint w)) else nat_to_dec (nat (sint w)))"

text \<open>One round of the first loop: the record with its average brought up to date, unless it is skipped.\<close>

definition ending_record :: "uint64 \<Rightarrow> BalanceRecord \<Rightarrow> BalanceRecord option" where
  "ending_record blockHeight balance =
     (if blockHeight \<le> br_HBD_CLAIM_HEIGHT balance then None
      else let b = blockHeight - br_HBD_CLAIM_HEIGHT balance in
      if b = 0 then None
      else if blockHeight \<le> br_HBD_MODIFY_HEIGHT balance then None
      else let a = blockHeight - br_HBD_MODIFY_HEIGHT balance in
      case computeEndingAvg (br_HBD_AVG balance) (br_HBD_SAVINGS balance) a b of
        None \<Rightarrow> None
      | Some endingAvg \<Rightarrow> if sint endingAvg < 1 then None else Some (balance\<lparr>br_HBD_AVG := endingAvg\<rparr>))"

definition total_avg :: "BalanceRecord list \<Rightarrow> int" where
  "total_avg processed = sum_list (map (\<lambda>b. sint (br_HBD_AVG b)) processed)"

record interestCredit =
  ic_account :: string
  ic_owner :: string
  ic_amount :: int64

text \<open>One round of the second loop.\<close>

definition interest_credit :: "int64 \<Rightarrow> int \<Rightarrow> BalanceRecord \<Rightarrow> interestCredit option" where
  "interest_credit amount totalAvg balance =
     (case computeDistributeAmount (br_HBD_AVG balance) amount totalAvg of
        None \<Rightarrow> None
      | Some distributeAmt \<Rightarrow>
          if sint distributeAmt \<le> 0 then None
          else if HasPrefix (br_Account balance) ''system:'' then
            if br_Account balance = FR_VIRTUAL_ACCOUNT
            then Some \<lparr>ic_account = br_Account balance, ic_owner = DAO_WALLET, ic_amount = distributeAmt\<rparr>
            else None
          else Some \<lparr>ic_account = br_Account balance, ic_owner = br_Account balance, ic_amount = distributeAmt\<rparr>)"

definition credit_owners :: "interestCredit list \<Rightarrow> string list" where
  "credit_owners credits =
     fold (\<lambda>c owners. if ic_owner c \<in> set owners then owners else owners @ [ic_owner c]) credits []"

definition interest_record :: "uint64 \<Rightarrow> string \<Rightarrow> interestCredit \<Rightarrow> LedgerRecord" where
  "interest_record blockHeight txId c = LedgerRecord_zero\<lparr>
     lr_Id := ''hbd_interest_'' @ FormatInt blockHeight @ ''_'' @ txId @ ''#'' @ ic_account c,
     lr_BlockHeight := blockHeight + 1, lr_Amount := ic_amount c, lr_Asset := ''hbd_savings'',
     lr_Owner := ic_owner c, lr_Type := ''interest''\<rparr>"

fun store_credits ::
  "LedgerRecord collection \<Rightarrow> uint64 \<Rightarrow> string \<Rightarrow> interestCredit list \<Rightarrow> int64 \<Rightarrow> dbs \<Rightarrow> int64 ledger_call" where
  "store_credits L blockHeight txId [] distributed s = Some (distributed, s)"
| "store_credits L blockHeight txId (c # credits) distributed s = do {
     (_, s) \<leftarrow> blockingRetry (StoreLedger L [interest_record blockHeight txId c]) s;
     store_credits L blockHeight txId credits (distributed + ic_amount c) s
   }"

definition processed_records :: "uint64 \<Rightarrow> BalanceRecord list \<Rightarrow> BalanceRecord list" where
  "processed_records blockHeight ledgerBalances = List.map_filter (ending_record blockHeight) ledgerBalances"

definition interest_credits :: "int64 \<Rightarrow> BalanceRecord list \<Rightarrow> interestCredit list" where
  "interest_credits amount processed = List.map_filter (interest_credit amount (total_avg processed)) processed"

text \<open>The observed rate of the claim record, a float nothing reads back, is left out.\<close>

definition ClaimHBDInterest :: "ledgerSystem \<Rightarrow> uint64 \<Rightarrow> uint64 \<Rightarrow> int64 \<Rightarrow> string \<Rightarrow> dbs \<Rightarrow> unit ledger_call" where
  "ClaimHBDInterest ls lastClaim blockHeight amount txId s = do {
     B \<leftarrow> sy_BalanceDb ls;
     (ledgerBalances, s) \<leftarrow> blockingRetry (GetAll B blockHeight) s;
     let processed = processed_records blockHeight ledgerBalances;
     let credits = interest_credits amount processed;
     let owners = credit_owners credits;
     (_, s) \<leftarrow> (if credits \<noteq> [] \<and> owners \<noteq> [] then do {
         L \<leftarrow> sy_LedgerDb ls;
         blockingRetry (DeleteLegacyInterestRecords L (blockHeight + 1) owners) s
       } else Some ((), s));
     (distributed, s) \<leftarrow> (case sy_LedgerDb ls of
         None \<Rightarrow> if credits = [] then Some (0, s) else None
       | Some L \<Rightarrow> store_credits L blockHeight txId credits 0 s);
     K \<leftarrow> sy_ClaimDb ls;
     Some ((), SaveClaim K \<lparr>cl_BlockHeight = blockHeight, cl_Amount = distributed, cl_TxId = txId,
       cl_ReceivedN = length processed\<rparr> s)
   }"

section \<open>The shares\<close>

lemma ending_avg_pos: "ending_record h b = Some b' \<Longrightarrow> 1 \<le> sint (br_HBD_AVG b') \<and> br_Account b' = br_Account b"
  by (auto simp: ending_record_def Let_def split: if_splits option.splits)

lemma processed_pos: "b \<in> set (processed_records h bs) \<Longrightarrow> 1 \<le> sint (br_HBD_AVG b)"
  by (auto simp: processed_records_def List.map_filter_def dest: ending_avg_pos)

text \<open>The exact share of an account: the floor of its part of the payment.\<close>

definition share :: "int \<Rightarrow> int \<Rightarrow> BalanceRecord \<Rightarrow> int" where
  "share amount totalAvg b = sint (br_HBD_AVG b) * amount div totalAvg"

lemma avg_le_total:
  assumes "b \<in> set ps" "\<forall>b \<in> set ps. 1 \<le> sint (br_HBD_AVG b)"
  shows "sint (br_HBD_AVG b) \<le> total_avg ps" "0 < total_avg ps"
proof -
  show le: "sint (br_HBD_AVG b) \<le> total_avg ps"
    unfolding total_avg_def using assms by (intro member_le_sum_list) auto
  show "0 < total_avg ps" using le assms by force
qed

lemma distribute_is_share:
  assumes "0 \<le> sint amount" "1 \<le> sint (br_HBD_AVG b)" "sint (br_HBD_AVG b) \<le> t"
  shows "\<exists>w. computeDistributeAmount (br_HBD_AVG b) amount t = Some w \<and> sint w = share (sint amount) t b"
    and "0 \<le> share (sint amount) t b" and "share (sint amount) t b \<le> sint amount"
proof -
  have q: "quo (sint (br_HBD_AVG b) * sint amount) t = share (sint amount) t b"
    using assms by (simp add: share_def)
  show nn: "0 \<le> share (sint amount) t b"
    using assms by (simp add: share_def pos_imp_zdiv_nonneg_iff)
  show le: "share (sint amount) t b \<le> sint amount"
    using quo_mult_le [of "sint amount" "sint (br_HBD_AVG b)" t] assms q by (simp add: mult.commute)
  have "fits_int64 (share (sint amount) t b)"
    using nn le sint_bounds [of amount] by (simp add: fits_int64_def i64_min_def)
  then show "\<exists>w. computeDistributeAmount (br_HBD_AVG b) amount t = Some w \<and> sint w = share (sint amount) t b"
    using assms q by (simp add: computeDistributeAmount_def sint_of_fits)
qed

lemma sum_shares:
  assumes "0 < t"
  shows "t * sum_list (map (share m t) ps) \<le> m * total_avg ps"
    and "m * total_avg ps \<le> t * sum_list (map (share m t) ps) + (t - 1) * int (length ps)"
proof -
  have split: "sint (br_HBD_AVG b) * m = t * share m t b + (sint (br_HBD_AVG b) * m) mod t" for b
    by (simp add: share_def)
  have mod: "0 \<le> (sint (br_HBD_AVG b) * m) mod t" "(sint (br_HBD_AVG b) * m) mod t \<le> t - 1" for b
    using assms by (simp_all add: zle_diff1_eq)
  show "t * sum_list (map (share m t) ps) \<le> m * total_avg ps"
  proof (induction ps)
    case (Cons b ps)
    then show ?case using split [of b] mod(1) [of b] by (simp add: total_avg_def algebra_simps)
  qed (simp add: total_avg_def)
  show "m * total_avg ps \<le> t * sum_list (map (share m t) ps) + (t - 1) * int (length ps)"
  proof (induction ps)
    case (Cons b ps)
    then show ?case using split [of b] mod(2) [of b] by (simp add: total_avg_def algebra_simps)
  qed (simp add: total_avg_def)
qed

lemma shares_bound:
  assumes "0 < total_avg ps"
  shows "sum_list (map (share m (total_avg ps)) ps) \<le> m"
    and "ps \<noteq> [] \<Longrightarrow> m - sum_list (map (share m (total_avg ps)) ps) < int (length ps)"
proof -
  let ?t = "total_avg ps" and ?s = "sum_list (map (share m (total_avg ps)) ps)"
  have "?t * ?s \<le> ?t * m" using sum_shares(1) [OF assms, of m ps] by (simp add: mult.commute)
  then show "?s \<le> m" using assms by simp
  assume ne: "ps \<noteq> []"
  have "?t * (m - ?s) \<le> (?t - 1) * int (length ps)"
    using sum_shares(2) [OF assms, of m ps] by (simp add: algebra_simps)
  also have "\<dots> < ?t * int (length ps)" using ne assms by (simp add: algebra_simps)
  finally show "m - ?s < int (length ps)" using assms by simp
qed

text \<open>The owner an account's interest is credited to, if any.\<close>

definition interest_owner :: "string \<Rightarrow> string option" where
  "interest_owner account =
     (if HasPrefix account ''system:'' then if account = FR_VIRTUAL_ACCOUNT then Some DAO_WALLET else None
      else Some account)"

lemma interest_credit_share:
  assumes "0 \<le> sint amount" "1 \<le> sint (br_HBD_AVG b)" "sint (br_HBD_AVG b) \<le> t"
  shows "interest_credit amount t b =
    (if share (sint amount) t b = 0 then None
     else case interest_owner (br_Account b) of None \<Rightarrow> None
       | Some ow \<Rightarrow> Some \<lparr>ic_account = br_Account b, ic_owner = ow, ic_amount = word_of_int (share (sint amount) t b)\<rparr>)"
proof -
  obtain w where w: "computeDistributeAmount (br_HBD_AVG b) amount t = Some w" "sint w = share (sint amount) t b"
    using distribute_is_share(1) [OF assms] by blast
  have "word_of_int (share (sint amount) t b) = w" unfolding w(2) [symmetric] by simp
  then show ?thesis
    using w distribute_is_share(2) [OF assms] by (auto simp: interest_credit_def interest_owner_def)
qed

lemma credit_amount:
  assumes "0 \<le> sint amount" "\<forall>b \<in> set ps. 1 \<le> sint (br_HBD_AVG b)" "b \<in> set ps"
    and "interest_credit amount (total_avg ps) b = Some c"
  shows "sint (ic_amount c) = share (sint amount) (total_avg ps) b" "ic_account c = br_Account b"
    "interest_owner (br_Account b) = Some (ic_owner c)"
proof -
  have a: "1 \<le> sint (br_HBD_AVG b)" "sint (br_HBD_AVG b) \<le> total_avg ps"
    using assms(2,3) avg_le_total(1) by auto
  have "fits_int64 (share (sint amount) (total_avg ps) b)"
    using distribute_is_share(2,3) [OF assms(1) a] sint_bounds [of amount] by (simp add: fits_int64_def i64_min_def)
  then show "sint (ic_amount c) = share (sint amount) (total_avg ps) b" "ic_account c = br_Account b"
    "interest_owner (br_Account b) = Some (ic_owner c)"
    using assms(4) unfolding interest_credit_share [OF assms(1) a]
    by (auto simp: sint_of_fits split: if_splits option.splits)
qed

definition credited :: "interestCredit list \<Rightarrow> int" where
  "credited cs = sum_list (map (\<lambda>c. sint (ic_amount c)) cs)"

definition payable :: "BalanceRecord list \<Rightarrow> BalanceRecord list" where
  "payable ps = filter (\<lambda>b. interest_owner (br_Account b) \<noteq> None) ps"

lemma credited_shares:
  assumes "0 \<le> sint amount" "\<forall>b \<in> set ps. 1 \<le> sint (br_HBD_AVG b)" "set qs \<subseteq> set ps"
  shows "credited (List.map_filter (interest_credit amount (total_avg ps)) qs) =
    sum_list (map (share (sint amount) (total_avg ps)) (payable qs))"
  using assms(3)
proof (induction qs)
  case (Cons b qs)
  then have b: "b \<in> set ps" by simp
  have a: "1 \<le> sint (br_HBD_AVG b)" "sint (br_HBD_AVG b) \<le> total_avg ps"
    using assms(2) b avg_le_total(1) by auto
  show ?case
    using Cons credit_amount(1) [OF assms(1,2) b] interest_credit_share [OF assms(1) a]
    by (auto simp: List.map_filter_simps credited_def payable_def split: option.splits)
qed (simp add: credited_def payable_def List.map_filter_def)

lemma payable_bounds:
  assumes "0 \<le> m" "\<forall>b \<in> set ps. 1 \<le> sint (br_HBD_AVG b)"
  shows "0 \<le> sum_list (map (share m (total_avg ps)) (payable ps))"
    and "sum_list (map (share m (total_avg ps)) (payable ps)) \<le> m"
proof -
  have nn: "0 \<le> share m (total_avg ps) b" if "b \<in> set ps" for b
    using assms that avg_le_total(2) [OF that assms(2)] by (auto simp: share_def pos_imp_zdiv_nonneg_iff)
  show "0 \<le> sum_list (map (share m (total_avg ps)) (payable ps))"
    by (rule sum_list_nonneg) (auto simp: payable_def nn)
  show "sum_list (map (share m (total_avg ps)) (payable ps)) \<le> m"
  proof (cases "ps = []")
    case True
    then show ?thesis using assms(1) by (simp add: payable_def)
  next
    case False
    then have t: "0 < total_avg ps" using avg_le_total(2) [OF _ assms(2)] by (cases ps) auto
    have "sum_list (map (share m (total_avg ps)) (filter P qs)) \<le> sum_list (map (share m (total_avg ps)) qs)"
      if "set qs \<subseteq> set ps" for qs P
      using that by (induction qs) (auto simp: nn add_increasing)
    then show ?thesis unfolding payable_def using shares_bound(1) [OF t, of m] by (meson order_refl order_trans)
  qed
qed

section \<open>Reads\<close>

definition all_balances :: "BalanceRecord collection \<Rightarrow> ledger_dbs \<Rightarrow> uint64 \<Rightarrow> string list \<Rightarrow> BalanceRecord list" where
  "all_balances B c h acts = List.map_filter (\<lambda>a. newest_snapshot B c a h) acts"

definition balance_accounts :: "BalanceRecord collection \<Rightarrow> ledger_dbs \<Rightarrow> string list" where
  "balance_accounts B c = Distinct B br_Account (\<lambda>_. True) (balances_c c)"

lemma collect_attempt:
  "(\<exists>fs. collect_balances B acts h s = (Inr (all_balances B (contents s) h acts), s\<lparr>faults := fs\<rparr>) \<and>
      length fs \<le> length (faults s)) \<or>
   (\<exists>e fs. collect_balances B acts h s = (Inl e, s\<lparr>faults := fs\<rparr>) \<and> length fs < length (faults s))"
proof (induction acts arbitrary: s)
  case Nil
  show ?case
    by (intro disjI1 exI [of _ "faults s"]) (simp add: all_balances_def List.map_filter_def)
next
  case (Cons a acts)
  show ?case
  proof (rule db_read_attempt [of "\<lambda>c. FindOne B (balance_query a h) newest_balance (balances_c c)" s])
    fix fs assume "db_read (\<lambda>c. FindOne B (balance_query a h) newest_balance (balances_c c)) s =
      (Inl DbFault, s\<lparr>faults := fs\<rparr>)" "length fs < length (faults s)"
    then show ?thesis by (intro disjI2 exI [of _ DbFault] exI [of _ fs]) (simp add: GetBalanceRecord_def)
  next
    fix fs assume g: "db_read (\<lambda>c. FindOne B (balance_query a h) newest_balance (balances_c c)) s =
      (Inr (FindOne B (balance_query a h) newest_balance (balances_of s)), s\<lparr>faults := fs\<rparr>)"
      and le: "length fs \<le> length (faults s)"
    from Cons.IH [of "s\<lparr>faults := fs\<rparr>"] show ?thesis
    proof (elim disjE exE conjE)
      fix fs' assume "collect_balances B acts h (s\<lparr>faults := fs\<rparr>) =
          (Inr (all_balances B (contents (s\<lparr>faults := fs\<rparr>)) h acts), s\<lparr>faults := fs, faults := fs'\<rparr>)"
        "length fs' \<le> length (faults (s\<lparr>faults := fs\<rparr>))"
      then show ?thesis
        using g le by (intro disjI1 exI [of _ fs'])
          (simp add: GetBalanceRecord_def all_balances_def List.map_filter_simps newest_snapshot_def split: option.split)
    next
      fix e fs' assume "collect_balances B acts h (s\<lparr>faults := fs\<rparr>) = (Inl e, s\<lparr>faults := fs, faults := fs'\<rparr>)"
        "length fs' < length (faults (s\<lparr>faults := fs\<rparr>))"
      then show ?thesis
        using g le by (intro disjI2 exI [of _ e] exI [of _ fs']) (simp add: GetBalanceRecord_def)
    qed
  qed
qed

lemma GetAll_attempt:
  "(\<exists>fs. GetAll B h s = (Inr (all_balances B (contents s) h (balance_accounts B (contents s))), s\<lparr>faults := fs\<rparr>)) \<or>
   (\<exists>e fs. GetAll B h s = (Inl e, s\<lparr>faults := fs\<rparr>) \<and> length fs < length (faults s))"
proof (rule db_read_attempt [of "\<lambda>c. Distinct B br_Account (\<lambda>_. True) (balances_c c)" s])
  fix fs assume "db_read (\<lambda>c. Distinct B br_Account (\<lambda>_. True) (balances_c c)) s = (Inl DbFault, s\<lparr>faults := fs\<rparr>)"
    "length fs < length (faults s)"
  then show ?thesis by (intro disjI2 exI [of _ DbFault] exI [of _ fs]) (simp add: GetAll_def)
next
  fix fs assume g: "db_read (\<lambda>c. Distinct B br_Account (\<lambda>_. True) (balances_c c)) s =
      (Inr (Distinct B br_Account (\<lambda>_. True) (balances_of s)), s\<lparr>faults := fs\<rparr>)" and le: "length fs \<le> length (faults s)"
  show ?thesis
    using collect_attempt [of B "balance_accounts B (contents s)" h "s\<lparr>faults := fs\<rparr>"] g le
    by (fastforce simp: GetAll_def balance_accounts_def)
qed

lemma GetAll_blocks:
  "\<exists>fs. blockingRetry (GetAll B h) s =
     Some (all_balances B (contents s) h (balance_accounts B (contents s)), s\<lparr>faults := fs\<rparr>)"
  unfolding blockingRetry_def
  by (rule retry_attempts [where c = "contents s"]) (metis GetAll_attempt, rule refl)

section \<open>Writes\<close>

definition drop_legacy :: "LedgerRecord collection \<Rightarrow> uint64 \<times> string list \<Rightarrow> ledger_dbs \<Rightarrow> ledger_dbs" where
  "drop_legacy L k c = c\<lparr>ledger_c := DeleteMany L (legacy_interest (fst k) (snd k)) (ledger_c c)\<rparr>"

definition kept_rows ::
  "(uint64 \<times> string list) list \<Rightarrow> LedgerRecord multiset \<times> ledger_dbs \<Rightarrow> LedgerRecord multiset \<times> ledger_dbs" where
  "kept_rows ks v = (filter_mset (\<lambda>r. \<forall>k \<in> set ks. \<not> legacy_interest (fst k) (snd k) r) (fst v), snd v)"

context ledger_collection
begin

lemma drop_legacy_mset:
  "mset (ledger_c (drop_legacy L k c)) = filter_mset (\<lambda>r. \<not> legacy_interest (fst k) (snd k) r) (mset (ledger_c c))"
  by (simp add: drop_legacy_def delete_many)

lemma drop_legacy_unique: "ids_unique c \<Longrightarrow> ids_unique (drop_legacy L k c)"
proof -
  assume "ids_unique c"
  then have "distinct (map lr_Id (filter (\<lambda>r. \<not> legacy_interest (fst k) (snd k) r) (ledger_c c)))"
    by (simp add: ids_unique_def distinct_map_filter)
  moreover have "mset (map lr_Id (ledger_c (drop_legacy L k c))) =
      mset (map lr_Id (filter (\<lambda>r. \<not> legacy_interest (fst k) (snd k) r) (ledger_c c)))"
    using drop_legacy_mset [of k c] by (metis mset_filter mset_map)
  ultimately show ?thesis unfolding ids_unique_def by (metis mset_eq_imp_distinct_iff)
qed

lemma drop_legacy_view: "ledger_view (fold (drop_legacy L) ks c) = kept_rows ks (ledger_view c)"
proof (induction ks arbitrary: c)
  case (Cons k ks)
  have "ledger_view (drop_legacy L k c) = kept_rows [k] (ledger_view c)"
    by (simp add: ledger_view_def kept_rows_def drop_legacy_mset) (simp add: drop_legacy_def)
  then show ?case
    by (simp add: Cons.IH) (auto simp: kept_rows_def filter_mset_filter_mset intro: filter_mset_cong)
qed (simp add: kept_rows_def)

end

sublocale ledger_collection \<subseteq> legacy: batch_store "drop_legacy L" ids_unique ledger_view kept_rows
  by unfold_locales
    (simp_all add: drop_legacy_unique drop_legacy_view,
      auto simp: kept_rows_def filter_mset_filter_mset intro!: filter_mset_cong)

context ledger_collection
begin

lemma delete_blocks:
  assumes "ids_unique (contents s)" "owners \<noteq> []"
  shows "\<exists>s'. blockingRetry (DeleteLegacyInterestRecords L h owners) s = Some ((), s') \<and>
    ids_unique (contents s') \<and> ledger_view (contents s') = kept_rows [(h, owners)] (ledger_view (contents s))"
proof -
  have "DeleteLegacyInterestRecords L h owners s = each_call (drop_legacy L) [(h, owners)] s" for s
    using assms(2) by (simp add: DeleteLegacyInterestRecords_def drop_legacy_def split: prod.split sum.split)
  then have "DeleteLegacyInterestRecords L h owners = each_call (drop_legacy L) [(h, owners)]" by blast
  then show ?thesis
    using legacy.retry_batch [OF assms(1), of baseDelay "[(h, owners)]"] by (simp add: blockingRetry_def)
qed

lemma store_credits_stores:
  assumes "ids_unique (contents s)"
  shows "\<exists>s'. store_credits L h txId cs d s = Some (d + sum_list (map ic_amount cs), s') \<and>
    stored (map (interest_record h txId) cs) s s'"
  using assms
proof (induction cs arbitrary: d s)
  case Nil
  then show ?case using stored_refl [of s "faults s"] by simp
next
  case (Cons c cs)
  obtain s1 where 1: "blockingRetry (StoreLedger L [interest_record h txId c]) s = Some ((), s1)"
    "stored [interest_record h txId c] s s1"
    using store_blocks_until_stored [OF Cons.prems] by blast
  obtain s2 where 2: "store_credits L h txId cs (d + ic_amount c) s1 = Some (d + ic_amount c + sum_list (map ic_amount cs), s2)"
    "stored (map (interest_record h txId) cs) s1 s2"
    using Cons.IH [OF storedD(1) [OF 1(2)]] by blast
  show ?case using 1(1) 2(1) stored_trans [OF 1(2) 2(2)] by (simp add: add.assoc)
qed

end

lemma owners_fold:
  "set (fold (\<lambda>c owners. if ic_owner c \<in> set owners then owners else owners @ [ic_owner c]) cs acc) =
     set acc \<union> ic_owner ` set cs"
  by (induction cs arbitrary: acc) auto

lemma set_credit_owners [simp]: "set (credit_owners cs) = ic_owner ` set cs"
  using owners_fold [of cs "[]"] by (simp add: credit_owners_def)

lemma credit_owners_empty [simp]: "credit_owners cs = [] \<longleftrightarrow> cs = []"
  using set_credit_owners [of cs] by (metis image_is_empty set_empty)

text \<open>What a claim leaves on the ledger, as a function of the documents before it.\<close>

definition claim_credits :: "BalanceRecord collection \<Rightarrow> ledger_dbs \<Rightarrow> uint64 \<Rightarrow> int64 \<Rightarrow> interestCredit list" where
  "claim_credits B c h amount =
     interest_credits amount (processed_records h (all_balances B c h (balance_accounts B c)))"

definition claim_rows :: "interestCredit list \<Rightarrow> uint64 \<Rightarrow> string \<Rightarrow> LedgerRecord multiset \<Rightarrow> LedgerRecord multiset" where
  "claim_rows cs h txId m = puts lr_Id (map (interest_record h txId) cs)
     (filter_mset (\<lambda>r. \<not> legacy_interest (h + 1) (credit_owners cs) r) m)"

lemma claim_saved:
  "ledger_of (SaveClaim K r s) = ledger_of s" "balances_of (SaveClaim K r s) = balances_of s"
  "ids_unique (contents (SaveClaim K r s)) = ids_unique (contents s)"
  "claims_of (SaveClaim K r s) \<in> {claims_of s, Upsert K (\<lambda>d. cl_BlockHeight d = cl_BlockHeight r) r (claims_of s)}"
  by (auto simp: SaveClaim_def db_call_def ids_unique_def split: list.split call_outcome.split)

locale interest_ledger = ledger_collection L for L :: "LedgerRecord collection" +
  fixes ls :: ledgerSystem and B :: "BalanceRecord collection" and K :: "ClaimRecord collection"
  assumes handles: "sy_LedgerDb ls = Some L" "sy_BalanceDb ls = Some B" "sy_ClaimDb ls = Some K"
begin

lemma claim_effect:
  assumes "ids_unique (contents s)" and cs_def: "cs = claim_credits B (contents s) h amount"
  shows "\<exists>s' n. ClaimHBDInterest ls lastClaim h amount txId s = Some ((), s') \<and> ids_unique (contents s') \<and>
    mset (ledger_of s') = claim_rows cs h txId (mset (ledger_of s)) \<and> balances_of s' = balances_of s \<and>
    claims_of s' \<in> {claims_of s, Upsert K (\<lambda>d. cl_BlockHeight d = h) \<lparr>cl_BlockHeight = h,
      cl_Amount = sum_list (map ic_amount cs), cl_TxId = txId, cl_ReceivedN = n\<rparr> (claims_of s)}"
proof -
  obtain fs where fs: "blockingRetry (GetAll B h) s =
      Some (all_balances B (contents s) h (balance_accounts B (contents s)), s\<lparr>faults := fs\<rparr>)"
    using GetAll_blocks by blast
  obtain s1 where s1: "(if cs \<noteq> [] then blockingRetry (DeleteLegacyInterestRecords L (h + 1) (credit_owners cs)) (s\<lparr>faults := fs\<rparr>)
      else Some ((), s\<lparr>faults := fs\<rparr>)) = Some ((), s1)" "ids_unique (contents s1)"
    "ledger_view (contents s1) = kept_rows [(h + 1, credit_owners cs)] (ledger_view (contents s))"
  proof (cases "cs = []")
    case True
    then show ?thesis
      using that [of "s\<lparr>faults := fs\<rparr>"] assms(1) by (simp add: kept_rows_def legacy_interest_def)
  next
    case False
    then show ?thesis
      using that delete_blocks [of "s\<lparr>faults := fs\<rparr>" "credit_owners cs" "h + 1"] assms(1) by auto
  qed
  obtain s2 where s2: "store_credits L h txId cs 0 s1 = Some (sum_list (map ic_amount cs), s2)"
    "stored (map (interest_record h txId) cs) s1 s2"
    using store_credits_stores [OF s1(2), of h txId cs 0] by auto
  let ?n = "length (processed_records h (all_balances B (contents s) h (balance_accounts B (contents s))))"
  let ?r = "\<lparr>cl_BlockHeight = h, cl_Amount = sum_list (map ic_amount cs), cl_TxId = txId, cl_ReceivedN = ?n\<rparr>"
  have run: "ClaimHBDInterest ls lastClaim h amount txId s = Some ((), SaveClaim K ?r s2)"
    using fs s1(1) s2(1) unfolding cs_def claim_credits_def
    by (simp add: ClaimHBDInterest_def handles Let_def split: if_splits)
  have m: "mset (ledger_of s2) = claim_rows cs h txId (mset (ledger_of s))"
    using s1(3) storedD(2) [OF s2(2)] by (simp add: claim_rows_def ledger_view_def kept_rows_def)
  have rest: "balances_of s2 = balances_of s" "claims_of s2 = claims_of s"
    using s1(3) storedD(3,5) [OF s2(2)]
    by (auto simp: ledger_view_def kept_rows_def dest: arg_cong [where f = balances_c] arg_cong [where f = claims_c])
  show ?thesis
    using run m rest storedD(1) [OF s2(2)] claim_saved(4) [of K ?r s2]
    by (intro exI [of _ "SaveClaim K ?r s2"] exI [of _ ?n]) (simp add: claim_saved)
qed

end

lemma sint_sum_list:
  "\<forall>x \<in> set xs. 0 \<le> sint (x :: int64) \<Longrightarrow> sum_list (map sint xs) \<le> i64_max \<Longrightarrow>
     sint (sum_list xs) = sum_list (map sint xs)"
proof (induction xs)
  case (Cons x xs)
  have nn: "0 \<le> sum_list (map sint xs)" by (rule sum_list_nonneg) (use Cons.prems(1) in auto)
  have x: "0 \<le> sint x" using Cons.prems(1) by simp
  then have "sint (sum_list xs) = sum_list (map sint xs)" using Cons by simp
  moreover have "fits_int64 (sint x + sum_list (map sint xs))"
    using nn x Cons.prems(2) by (simp add: fits_int64_def i64_min_def)
  ultimately show ?case by (simp add: sint_add_fits)
qed simp

lemma newest_account: "mongo_collection B \<Longrightarrow> newest_snapshot B c a h = Some b \<Longrightarrow> br_Account b = a"
  using mongo_collection.find_one_some [of B "balance_query a h" newest_balance "balances_c c" b]
  by (simp add: newest_snapshot_def balance_query_def)

lemma map_filter_Cons: "List.map_filter f (x # xs) = (case f x of None \<Rightarrow> List.map_filter f xs | Some y \<Rightarrow> y # List.map_filter f xs)"
  by (simp add: List.map_filter_simps split: option.split)

lemma distinct_map_filter_keys:
  "distinct (map k xs) \<Longrightarrow> (\<And>x y. f x = Some y \<Longrightarrow> k' y = k x) \<Longrightarrow> distinct (map k' (List.map_filter f xs))"
proof (induction xs)
  case (Cons x xs)
  have "k' ` set (List.map_filter f xs) \<subseteq> k ` set xs"
    using Cons.prems(2) by (force simp: List.map_filter_def)
  then show ?case using Cons by (auto simp: map_filter_Cons split: option.split)
qed (simp add: List.map_filter_def)

lemma claim_accounts_distinct:
  assumes "mongo_collection B"
  shows "distinct (map ic_account (claim_credits B c h amount))"
proof -
  have "distinct (map br_Account (all_balances B c h (balance_accounts B c)))"
    unfolding all_balances_def balance_accounts_def
    by (rule distinct_map_filter_keys [where k = id]) (simp_all add: mongo_collection.distinct_values [OF assms] newest_account [OF assms])
  then have "distinct (map br_Account (processed_records h (all_balances B c h (balance_accounts B c))))"
    unfolding processed_records_def by (rule distinct_map_filter_keys) (simp add: ending_avg_pos)
  then show ?thesis
    unfolding claim_credits_def interest_credits_def
    by (rule distinct_map_filter_keys)
      (auto simp: interest_credit_def split: option.splits if_splits)
qed

lemma claim_ids_distinct:
  "distinct (map ic_account cs) \<Longrightarrow> distinct (map lr_Id (map (interest_record h txId) cs))"
  by (auto simp: interest_record_def distinct_map inj_on_def)

lemma claim_rows_eq:
  assumes "distinct (map ic_account cs)"
  shows "claim_rows cs h txId m =
    filter_mset (\<lambda>r. \<not> legacy_interest (h + 1) (credit_owners cs) r \<and>
      lr_Id r \<notin> lr_Id ` set (map (interest_record h txId) cs)) m + mset (map (interest_record h txId) cs)"
  using last_writes_distinct [OF claim_ids_distinct [OF assms, of h txId]]
  by (simp add: claim_rows_def puts_eq filter_mset_filter_mset)

lemma claim_row_stored:
  assumes "mongo_collection B" "mset rows = claim_rows (claim_credits B c h amount) h txId m"
    and "x \<in> set (claim_credits B c h amount)"
  shows "interest_record h txId x \<in> set rows"
proof -
  have "interest_record h txId x \<in># mset rows"
    unfolding assms(2) claim_rows_eq [OF claim_accounts_distinct [OF assms(1), of c h amount]] using assms(3) by simp
  then show ?thesis by simp
qed

lemma credited_exact:
  assumes "credited (List.map_filter (interest_credit amount t) ps) \<le> i64_max"
  shows "sint (sum_list (map ic_amount (List.map_filter (interest_credit amount t) ps))) =
    credited (List.map_filter (interest_credit amount t) ps)"
proof -
  have "\<forall>x \<in> set (map ic_amount (List.map_filter (interest_credit amount t) ps)). 0 \<le> sint x"
    by (auto simp: List.map_filter_def interest_credit_def split: option.splits if_splits)
  then show ?thesis
    using sint_sum_list [of "map ic_amount (List.map_filter (interest_credit amount t) ps)"] assms
    by (simp add: credited_def comp_def)
qed


definition saver :: "string \<Rightarrow> int64 \<Rightarrow> BalanceRecord" where
  "saver a v = BalanceRecord_zero\<lparr>br_Account := a, br_BlockHeight := 10, br_HBD_SAVINGS := v,
     br_HBD_CLAIM_HEIGHT := 5, br_HBD_MODIFY_HEIGHT := 5\<rparr>"

definition savings_dbs :: ledger_dbs where
  "savings_dbs = \<lparr>ledger_c = [], balances_c = [saver ''hive:alice'' 100, saver ''hive:bob'' 200], actions_c = [], claims_c = []\<rparr>"

definition interest_system :: ledgerSystem where
  "interest_system = \<lparr>sy_BalanceDb = Some list_collection, sy_LedgerDb = Some list_collection,
     sy_ClaimDb = Some list_collection, sy_ActionsDb = Some list_collection\<rparr>"

interpretation list_interest: interest_ledger list_collection interest_system list_collection list_collection
  by unfold_locales (simp_all add: interest_system_def)

lemma savings_processed:
  "processed_records 20 (all_balances list_collection savings_dbs 20 (balance_accounts list_collection savings_dbs)) =
     [(saver ''hive:alice'' 100)\<lparr>br_HBD_AVG := 100\<rparr>, (saver ''hive:bob'' 200)\<lparr>br_HBD_AVG := 200\<rparr>]"
  by (simp add: savings_dbs_def saver_def balance_accounts_def all_balances_def list_collection_def newest_snapshot_def
      sort_by_def balance_query_def processed_records_def map_filter_Cons List.map_filter_simps ending_record_def
      computeEndingAvg_def zero_records fits_int64_def i64_min_def i64_max_def Let_def)


section \<open>Agreement of nodes\<close>

lemma newest_balance_order: "transp newest_balance" "totalp newest_balance" "reflp newest_balance"
  by (auto simp: newest_balance_def transp_def totalp_on_def reflp_def)

lemma newest_agree:
  assumes B: "mongo_collection B" "mongo_collection B'" and k: "balances_keyed c"
    and m: "mset (balances_c c') = mset (balances_c c)"
  shows "newest_snapshot B' c' a h = newest_snapshot B c a h"
proof -
  have set: "set (balances_c c') = set (balances_c c)" using m by (rule mset_eq_setD)
  let ?x = "FindOne B (balance_query a h) newest_balance (balances_c c)"
  let ?y = "FindOne B' (balance_query a h) newest_balance (balances_c c')"
  have none: "?x = None \<longleftrightarrow> ?y = None"
    using mongo_collection.find_one_none [OF B(1)] mongo_collection.find_one_none [OF B(2)] set by metis
  show ?thesis
  proof (cases ?x)
    case None
    with none show ?thesis by (simp add: newest_snapshot_def)
  next
    case (Some x)
    with none obtain y where y: "?y = Some y" by auto
    have x': "x \<in> set (balances_c c)" "balance_query a h x" using mongo_collection.find_one_some [OF B(1) Some] by auto
    have y': "y \<in> set (balances_c c)" "balance_query a h y" using mongo_collection.find_one_some [OF B(2) y] set by auto
    have "newest_balance x y" "newest_balance y x"
      using mongo_collection.find_one_first [OF B(1) newest_balance_order Some y']
        mongo_collection.find_one_first [OF B(2) newest_balance_order y, of x] x' set by auto
    then have "balance_key x = balance_key y"
      using x'(2) y'(2) by (simp add: balance_key_def newest_balance_def balance_query_def)
    then have "x = y" using k x'(1) y'(1) by (auto simp: balances_keyed_def distinct_map dest: inj_onD)
    with Some y show ?thesis by (simp add: newest_snapshot_def)
  qed
qed

lemma map_filter_mset: "mset xs = mset ys \<Longrightarrow> mset (List.map_filter f xs) = mset (List.map_filter f ys)"
  unfolding List.map_filter_def by (metis mset_filter mset_map)

lemma claim_credits_agree:
  assumes "mongo_collection B" "mongo_collection B'" "balances_keyed c" "mset (balances_c c') = mset (balances_c c)"
  shows "mset (claim_credits B' c' h amount) = mset (claim_credits B c h amount)"
proof -
  have "mset (balance_accounts B' c') = mset (balance_accounts B c)"
    using mongo_collection.distinct_values [OF assms(1), of br_Account "\<lambda>_. True" "balances_c c"]
      mongo_collection.distinct_values [OF assms(2), of br_Account "\<lambda>_. True" "balances_c c'"] mset_eq_setD [OF assms(4)]
    unfolding balance_accounts_def by (intro mset_set_set [THEN sym, THEN trans] ; simp add: mset_set_set [symmetric])
  then have "mset (all_balances B' c' h (balance_accounts B' c')) = mset (all_balances B c h (balance_accounts B c))"
    unfolding all_balances_def newest_agree [OF assms] by (rule map_filter_mset)
  then have p: "mset (processed_records h (all_balances B' c' h (balance_accounts B' c'))) =
      mset (processed_records h (all_balances B c h (balance_accounts B c)))"
    unfolding processed_records_def by (rule map_filter_mset)
  have t: "mset xs = mset ys \<Longrightarrow> total_avg xs = total_avg ys" for xs ys
    unfolding total_avg_def by (rule sum_list_mset_cong)
  show ?thesis
    unfolding claim_credits_def interest_credits_def t [OF p] by (rule map_filter_mset [OF p])
qed

lemma claim_rows_agree:
  assumes "mset cs' = mset cs" "distinct (map ic_account cs)"
  shows "claim_rows cs' h txId m = claim_rows cs h txId m"
proof -
  have d: "distinct (map ic_account cs')" using assms by (metis mset_eq_imp_distinct_iff mset_map)
  have "set cs' = set cs" using assms(1) by (rule mset_eq_setD)
  then have "legacy_interest (h + 1) (credit_owners cs') r = legacy_interest (h + 1) (credit_owners cs) r" for r
    by (simp add: legacy_interest_def)
  moreover have "mset (map (interest_record h txId) cs') = mset (map (interest_record h txId) cs)"
    using assms(1) by simp
  ultimately show ?thesis
    unfolding claim_rows_eq [OF assms(2)] claim_rows_eq [OF d] using \<open>set cs' = set cs\<close> by simp
qed

lemma claim_rows_again:
  assumes "distinct (map ic_account cs)"
  shows "claim_rows cs h txId (claim_rows cs h txId m) = claim_rows cs h txId m"
proof -
  have "\<not> legacy_interest (h + 1) os (interest_record h txId c)" for os c
    by (simp add: legacy_interest_def interest_record_def)
  then show ?thesis
    unfolding claim_rows_eq [OF assms]
    by (auto simp: filter_mset_filter_mset filter_mset_eq_mempty_iff intro!: filter_mset_cong)
qed

text \<open>
  C21. Interest is deterministic: two nodes whose databases hold the same balances and ledger rows,
  in whatever order their servers keep and list them and whatever faults they meet, hold the same
  ledger rows after the claim, and a node that runs the same claim again leaves its ledger unchanged.
\<close>

theorem interest_deterministic:
  assumes "ledger_collection L" "mongo_collection B" "sy_LedgerDb ls = Some L" "sy_BalanceDb ls = Some B"
    "sy_ClaimDb ls = Some K" and "ledger_collection L'" "mongo_collection B'" "sy_LedgerDb ls' = Some L'"
    "sy_BalanceDb ls' = Some B'" "sy_ClaimDb ls' = Some K'"
    and "ids_unique (contents s)" "balances_keyed (contents s)" "ids_unique (contents s')"
    and "mset (ledger_of s') = mset (ledger_of s)" "mset (balances_of s') = mset (balances_of s)"
  shows "\<exists>t t' t2. ClaimHBDInterest ls lastClaim h amount txId s = Some ((), t) \<and>
    ClaimHBDInterest ls' lastClaim' h amount txId s' = Some ((), t') \<and> mset (ledger_of t') = mset (ledger_of t) \<and>
    ClaimHBDInterest ls lastClaim2 h amount txId t = Some ((), t2) \<and> mset (ledger_of t2) = mset (ledger_of t)"
proof -
  have il: "interest_ledger L ls B K" "interest_ledger L' ls' B' K'"
    using assms(1-10) by (simp_all add: interest_ledger_def interest_ledger_axioms_def)
  let ?cs = "claim_credits B (contents s) h amount"
  note d = claim_accounts_distinct [OF assms(2), of "contents s" h amount]
  obtain t where t: "ClaimHBDInterest ls lastClaim h amount txId s = Some ((), t)" "ids_unique (contents t)"
    "mset (ledger_of t) = claim_rows ?cs h txId (mset (ledger_of s))" "balances_of t = balances_of s"
    using interest_ledger.claim_effect [OF il(1) assms(11) refl, of lastClaim h amount txId] by blast
  obtain t' where t': "ClaimHBDInterest ls' lastClaim' h amount txId s' = Some ((), t')"
    "mset (ledger_of t') = claim_rows (claim_credits B' (contents s') h amount) h txId (mset (ledger_of s'))"
    using interest_ledger.claim_effect [OF il(2) assms(13) refl, of lastClaim' h amount txId] by blast
  obtain t2 where t2: "ClaimHBDInterest ls lastClaim2 h amount txId t = Some ((), t2)"
    "mset (ledger_of t2) = claim_rows (claim_credits B (contents t) h amount) h txId (mset (ledger_of t))"
    using interest_ledger.claim_effect [OF il(1) t(2) refl, of lastClaim2 h amount txId] by blast
  have "mset (ledger_of t') = mset (ledger_of t)"
    unfolding t'(2) t(3) assms(14)
    by (rule claim_rows_agree [OF claim_credits_agree [OF assms(2,7,12,15)] d])
  moreover have "claim_credits B (contents t) h amount = ?cs"
    using t(4) by (simp add: claim_credits_def all_balances_def balance_accounts_def newest_snapshot_def)
  then have "mset (ledger_of t2) = mset (ledger_of t)"
    unfolding t2(2) t(3) by (simp add: claim_rows_again [OF d])
  ultimately show ?thesis using t(1) t'(1) t2(1) by blast
qed

theorem interest_deterministic_witness:
  "\<exists>t t' t2. ClaimHBDInterest interest_system 5 20 100 ''0'' \<lparr>contents = savings_dbs, faults = [ReplyLost]\<rparr> = Some ((), t) \<and>
    ClaimHBDInterest interest_system 5 20 100 ''0''
      \<lparr>contents = savings_dbs\<lparr>balances_c := rev (balances_c savings_dbs)\<rparr>, faults = []\<rparr> = Some ((), t') \<and>
    mset (ledger_of t') = mset (ledger_of t) \<and>
    ClaimHBDInterest interest_system 20 20 100 ''0'' t = Some ((), t2) \<and> mset (ledger_of t2) = mset (ledger_of t)"
proof -
  let ?s = "\<lparr>contents = savings_dbs, faults = [ReplyLost]\<rparr>"
  let ?s' = "\<lparr>contents = savings_dbs\<lparr>balances_c := rev (balances_c savings_dbs)\<rparr>, faults = []\<rparr>"
  have "ids_unique (contents ?s)" "balances_keyed (contents ?s)" "ids_unique (contents ?s')"
    by (simp_all add: ids_unique_def balances_keyed_def savings_dbs_def saver_def balance_key_def)
  moreover have "mset (ledger_of ?s') = mset (ledger_of ?s)" "mset (balances_of ?s') = mset (balances_of ?s)"
    by simp_all
  ultimately show ?thesis
    by (rule interest_deterministic [OF list_ledger.ledger_collection_axioms list_coll.mongo_collection_axioms
        list_interest.handles list_ledger.ledger_collection_axioms list_coll.mongo_collection_axioms list_interest.handles])
qed

end
