(* ===== verification/Actions.thy ===== *)
theory Actions
  imports Slash
begin

text \<open>
  How operations settle against the database (modules/ledger-system/ledger_system.go):
  \<open>IngestOplog\<close>, which writes the ledger rows of a block's oplog and then the actions the gateway
  has to pay on Hive, and \<open>IndexActions\<close>, which credits a stake or unstake once the gateway
  reports it executed. Which actions were cleared without a delay comes as a bit set in base64;
  the decoder of encoding/base64 and the bits of a \<open>big.Int\<close> are written out.
\<close>

section \<open>Ingesting an oplog\<close>

definition ingest_record :: "uint64 \<Rightarrow> LedgerUpdate \<Rightarrow> LedgerRecord" where
  "ingest_record endHeight v = LedgerRecord_zero\<lparr>lr_Id := lu_Id v, lr_BlockHeight := endHeight,
     lr_Amount := lu_Amount v, lr_Asset := lu_Asset v, lr_Owner := lu_Owner v, lr_Type := lu_Type v\<rparr>"

fun ingest_rows :: "ledgerSystem \<Rightarrow> LedgerRecord list \<Rightarrow> dbs \<Rightarrow> unit ledger_call" where
  "ingest_rows ls [] s = Some ((), s)"
| "ingest_rows ls (r # rs) s = do {
     (_, s) \<leftarrow> storeLedgerOrFail ls [r] s;
     ingest_rows ls rs s
   }"

fun ingest_actions :: "ledgerSystem \<Rightarrow> ActionRecord list \<Rightarrow> dbs \<Rightarrow> unit ledger_call" where
  "ingest_actions ls [] s = Some ((), s)"
| "ingest_actions ls (v # vs) s = do {
     A \<leftarrow> sy_ActionsDb ls;
     ingest_actions ls vs (StoreAction A v s)
   }"

definition IngestOplog :: "ledgerSystem \<Rightarrow> OpLogEvent list \<Rightarrow> uint64 \<Rightarrow> uint64 \<Rightarrow> dbs \<Rightarrow> unit ledger_call" where
  "IngestOplog ls oplog startHeight endHeight s = do {
     let executeResults = ExecuteOplog oplog startHeight endHeight;
     (_, s) \<leftarrow> ingest_rows ls (map (ingest_record endHeight) (ledgerRecords executeResults)) s;
     ingest_actions ls (actionRecords executeResults) s
   }"

section \<open>Indexing the gateway's reports\<close>

definition HBD_UNSTAKE_BLOCKS :: uint64 where
  "HBD_UNSTAKE_BLOCKS = 86400"

record ActionUpdate =
  au_Ops :: "string list"
  au_ClearedOps :: string

record ExtraInfo =
  ex_BlockHeight :: uint64
  ex_ActionId :: string

text \<open>The URL alphabet of base64 without padding; line breaks are skipped, and the bytes before an
  illegal quantum are returned together with an error the caller ignores.\<close>

definition b64_digit :: "char \<Rightarrow> nat option" where
  "b64_digit c =
     (let n = of_char c :: nat in
      if CHR ''A'' \<le> c \<and> c \<le> CHR ''Z'' then Some (n - 65)
      else if CHR ''a'' \<le> c \<and> c \<le> CHR ''z'' then Some (n - 97 + 26)
      else if CHR ''0'' \<le> c \<and> c \<le> CHR ''9'' then Some (n - 48 + 52)
      else if c = CHR ''-'' then Some 62
      else if c = CHR ''_'' then Some 63
      else None)"

fun b64_quanta :: "string \<Rightarrow> nat list" where
  "b64_quanta (a # b # c # d # rest) =
     (case (b64_digit a, b64_digit b, b64_digit c, b64_digit d) of
        (Some w, Some x, Some y, Some z) \<Rightarrow>
          (let v = w * 2 ^ 18 + x * 2 ^ 12 + y * 2 ^ 6 + z
           in [v div 2 ^ 16, v div 2 ^ 8 mod 256, v mod 256] @ b64_quanta rest)
      | _ \<Rightarrow> [])"
| "b64_quanta [a, b, c] =
     (case (b64_digit a, b64_digit b, b64_digit c) of
        (Some w, Some x, Some y) \<Rightarrow>
          (let v = w * 2 ^ 18 + x * 2 ^ 12 + y * 2 ^ 6 in [v div 2 ^ 16, v div 2 ^ 8 mod 256])
      | _ \<Rightarrow> [])"
| "b64_quanta [a, b] =
     (case (b64_digit a, b64_digit b) of
        (Some w, Some x) \<Rightarrow> [(w * 2 ^ 18 + x * 2 ^ 12) div 2 ^ 16]
      | _ \<Rightarrow> [])"
| "b64_quanta _ = []"

definition DecodeString :: "string \<Rightarrow> nat list" where
  "DecodeString s = b64_quanta (filter (\<lambda>c. c \<noteq> CHR 0x0A \<and> c \<noteq> CHR 0x0D) s)"

definition SetBytes :: "nat list \<Rightarrow> nat" where
  "SetBytes bytes = foldl (\<lambda>v b. 256 * v + b) 0 bytes"

definition Bit :: "nat \<Rightarrow> nat \<Rightarrow> bool" where
  "Bit bs idx \<longleftrightarrow> odd (bs div 2 ^ idx)"

text \<open>A retried read of an action, for which an absent document is a result.\<close>

definition get_or_absent :: "ActionRecord collection \<Rightarrow> string \<Rightarrow> dbs \<Rightarrow> (db_error + ActionRecord option) \<times> dbs" where
  "get_or_absent A i s =
     (case Get A i s of
        (Inr r, s) \<Rightarrow> (Inr (Some r), s)
      | (Inl NoDocuments, s) \<Rightarrow> (Inr None, s)
      | (Inl e, s) \<Rightarrow> (Inl e, s))"

definition stake_credit :: "ExtraInfo \<Rightarrow> ActionRecord \<Rightarrow> LedgerRecord" where
  "stake_credit extraInfo rec = LedgerRecord_zero\<lparr>lr_Id := ar_Id rec @ ''#out'', lr_Amount := ar_Amount rec,
     lr_Asset := ''hbd_savings'', lr_Owner := ar_To rec, lr_Type := ''stake'',
     lr_BlockHeight := ex_BlockHeight extraInfo + 1, lr_BIdx := - 1, lr_OpIdx := - 1\<rparr>"

definition unstake_credit :: "ExtraInfo \<Rightarrow> bool \<Rightarrow> ActionRecord \<Rightarrow> LedgerRecord" where
  "unstake_credit extraInfo cleared rec =
     (let blockDelay = (if cleared then 1 else HBD_UNSTAKE_BLOCKS) in
      LedgerRecord_zero\<lparr>lr_Id := ar_Id rec @ ''#out'', lr_Amount := ar_Amount rec,
        lr_Asset := ''hbd'', lr_Owner := ar_To rec, lr_Type := ''unstake'',
        lr_BlockHeight := ex_BlockHeight extraInfo + blockDelay, lr_BIdx := - 1, lr_OpIdx := - 1\<rparr>)"

definition index_action :: "ledgerSystem \<Rightarrow> ExtraInfo \<Rightarrow> bool \<Rightarrow> string \<Rightarrow> dbs \<Rightarrow> unit ledger_call" where
  "index_action ls extraInfo cleared i s = do {
     A \<leftarrow> sy_ActionsDb ls;
     (record, s) \<leftarrow> (case Get A i s of
         (Inr r, s) \<Rightarrow> Some (Some r, s)
       | (Inl NoDocuments, s) \<Rightarrow> Some (None, s)
       | (Inl e, s) \<Rightarrow> blockingRetry (get_or_absent A i) s);
     case record of
       None \<Rightarrow> Some ((), s)
     | Some rec \<Rightarrow> do {
         (_, s) \<leftarrow>
           (if ar_Type rec = ''stake'' then do {
              L \<leftarrow> sy_LedgerDb ls;
              blockingRetry (StoreLedger L [stake_credit extraInfo rec]) s
            }
            else if ar_Type rec = ''unstake'' then do {
              L \<leftarrow> sy_LedgerDb ls;
              blockingRetry (StoreLedger L [unstake_credit extraInfo cleared rec]) s
            }
            else Some ((), s));
         Some ((), ExecuteComplete A (Some (ex_ActionId extraInfo)) [i] s)
       }
   }"

fun index_actions :: "ledgerSystem \<Rightarrow> ExtraInfo \<Rightarrow> nat \<Rightarrow> nat \<Rightarrow> string list \<Rightarrow> dbs \<Rightarrow> unit ledger_call" where
  "index_actions ls extraInfo bs idx [] s = Some ((), s)"
| "index_actions ls extraInfo bs idx (i # ids) s = do {
     (_, s) \<leftarrow> index_action ls extraInfo (Bit bs idx) i s;
     index_actions ls extraInfo bs (Suc idx) ids s
   }"

definition IndexActions :: "ledgerSystem \<Rightarrow> ActionUpdate \<Rightarrow> ExtraInfo \<Rightarrow> dbs \<Rightarrow> unit ledger_call" where
  "IndexActions ls actionUpdate extraInfo s =
     index_actions ls extraInfo (SetBytes (DecodeString (au_ClearedOps actionUpdate))) 0 (au_Ops actionUpdate) s"

section \<open>The oplog on the ledger\<close>

locale action_ledger = ledger_collection L for L :: "LedgerRecord collection" +
  fixes ls :: ledgerSystem and A :: "ActionRecord collection"
  assumes handles: "sy_LedgerDb ls = Some L" "sy_ActionsDb ls = Some A"
begin

lemma ingest_rows_stores:
  assumes "ids_unique (contents s)"
  shows "\<exists>s'. ingest_rows ls rs s = Some ((), s') \<and> stored rs s s'"
  using assms
proof (induction rs arbitrary: s)
  case Nil
  then show ?case using stored_refl [of s "faults s"] by simp
next
  case (Cons r rs)
  obtain s1 where 1: "storeLedgerOrFail ls [r] s = Some ((), s1)" "stored [r] s s1"
    using store_blocks_until_stored [OF Cons.prems, of "[r]"] by (auto simp: storeLedgerOrFail_def handles)
  obtain s2 where 2: "ingest_rows ls rs s1 = Some ((), s2)" "stored rs s1 s2"
    using Cons.IH [OF storedD(1) [OF 1(2)]] by blast
  show ?case using 1(1) 2(1) stored_trans [OF 1(2) 2(2)] by simp
qed

lemma ingest_actions_keeps:
  "\<exists>s'. ingest_actions ls vs s = Some ((), s') \<and> ledger_of s' = ledger_of s \<and> balances_of s' = balances_of s \<and>
     (ids_unique (contents s') \<longleftrightarrow> ids_unique (contents s))"
proof (induction vs arbitrary: s)
  case (Cons v vs)
  have "ledger_of (StoreAction A v s) = ledger_of s" "balances_of (StoreAction A v s) = balances_of s"
    by (auto simp: StoreAction_def db_call_def split: list.split call_outcome.split)
  with Cons.IH [of "StoreAction A v s"] show ?case by (auto simp: handles ids_unique_def)
qed simp

lemma ingest_effect:
  assumes "ids_unique (contents s)"
  shows "\<exists>s'. IngestOplog ls oplog st h s = Some ((), s') \<and> ids_unique (contents s') \<and>
    mset (ledger_of s') = puts lr_Id (map (ingest_record h) (ledgerRecords (ExecuteOplog oplog st h))) (mset (ledger_of s)) \<and>
    balances_of s' = balances_of s"
proof -
  let ?r = "ExecuteOplog oplog st h"
  obtain s1 where s1: "ingest_rows ls (map (ingest_record h) (ledgerRecords ?r)) s = Some ((), s1)"
    "stored (map (ingest_record h) (ledgerRecords ?r)) s s1"
    using ingest_rows_stores [OF assms] by blast
  obtain s2 where "ingest_actions ls (actionRecords ?r) s1 = Some ((), s2)" "ledger_of s2 = ledger_of s1"
    "balances_of s2 = balances_of s1" "ids_unique (contents s2) \<longleftrightarrow> ids_unique (contents s1)"
    using ingest_actions_keeps [of "actionRecords ?r" s1] by blast
  with s1 storedD [OF s1(2)] show ?thesis by (simp add: IngestOplog_def)
qed

end

text \<open>The rows of a coin on the ledger, as \<open>coin_rows\<close> counts them in an oplog.\<close>

definition coin_net :: "string \<Rightarrow> LedgerRecord list \<Rightarrow> int64" where
  "coin_net k rows = net_rows (\<lambda>r. coin (lr_Asset r) = k) rows"

lemma net_rows_puts_fresh:
  assumes "mset rows' = puts lr_Id rs (mset rows)" "distinct (map lr_Id rs)" "lr_Id ` set rs \<inter> lr_Id ` set rows = {}"
  shows "net_rows P rows' = net_rows P rows + net_rows P rs"
proof -
  have "filter_mset (\<lambda>x. lr_Id x \<notin> lr_Id ` set rs) (mset rows) = mset rows"
    using assms(3) by (subst filter_mset_eq_conv) auto
  then have "mset rows' = mset (rows @ rs)"
    using assms(1) by (simp add: puts_eq last_writes_distinct [OF assms(2)])
  from net_rows_mset [OF this, of P] show ?thesis by (simp add: net_rows_def)
qed

lemma ingest_coin_rows: "net_rows (\<lambda>r. coin (lr_Asset r) = k) (map (ingest_record h) us) = coin_rows k us"
  by (induction us) (auto simp: net_rows_def coin_rows_def ingest_record_def)


definition action_system :: ledgerSystem where
  "action_system = \<lparr>sy_BalanceDb = Some list_collection, sy_LedgerDb = Some list_collection,
     sy_ClaimDb = Some list_collection, sy_ActionsDb = Some list_collection\<rparr>"

interpretation list_actions: action_ledger list_collection action_system list_collection
  by unfold_locales (simp_all add: action_system_def)

definition savings_event :: OpLogEvent where
  "savings_event = OpLogEvent_zero\<lparr>ev_Id := ''tx1'', ev_From := ''hive:alice'', ev_To := ''hive:alice'', ev_Amount := 40,
     ev_Asset := ''hbd'', ev_Type := ''stake''\<rparr>"

definition no_docs :: ledger_dbs where
  "no_docs = \<lparr>ledger_c = [], balances_c = [], actions_c = [], claims_c = []\<rparr>"


section \<open>Crediting executed actions\<close>

text \<open>The part of an action its settlement depends on; marking it complete does not change it.\<close>

definition core :: "ActionRecord \<Rightarrow> int64 \<times> string \<times> string" where
  "core a = (ar_Amount a, ar_To a, ar_Type a)"

definition cores :: "ledger_dbs \<Rightarrow> string \<rightharpoonup> int64 \<times> string \<times> string" where
  "cores c = map_of (map (\<lambda>a. (ar_Id a, core a)) (actions_c c))"

definition actions_keyed :: "ledger_dbs \<Rightarrow> bool" where
  "actions_keyed c \<longleftrightarrow> distinct (map ar_Id (actions_c c))"

text \<open>The credit an indexed action puts on the ledger.\<close>

definition credit_row :: "ExtraInfo \<Rightarrow> bool \<Rightarrow> string \<Rightarrow> int64 \<times> string \<times> string \<Rightarrow> LedgerRecord list" where
  "credit_row info cleared i v =
     (case v of (amt, to, ty) \<Rightarrow>
        let a = ActionRecord_zero\<lparr>ar_Id := i, ar_Amount := amt, ar_To := to, ar_Type := ty\<rparr>
        in if ty = ''stake'' then [stake_credit info a]
           else if ty = ''unstake'' then [unstake_credit info cleared a] else [])"

definition credit_rows :: "ExtraInfo \<Rightarrow> nat \<Rightarrow> nat \<Rightarrow> string list \<Rightarrow> ledger_dbs \<Rightarrow> LedgerRecord list" where
  "credit_rows info bs k ids c = concat (map (\<lambda>(idx, i). case cores c i of None \<Rightarrow> [] | Some v \<Rightarrow> credit_row info (Bit bs idx) i v)
     (zip [k..<k + length ids] ids))"

lemma credit_rows_Cons:
  "credit_rows info bs k (i # ids) c =
     (case cores c i of None \<Rightarrow> [] | Some v \<Rightarrow> credit_row info (Bit bs k) i v) @ credit_rows info bs (Suc k) ids c"
  by (simp add: credit_rows_def upt_conv_Cons del: upt_Suc)

lemma cores_cong:
  assumes "actions_keyed c" "mset (map (\<lambda>a. (ar_Id a, core a)) (actions_c c')) = mset (map (\<lambda>a. (ar_Id a, core a)) (actions_c c))"
  shows "actions_keyed c'" "cores c' = cores c"
proof -
  have "mset (map ar_Id (actions_c c')) = mset (map ar_Id (actions_c c))"
    using arg_cong [OF assms(2), of "image_mset fst"] by (simp add: image_mset.compositionality comp_def)
  with assms(1) show k: "actions_keyed c'" unfolding actions_keyed_def by (metis mset_eq_imp_distinct_iff)
  have "map_of (map (\<lambda>a. (ar_Id a, core a)) (actions_c c')) = map_of (map (\<lambda>a. (ar_Id a, core a)) (actions_c c))"
    using k assms(1) mset_eq_setD [OF assms(2)]
    by (intro map_of_inject_set [THEN iffD2]) (simp_all add: actions_keyed_def comp_def)
  then show "cores c' = cores c" by (simp add: cores_def)
qed

lemma find_one_core:
  assumes "mongo_collection A" "actions_keyed c"
  shows "FindOne A (\<lambda>a. ar_Id a = i) any_order (actions_c c) = None \<Longrightarrow> cores c i = None"
    and "FindOne A (\<lambda>a. ar_Id a = i) any_order (actions_c c) = Some a \<Longrightarrow> cores c i = Some (core a) \<and> ar_Id a = i"
proof -
  show "cores c i = None" if "FindOne A (\<lambda>a. ar_Id a = i) any_order (actions_c c) = None"
    using that mongo_collection.find_one_none [OF assms(1)] by (auto simp: cores_def map_of_eq_None_iff)
  assume "FindOne A (\<lambda>a. ar_Id a = i) any_order (actions_c c) = Some a"
  then have "a \<in> set (actions_c c)" "ar_Id a = i" using mongo_collection.find_one_some [OF assms(1)] by auto
  with assms(2) show "cores c i = Some (core a) \<and> ar_Id a = i"
    by (auto simp: cores_def actions_keyed_def map_of_eq_Some_iff comp_def)
qed

lemma complete_keeps:
  assumes "mongo_collection A"
  shows "ledger_of (ExecuteComplete A t ids s) = ledger_of s" "balances_of (ExecuteComplete A t ids s) = balances_of s"
    "mset (map (\<lambda>a. (ar_Id a, core a)) (actions_of (ExecuteComplete A t ids s))) =
      mset (map (\<lambda>a. (ar_Id a, core a)) (actions_of s))"
proof -
  have "image_mset (\<lambda>a. (ar_Id a, core a)) (mset (UpdateMany A P (complete_action t) xs)) =
      image_mset (\<lambda>a. (ar_Id a, core a)) (mset xs)" for P xs
    unfolding mongo_collection.update_many [OF assms] image_mset.compositionality
    by (rule image_mset_cong) (auto simp: complete_action_def core_def split: option.split)
  then show "ledger_of (ExecuteComplete A t ids s) = ledger_of s" "balances_of (ExecuteComplete A t ids s) = balances_of s"
    "mset (map (\<lambda>a. (ar_Id a, core a)) (actions_of (ExecuteComplete A t ids s))) =
      mset (map (\<lambda>a. (ar_Id a, core a)) (actions_of s))"
    by (auto simp: ExecuteComplete_def db_call_def split: list.split call_outcome.split)
qed

lemma get_attempt:
  "(\<exists>fs. get_or_absent A i s = (Inr (FindOne A (\<lambda>a. ar_Id a = i) any_order (actions_of s)), s\<lparr>faults := fs\<rparr>)) \<or>
   (\<exists>e fs. get_or_absent A i s = (Inl e, s\<lparr>faults := fs\<rparr>) \<and> length fs < length (faults s))"
proof (rule db_read_attempt [of "\<lambda>c. FindOne A (\<lambda>a. ar_Id a = i) any_order (actions_c c)" s])
  fix fs assume "db_read (\<lambda>c. FindOne A (\<lambda>a. ar_Id a = i) any_order (actions_c c)) s =
    (Inr (FindOne A (\<lambda>a. ar_Id a = i) any_order (actions_of s)), s\<lparr>faults := fs\<rparr>)"
  then show ?thesis
    by (intro disjI1 exI [of _ fs]) (simp add: get_or_absent_def Get_def split: option.split)
next
  fix fs assume "db_read (\<lambda>c. FindOne A (\<lambda>a. ar_Id a = i) any_order (actions_c c)) s = (Inl DbFault, s\<lparr>faults := fs\<rparr>)"
    "length fs < length (faults s)"
  then show ?thesis
    by (intro disjI2 exI [of _ DbFault] exI [of _ fs]) (simp add: get_or_absent_def Get_def)
qed

lemma get_blocks:
  "\<exists>fs. blockingRetry (get_or_absent A i) s =
     Some (FindOne A (\<lambda>a. ar_Id a = i) any_order (actions_of s), s\<lparr>faults := fs\<rparr>)"
  unfolding blockingRetry_def
  by (rule retry_attempts [where c = "contents s"]) (metis get_attempt, rule refl)

lemma index_get:
  "\<exists>fs. (case Get A i s of
       (Inr r, s) \<Rightarrow> Some (Some r, s)
     | (Inl NoDocuments, s) \<Rightarrow> Some (None, s)
     | (Inl e, s) \<Rightarrow> blockingRetry (get_or_absent A i) s) =
     Some (FindOne A (\<lambda>a. ar_Id a = i) any_order (actions_of s), s\<lparr>faults := fs\<rparr>)"
proof (rule db_read_attempt [of "\<lambda>c. FindOne A (\<lambda>a. ar_Id a = i) any_order (actions_c c)" s])
  fix fs assume "db_read (\<lambda>c. FindOne A (\<lambda>a. ar_Id a = i) any_order (actions_c c)) s =
    (Inr (FindOne A (\<lambda>a. ar_Id a = i) any_order (actions_of s)), s\<lparr>faults := fs\<rparr>)"
  then show ?thesis by (intro exI [of _ fs]) (simp add: Get_def split: option.split)
next
  fix fs assume "db_read (\<lambda>c. FindOne A (\<lambda>a. ar_Id a = i) any_order (actions_c c)) s = (Inl DbFault, s\<lparr>faults := fs\<rparr>)"
  then show ?thesis using get_blocks [of A i "s\<lparr>faults := fs\<rparr>"] by (simp add: Get_def)
qed

text \<open>A step of the loop and the loop: what they put on the ledger, and what they leave alone.\<close>

definition indexed :: "LedgerRecord list \<Rightarrow> dbs \<Rightarrow> dbs \<Rightarrow> bool" where
  "indexed rs s s' \<longleftrightarrow> ids_unique (contents s') \<and> actions_keyed (contents s') \<and> cores (contents s') = cores (contents s) \<and>
     mset (ledger_of s') = puts lr_Id rs (mset (ledger_of s)) \<and> balances_of s' = balances_of s"

lemma indexed_trans: "indexed rs s s1 \<Longrightarrow> indexed rs' s1 s2 \<Longrightarrow> indexed (rs @ rs') s s2"
  by (simp add: indexed_def puts_append)

lemma credit_row_core: "ar_Id a = i \<Longrightarrow> credit_row info b i (core a) =
    (if ar_Type a = ''stake'' then [stake_credit info a] else if ar_Type a = ''unstake'' then [unstake_credit info b a] else [])"
  by (simp add: credit_row_def core_def stake_credit_def unstake_credit_def)

context action_ledger
begin

lemma index_step:
  assumes A: "mongo_collection A" and s: "ids_unique (contents s)" "actions_keyed (contents s)"
  shows "\<exists>s'. index_action ls info b i s = Some ((), s') \<and>
    indexed (case cores (contents s) i of None \<Rightarrow> [] | Some v \<Rightarrow> credit_row info b i v) s s'"
proof -
  obtain fs where g: "(case Get A i s of (Inr r, s) \<Rightarrow> Some (Some r, s) | (Inl NoDocuments, s) \<Rightarrow> Some (None, s)
     | (Inl e, s) \<Rightarrow> blockingRetry (get_or_absent A i) s) =
     Some (FindOne A (\<lambda>a. ar_Id a = i) any_order (actions_of s), s\<lparr>faults := fs\<rparr>)"
    using index_get by blast
  show ?thesis
  proof (cases "FindOne A (\<lambda>a. ar_Id a = i) any_order (actions_of s)")
    case None
    with g s find_one_core(1) [OF A s(2) None] show ?thesis
      by (intro exI [of _ "s\<lparr>faults := fs\<rparr>"]) (simp add: index_action_def handles indexed_def)
  next
    case (Some a)
    note a = find_one_core(2) [OF A s(2) Some]
    let ?rs = "credit_row info b i (core a)"
    obtain s1 where s1: "(if ar_Type a = ''stake'' then blockingRetry (StoreLedger L [stake_credit info a]) (s\<lparr>faults := fs\<rparr>)
        else if ar_Type a = ''unstake'' then blockingRetry (StoreLedger L [unstake_credit info b a]) (s\<lparr>faults := fs\<rparr>)
        else Some ((), s\<lparr>faults := fs\<rparr>)) = Some ((), s1)" "stored ?rs s s1"
    proof (cases "ar_Type a = ''stake'' \<or> ar_Type a = ''unstake''")
      case True
      then obtain r where r: "?rs = [r]" "r = (if ar_Type a = ''stake'' then stake_credit info a else unstake_credit info b a)"
        using a by (auto simp: credit_row_core)
      show ?thesis using that store_blocks_until_stored [of "s\<lparr>faults := fs\<rparr>" "[r]"] s(1) True r by auto
    next
      case False
      then show ?thesis using that [of "s\<lparr>faults := fs\<rparr>"] stored_refl [OF s(1), of fs] a by (simp add: credit_row_core)
    qed
    let ?s2 = "ExecuteComplete A (Some (ex_ActionId info)) [i] s1"
    have "cores (contents s1) = cores (contents s)" "actions_keyed (contents s1)"
      using s(2) storedD(4) [OF s1(2)] by (simp_all add: cores_def actions_keyed_def)
    then have "indexed ?rs s ?s2"
      using storedD [OF s1(2)] complete_keeps [OF A, of "Some (ex_ActionId info)" "[i]" s1]
        cores_cong [of "contents s1" "contents ?s2"] by (simp add: indexed_def ids_unique_def)
    moreover have "index_action ls info b i s = Some ((), ?s2)"
      using g Some s1(1) by (auto simp: index_action_def handles split: if_splits)
    ultimately show ?thesis using a by simp
  qed
qed

lemma index_all:
  assumes "mongo_collection A" "ids_unique (contents s)" "actions_keyed (contents s)"
  shows "\<exists>s'. index_actions ls info bs k ids s = Some ((), s') \<and> indexed (credit_rows info bs k ids (contents s)) s s'"
  using assms(2,3)
proof (induction ids arbitrary: k s)
  case Nil
  then show ?case by (simp add: indexed_def credit_rows_def)
next
  case (Cons i ids)
  obtain s1 where 1: "index_action ls info (Bit bs k) i s = Some ((), s1)"
    "indexed (case cores (contents s) i of None \<Rightarrow> [] | Some v \<Rightarrow> credit_row info (Bit bs k) i v) s s1"
    using index_step [OF assms(1) Cons.prems] by blast
  then have u: "ids_unique (contents s1)" "actions_keyed (contents s1)" "cores (contents s1) = cores (contents s)"
    by (simp_all add: indexed_def)
  obtain s2 where 2: "index_actions ls info bs (Suc k) ids s1 = Some ((), s2)"
    "indexed (credit_rows info bs (Suc k) ids (contents s1)) s1 s2"
    using Cons.IH [OF u(1,2)] by blast
  have "credit_rows info bs (Suc k) ids (contents s1) = credit_rows info bs (Suc k) ids (contents s)"
    by (simp add: credit_rows_def u(3))
  then show ?case
    unfolding credit_rows_Cons using 1(1) 2(1) indexed_trans [OF 1(2) 2(2)] by simp
qed

end

definition out_id :: "string \<Rightarrow> string" where
  "out_id i = i @ ''#out''"

lemma out_id_inj: "inj out_id"
  by (simp add: out_id_def inj_def)

definition owed_credit :: "ledger_dbs \<Rightarrow> string \<Rightarrow> int64" where
  "owed_credit c i = (case cores c i of None \<Rightarrow> 0 | Some (amt, to, ty) \<Rightarrow> if ty = ''stake'' \<or> ty = ''unstake'' then amt else 0)"

lemma credit_row_facts:
  "r \<in> set (credit_row info b i v) \<Longrightarrow> lr_Id r = out_id i \<and> (lr_Asset r = ''hbd'' \<or> lr_Asset r = ''hbd_savings'')"
  by (auto simp: credit_row_def stake_credit_def unstake_credit_def zero_records Let_def out_id_def split: prod.splits if_splits)

lemma credit_part_ids:
  "lr_Id ` set (case v of None \<Rightarrow> [] | Some v \<Rightarrow> credit_row info b i v) \<subseteq> {out_id i}"
  by (cases v) (auto dest: credit_row_facts)

lemma credit_rows_ids: "lr_Id ` set (credit_rows info bs k ids c) \<subseteq> out_id ` set ids"
proof (induction ids arbitrary: k)
  case Nil
  show ?case by (simp add: credit_rows_def)
next
  case (Cons i ids)
  show ?case
    unfolding credit_rows_Cons set_append image_Un list.set(2) image_insert
    using Cons.IH [of "Suc k"] credit_part_ids [where v = "cores c i" and b = "Bit bs k"] by blast
qed

lemma credit_rows_distinct: "distinct ids \<Longrightarrow> distinct (map lr_Id (credit_rows info bs k ids c))"
proof (induction ids arbitrary: k)
  case Nil
  show ?case by (simp add: credit_rows_def)
next
  case (Cons i ids)
  let ?r = "case cores c i of None \<Rightarrow> [] | Some v \<Rightarrow> credit_row info (Bit bs k) i v"
  have "distinct (map lr_Id ?r)"
    by (auto simp: credit_row_def Let_def split: option.split prod.split)
  moreover have "lr_Id ` set ?r \<inter> lr_Id ` set (credit_rows info bs (Suc k) ids c) = {}"
    using Cons.prems
    by (intro disjoint_single [OF credit_part_ids credit_rows_ids]) (simp add: inj_image_mem_iff [OF out_id_inj])
  ultimately show ?case
    unfolding credit_rows_Cons map_append distinct_append set_map using Cons by simp
qed

lemma credit_rows_net: "coin_net ''hbd'' (credit_rows info bs k ids c) = sum_list (map (owed_credit c) ids)"
proof (induction ids arbitrary: k)
  case Nil
  show ?case by (simp add: credit_rows_def coin_net_def net_rows_def)
next
  case (Cons i ids)
  have "coin_net ''hbd'' (case cores c i of None \<Rightarrow> [] | Some v \<Rightarrow> credit_row info (Bit bs k) i v) = owed_credit c i"
    by (auto simp: owed_credit_def coin_net_def net_rows_def credit_row_def stake_credit_def unstake_credit_def
        coin_def zero_records Let_def split: option.split prod.split)
  then show ?case using Cons.IH [of "Suc k"] by (simp add: credit_rows_Cons coin_net_def net_rows_def)
qed


definition staked_dbs :: ledger_dbs where
  "staked_dbs = no_docs\<lparr>actions_c := actionRecords (ExecuteOplog [savings_event] 0 10)\<rparr>"


section \<open>A lost obligation\<close>


end
