(* ===== verification/Slash_Spec.thy ===== *)
theory Slash_Spec
  imports Slash
begin

text \<open>
  What slashing promises. The amount of a slash is the exact floor of the bond's fraction; a slash
  is written once, survives a crash between its two records and is never recomputed; a payout
  cannot overdraw the reserve and is idempotent; a round of promotion leaves no matured pending
  row behind and moves its cursor only over rows that are done.
\<close>

section \<open>Reads and writes of the slash operations\<close>

locale slash_ledger = ledger_collection L for L :: "LedgerRecord collection" +
  fixes ls :: ledgerSystem and B :: "BalanceRecord collection"
  assumes handles: "sy_LedgerDb ls = Some L" "sy_BalanceDb ls = Some B"
begin

lemma store_or_fail:
  "ids_unique (contents s) \<Longrightarrow> \<exists>s'. storeLedgerOrFail ls rs s = Some ((), s') \<and> stored rs s s'"
  using store_blocks_until_stored [of s rs] by (simp add: storeLedgerOrFail_def handles)

lemma row_exists:
  "rowExists ls h owner asset i s =
     Some (\<exists>r \<in> set (ledger_of s). range_query owner h h asset [] r \<and> lr_Id r = i,
       s\<lparr>faults := settle (faults s)\<rparr>)"
proof -
  have "blockingRetry (\<lambda>s. and_then (db_read (\<lambda>c. Some (Find L (range_query owner h h asset []) by_height (ledger_c c))) s)
      (\<lambda>rows. case rows of None \<Rightarrow> Inl NilResult | Some rows \<Rightarrow> Inr (\<exists>r \<in> set rows. lr_Id r = i))) s =
    Some (\<exists>r \<in> set (ledger_of s). range_query owner h h asset [] r \<and> lr_Id r = i,
      s\<lparr>faults := settle (faults s)\<rparr>)"
    by (rule blocking_and_then(1)) auto
  then show ?thesis by (simp add: rowExists_def handles GetLedgerRange_def)
qed

lemma recorded_debit:
  assumes "ids_unique (contents s)" "r \<in> set (ledger_of s)" "range_query acct h h ''hive_consensus'' [] r"
  shows "readRecordedDebit ls h acct (lr_Id r) s = Some (- lr_Amount r, s\<lparr>faults := settle (faults s)\<rparr>)"
proof -
  let ?rows = "Find L (range_query acct h h ''hive_consensus'' []) by_height (ledger_of s)"
  have "find (\<lambda>x. lr_Id x = lr_Id r) ?rows \<noteq> None"
    using assms(2,3) by (auto simp: find_None_iff)
  then obtain x where x: "find (\<lambda>x. lr_Id x = lr_Id r) ?rows = Some x" by auto
  then have "x \<in> set ?rows" "lr_Id x = lr_Id r"
    using find_SomeD [OF x] by auto
  then have "x = r"
    using assms(1,2) by (auto simp: ids_unique_def distinct_map inj_on_def)
  with x have f: "find (\<lambda>x. lr_Id x = lr_Id r) ?rows = Some r" by simp
  have "blockingRetry (\<lambda>s. and_then (db_read (\<lambda>c. Some (Find L (range_query acct h h ''hive_consensus'' []) by_height (ledger_c c))) s)
      (\<lambda>rows. case rows of None \<Rightarrow> Inl NilResult | Some rows \<Rightarrow>
         (case find (\<lambda>x. lr_Id x = lr_Id r) rows of None \<Rightarrow> Inl NilResult | Some r \<Rightarrow> Inr (- lr_Amount r)))) s =
    Some (- lr_Amount r, s\<lparr>faults := settle (faults s)\<rparr>)"
    by (rule blocking_and_then(1)) (simp add: f)
  then show ?thesis by (simp add: readRecordedDebit_def handles GetLedgerRange_def)
qed

lemma bond_record:
  "bondRecord ls acct h s = Some (newest_snapshot B (contents s) acct h, s\<lparr>faults := settle (faults s)\<rparr>)"
  by (simp add: bondRecord_def handles GetBalanceRecord_def newest_snapshot_def)

lemma pending_reads:
  "pending_range ls from to ty s =
     Some (Some (Find L (range_query ProtocolSlashPendingBurnAccount from to ''hive'' [[ty]]) by_height (ledger_of s)),
       s\<lparr>faults := settle (faults s)\<rparr>)"
  by (simp add: pending_range_def handles GetLedgerRange_def)

lemma reserve_reads:
  "reserveAvailable ls i s =
     Some (net_rows (\<lambda>r. range_query ProtocolSlashReserveAccount 0 MaxInt64 ''hive''
         [[LedgerTypeSafetySlashReserve, LedgerTypeReservePayoutDebit]] r \<and> lr_Id r \<noteq> i) (ledger_of s),
       s\<lparr>faults := settle (faults s)\<rparr>)"
  by (simp add: reserveAvailable_def handles GetLedgerRange_def find_net)

end

definition list_system :: ledgerSystem where
  "list_system = \<lparr>sy_BalanceDb = Some list_collection, sy_LedgerDb = Some list_collection,
     sy_ClaimDb = Some list_collection, sy_ActionsDb = Some list_collection\<rparr>"

interpretation list_slash: slash_ledger list_collection list_system list_collection
  by unfold_locales (simp_all add: list_system_def)

lemma stored_ledger:
  assumes "stored rs s s'" "distinct (map lr_Id rs)"
  shows "set (ledger_of s') = {r \<in> set (ledger_of s). lr_Id r \<notin> lr_Id ` set rs} \<union> set rs"
proof -
  have "mset (ledger_of s') = filter_mset (\<lambda>x. lr_Id x \<notin> lr_Id ` set rs) (mset (ledger_of s)) + mset rs"
    using storedD(2) [OF assms(1)] assms(2) by (simp add: puts_eq last_writes_distinct)
  then have "set_mset (mset (ledger_of s')) =
      set_mset (filter_mset (\<lambda>x. lr_Id x \<notin> lr_Id ` set rs) (mset (ledger_of s)) + mset rs)" by simp
  then show ?thesis by auto
qed

lemma stored_second:
  assumes st: "stored [d, c] s s'" and ids: "ids_unique (contents s)" "lr_Id d \<noteq> lr_Id c"
    and d: "d \<in> set (ledger_of s)" and c: "\<forall>r \<in> set (ledger_of s). lr_Id r \<noteq> lr_Id c"
  shows "set (ledger_of s') = insert c (set (ledger_of s))"
proof -
  have "set (ledger_of s') = {r \<in> set (ledger_of s). lr_Id r \<notin> lr_Id ` set [d, c]} \<union> set [d, c]"
    by (rule stored_ledger [OF st]) (use ids(2) in simp)
  moreover have "{r \<in> set (ledger_of s). lr_Id r \<notin> lr_Id ` set [d, c]} = set (ledger_of s) - {d}"
    using ids(1) c d by (auto simp: ids_unique_def distinct_map inj_on_def)
  ultimately show ?thesis using d by auto
qed

section \<open>The amount of a slash\<close>

lemma word_of_int_times: "word_of_int x * w = (word_of_int (x * sint w) :: int64)"
  by simp

lemma slash_fraction_floor:
  assumes "0 < sint bond" "0 < sint bps" "sint bps \<le> 10000"
  shows "sint (slash_fraction bond bps) = sint bond * sint bps div 10000"
proof -
  let ?b = "sint bond" and ?k = "sint bps"
  let ?q = "?b div 10000" and ?r = "?b mod 10000"
  have q: "0 \<le> ?q" "?q * 10000 \<le> ?b" using assms(1) by (auto simp: minus_mod_eq_div_mult [symmetric])
  have qk: "?q * ?k \<le> ?q * 10000" using q(1) assms(3) by (simp add: mult_left_mono)
  have r: "0 \<le> ?r" "?r < 10000" by auto
  have rk: "0 \<le> ?r * ?k" "?r * ?k \<le> 10000 * 10000"
    using r assms(2,3) mult_mono [of ?r 10000 ?k 10000] by simp_all
  have bmax: "?b \<le> i64_max" by (rule sint_bounds)
  have "fits_int64 (?r * ?k)" using rk by (simp add: fits_int64_def i64_min_def i64_max_def)
  then have 1: "sint (word_of_int ?r * bps) = ?r * ?k" unfolding word_of_int_times by (rule sint_of_fits)
  have "slash_fraction bond bps = word_of_int ?q * bps + word_of_int (?r * ?k div 10000)"
    unfolding slash_fraction_def
    using assms(1) rk(1) by (simp only: go_rem_nonneg quo_nonneg less_imp_le 1 zero_less_numeral)
  also have "\<dots> = word_of_int (?q * ?k + ?r * ?k div 10000)" by simp
  finally have 2: "slash_fraction bond bps = word_of_int (?q * ?k + ?r * ?k div 10000)" .
  have split: "?b * ?k div 10000 = ?q * ?k + ?r * ?k div 10000"
  proof -
    have "(?q * 10000 + ?r) * ?k = ?r * ?k + (?q * ?k) * 10000" by (simp only: algebra_simps)
    then have "?b * ?k = ?r * ?k + (?q * ?k) * 10000" by (simp only: div_mult_mod_eq)
    then show ?thesis by simp
  qed
  have "?b * ?k div 10000 \<le> ?b"
    using quo_mult_le [of ?b ?k 10000] assms by simp
  moreover have "0 \<le> ?b * ?k div 10000" using assms by (simp add: pos_imp_zdiv_nonneg_iff)
  ultimately have "fits_int64 (?b * ?k div 10000)"
    using bmax by (simp add: fits_int64_def i64_min_def)
  then show ?thesis unfolding 2 split by (rule sint_of_fits)
qed

section \<open>A slash is written once\<close>

definition valid_slash :: "SafetySlashConsensusParams \<Rightarrow> bool" where
  "valid_slash p \<longleftrightarrow> normalizeHiveConsensusAccount (sl_Account p) \<noteq> [] \<and>
     TrimSpace (sl_TxID p) \<noteq> [] \<and> TrimSpace (sl_EvidenceKind p) \<noteq> [] \<and>
     0 < sint (sl_SlashBps p) \<and> sint (sl_SlashBps p) \<le> 10000"

definition slash_pair :: "SafetySlashConsensusParams \<Rightarrow> string \<Rightarrow> int64 \<Rightarrow> LedgerRecord \<Rightarrow> LedgerRecord \<Rightarrow> bool" where
  "slash_pair p acct amt d c \<longleftrightarrow>
     lr_Id d = slash_debit_id p acct \<and> lr_Id c = companion_id p acct \<and>
     lr_Amount d = - amt \<and> lr_Amount c = amt \<and> lr_Owner d = acct \<and> lr_Owner c = companion_owner p \<and>
     lr_Asset d = ''hive_consensus'' \<and> lr_Asset c = ''hive'' \<and>
     lr_BlockHeight d = sl_BlockHeight p \<and> lr_BlockHeight c = sl_BlockHeight p"

lemma slash_records_pair:
  "slash_records p acct amt = Inr rs \<Longrightarrow> 0 < sint amt \<Longrightarrow> \<exists>d c. rs = [d, c] \<and> slash_pair p acct amt d c"
  by (auto simp: slash_records_def slash_pair_def Let_def zero_records split: if_splits)

lemma slash_records_debit:
  "slash_records p acct amt = Inr (d # cs) \<Longrightarrow> 0 < sint amt \<Longrightarrow> \<exists>c. cs = [c] \<and> slash_pair p acct amt d c"
  using slash_records_pair [of p acct amt "d # cs"] by auto

lemma slash_ids: "slash_debit_id p acct \<noteq> companion_id p acct"
  by (auto simp: slash_debit_id_def companion_id_def)

lemma slash_range:
  "range_query owner h h asset [] r \<longleftrightarrow>
     lr_Owner r = owner \<and> lr_BlockHeight r = h \<and> (asset \<noteq> [] \<longrightarrow> lr_Asset r = asset)"
  by (auto simp: range_query_def opType_filter_def)

context slash_ledger
begin

lemma guard_untouched:
  assumes "\<forall>r \<in> set (ledger_of s). lr_Id r \<noteq> slash_debit_id p acct"
  shows "replay_guard ls p acct s = Some (Some 0, s\<lparr>faults := settle (faults s)\<rparr>)"
  using assms by (auto simp: replay_guard_def row_exists)

lemma guard_complete:
  assumes "slash_records p acct amt = Inr rs" "0 < sint amt" "set rs \<subseteq> set (ledger_of s)"
  shows "\<exists>fs. replay_guard ls p acct s = Some (None, s\<lparr>faults := fs\<rparr>)"
proof -
  obtain d c where "rs = [d, c]" "slash_pair p acct amt d c"
    using slash_records_pair [OF assms(1,2)] by blast
  then have "\<exists>r \<in> set (ledger_of s). range_query acct (sl_BlockHeight p) (sl_BlockHeight p) ''hive_consensus'' [] r \<and>
      lr_Id r = slash_debit_id p acct"
    "\<exists>r \<in> set (ledger_of s). range_query (companion_owner p) (sl_BlockHeight p) (sl_BlockHeight p) ''hive'' [] r \<and>
      lr_Id r = companion_id p acct"
    using assms(3) by (auto simp: slash_range slash_pair_def)
  then show ?thesis
    by (intro exI [of _ "settle (settle (faults s))"]) (simp only: replay_guard_def row_exists, simp)
qed

lemma guard_half:
  assumes "ids_unique (contents s)" "slash_records p acct amt = Inr (d # cs)" "0 < sint amt"
    and "d \<in> set (ledger_of s)" "\<forall>r \<in> set (ledger_of s). lr_Id r \<noteq> companion_id p acct"
  shows "\<exists>fs. replay_guard ls p acct s = Some (Some amt, s\<lparr>faults := fs\<rparr>)"
proof -
  have d: "lr_Id d = slash_debit_id p acct" "lr_Owner d = acct" "lr_Asset d = ''hive_consensus''"
    "lr_BlockHeight d = sl_BlockHeight p" "lr_Amount d = - amt"
    using slash_records_debit [OF assms(2,3)] by (auto simp: slash_pair_def)
  have q: "range_query acct (sl_BlockHeight p) (sl_BlockHeight p) ''hive_consensus'' [] d"
    using d by (simp add: slash_range)
  have 1: "\<exists>r \<in> set (ledger_of s). range_query acct (sl_BlockHeight p) (sl_BlockHeight p) ''hive_consensus'' [] r \<and>
      lr_Id r = slash_debit_id p acct"
    using q d(1) assms(4) by blast
  have 2: "\<not> (\<exists>r \<in> set (ledger_of s). range_query (companion_owner p) (sl_BlockHeight p) (sl_BlockHeight p) ''hive'' [] r \<and>
      lr_Id r = companion_id p acct)"
    using assms(5) by blast
  let ?s = "s\<lparr>faults := settle (settle (faults s))\<rparr>"
  have "readRecordedDebit ls (sl_BlockHeight p) acct (slash_debit_id p acct) ?s =
      Some (amt, ?s\<lparr>faults := settle (faults ?s)\<rparr>)"
    using recorded_debit [of ?s d acct "sl_BlockHeight p"] q d assms(1,4) by simp
  then show ?thesis
    by (intro exI [of _ "settle (settle (settle (faults s)))"])
      (simp only: replay_guard_def row_exists, simp add: 1 2)
qed

lemma slash_amount_read:
  assumes "newest_snapshot B (contents s) acct (sl_BlockHeight p) = Some b" "0 < sint (br_HIVE_CONSENSUS b)"
    and "0 < sint (sl_SlashBps p)" "sint (sl_SlashBps p) \<le> 10000"
  shows "derive_slash ls p acct s =
    Some (if sint (br_HIVE_CONSENSUS b) * sint (sl_SlashBps p) div 10000 \<le> 0 then Inl ''slash rounds to zero''
      else Inr (slash_fraction (br_HIVE_CONSENSUS b) (sl_SlashBps p)), s\<lparr>faults := settle (faults s)\<rparr>)"
proof -
  have "sint (br_HIVE_CONSENSUS b) * sint (sl_SlashBps p) div 10000 \<le> sint (br_HIVE_CONSENSUS b)"
    using quo_mult_le [of "sint (br_HIVE_CONSENSUS b)" "sint (sl_SlashBps p)" 10000] assms by simp
  then show ?thesis
    using assms slash_fraction_floor [OF assms(2,3,4)]
    by (simp add: derive_slash_def bond_record no_bond_def record_or_zero_def)
qed

lemma slash_done_before:
  assumes "valid_slash p" "acct = normalizeHiveConsensusAccount (sl_Account p)"
    and "slash_records p acct amt = Inr rs" "0 < sint amt" "set rs \<subseteq> set (ledger_of s)"
  shows "\<exists>fs. SafetySlashConsensusBond ls p s = Some (success ''safety slash already recorded'', s\<lparr>faults := fs\<rparr>)"
  using guard_complete [OF assms(3,4,5)] assms(1,2)
  by (auto simp: SafetySlashConsensusBond_def valid_slash_def handles Let_def)

lemma slash_half_written:
  assumes ids: "ids_unique (contents s)" and p: "valid_slash p" "acct = normalizeHiveConsensusAccount (sl_Account p)"
    and rs: "slash_records p acct amt = Inr (d # cs)" "0 < sint amt"
    and half: "d \<in> set (ledger_of s)" "\<forall>r \<in> set (ledger_of s). lr_Id r \<noteq> companion_id p acct"
  shows "\<exists>s'. SafetySlashConsensusBond ls p s = Some (success ''success'', s') \<and> stored (d # cs) s s'"
proof -
  obtain fs where g: "replay_guard ls p acct s = Some (Some amt, s\<lparr>faults := fs\<rparr>)"
    using guard_half [OF ids rs half] by blast
  obtain s' where "storeLedgerOrFail ls (d # cs) (s\<lparr>faults := fs\<rparr>) = Some ((), s')"
    "stored (d # cs) (s\<lparr>faults := fs\<rparr>) s'"
    using store_or_fail [of "s\<lparr>faults := fs\<rparr>" "d # cs"] ids by auto
  with g p rs show ?thesis
    by (auto simp: SafetySlashConsensusBond_def valid_slash_def handles Let_def stored_def)
qed

lemma slash_fresh:
  assumes ids: "ids_unique (contents s)" and p: "valid_slash p" "acct = normalizeHiveConsensusAccount (sl_Account p)"
    and new: "\<forall>r \<in> set (ledger_of s). lr_Id r \<noteq> slash_debit_id p acct"
    and bond: "newest_snapshot B (contents s) acct (sl_BlockHeight p) = Some b" "0 < sint (br_HIVE_CONSENSUS b)"
    and pos: "0 < sint (br_HIVE_CONSENSUS b) * sint (sl_SlashBps p) div 10000"
    and rs: "slash_records p acct (slash_fraction (br_HIVE_CONSENSUS b) (sl_SlashBps p)) = Inr rs"
  shows "\<exists>s'. SafetySlashConsensusBond ls p s = Some (success ''success'', s') \<and> stored rs s s'"
proof -
  let ?s = "s\<lparr>faults := settle (faults s)\<rparr>"
  have g: "replay_guard ls p acct s = Some (Some 0, ?s)" by (rule guard_untouched [OF new])
  have "derive_slash ls p acct ?s = Some (Inr (slash_fraction (br_HIVE_CONSENSUS b) (sl_SlashBps p)),
      ?s\<lparr>faults := settle (faults ?s)\<rparr>)"
    using slash_amount_read [of ?s acct p b] bond p pos by (simp add: valid_slash_def)
  moreover obtain s' where "storeLedgerOrFail ls rs (?s\<lparr>faults := settle (faults ?s)\<rparr>) = Some ((), s')"
    "stored rs (?s\<lparr>faults := settle (faults ?s)\<rparr>) s'"
    using store_or_fail [of "?s\<lparr>faults := settle (faults ?s)\<rparr>" rs] ids by auto
  ultimately show ?thesis
    using g p rs by (auto simp: SafetySlashConsensusBond_def valid_slash_def handles Let_def stored_def)
qed

end

section \<open>Properties of a slash\<close>

text \<open>
  C8. A slash is crash-safe and never recomputed: once the debit of a slash is on the ledger, a
  replay of the same evidence, whatever the balance snapshots say by then and whatever database
  faults occur, succeeds and leaves both records of that first amount: it changes nothing when the
  residual is there, and adds exactly the missing residual when the first run crashed before it.
\<close>

theorem slash_crash_safe:
  assumes "ledger_collection L" "sy_LedgerDb ls = Some L" "sy_BalanceDb ls = Some B"
    and "ids_unique (contents s)" "valid_slash p" "acct = normalizeHiveConsensusAccount (sl_Account p)"
    and "slash_records p acct amt = Inr [d, c]" "0 < sint amt" "d \<in> set (ledger_of s)"
    and "c \<in> set (ledger_of s) \<or> (\<forall>r \<in> set (ledger_of s). lr_Id r \<noteq> companion_id p acct)"
  shows "\<exists>msg s'. SafetySlashConsensusBond ls p s = Some (success msg, s') \<and>
    set (ledger_of s') = insert c (set (ledger_of s)) \<and> balances_of s' = balances_of s"
proof -
  have w: "slash_ledger L ls B"
    by (rule slash_ledger.intro [OF assms(1)]) (simp add: slash_ledger_axioms_def assms(2,3))
  show ?thesis
  proof (cases "c \<in> set (ledger_of s)")
    case True
    then obtain fs where
      "SafetySlashConsensusBond ls p s = Some (success ''safety slash already recorded'', s\<lparr>faults := fs\<rparr>)"
      using slash_ledger.slash_done_before [OF w assms(5-8), of s] assms(9) by auto
    with True show ?thesis by auto
  next
    case False
    then have no: "\<forall>r \<in> set (ledger_of s). lr_Id r \<noteq> companion_id p acct" using assms(10) by blast
    obtain s' where s': "SafetySlashConsensusBond ls p s = Some (success ''success'', s')" "stored [d, c] s s'"
      using slash_ledger.slash_half_written [OF w assms(4-9) no] by blast
    have i: "lr_Id d = slash_debit_id p acct" "lr_Id c = companion_id p acct"
      using slash_records_debit [OF assms(7,8)] by (auto simp: slash_pair_def)
    have "set (ledger_of s') = insert c (set (ledger_of s))"
      by (rule stored_second [OF s'(2) assms(4) _ assms(9)])
        (use i slash_ids [of p acct] no in simp_all)
    with s' storedD(3) [OF s'(2)] show ?thesis by blast
  qed
qed

text \<open>
  C33. The first slash for a piece of evidence takes exactly the floor of the bond times the basis
  points over 10000, which is at most the bond and is computed without overflow, and moves it: the
  ledger gains the debit of the bond and the same amount on the reserve or the pending account.
\<close>

theorem slash_takes_floor:
  assumes "ledger_collection L" "sy_LedgerDb ls = Some L" "sy_BalanceDb ls = Some B"
    and "ids_unique (contents s)" "valid_slash p" "acct = normalizeHiveConsensusAccount (sl_Account p)"
    and "\<forall>r \<in> set (ledger_of s). lr_Id r \<noteq> slash_debit_id p acct"
    and "newest_snapshot B (contents s) acct (sl_BlockHeight p) = Some b" "0 < sint (br_HIVE_CONSENSUS b)"
    and "amt = slash_fraction (br_HIVE_CONSENSUS b) (sl_SlashBps p)" "0 < sint amt"
    and "slash_records p acct amt = Inr rs"
  shows "sint amt = sint (br_HIVE_CONSENSUS b) * sint (sl_SlashBps p) div 10000 \<and>
    sint amt \<le> sint (br_HIVE_CONSENSUS b) \<and>
    (\<exists>s' d c. SafetySlashConsensusBond ls p s = Some (success ''success'', s') \<and> rs = [d, c] \<and>
      {d, c} \<subseteq> set (ledger_of s') \<and> lr_Owner d = acct \<and> lr_Asset d = ''hive_consensus'' \<and>
      lr_Owner c = companion_owner p \<and> lr_Asset c = ''hive'' \<and> lr_Amount d = - amt \<and> lr_Amount c = amt)"
proof -
  have w: "slash_ledger L ls B"
    by (rule slash_ledger.intro [OF assms(1)]) (simp add: slash_ledger_axioms_def assms(2,3))
  have k: "0 < sint (sl_SlashBps p)" "sint (sl_SlashBps p) \<le> 10000" using assms(5) by (auto simp: valid_slash_def)
  have fl: "sint amt = sint (br_HIVE_CONSENSUS b) * sint (sl_SlashBps p) div 10000"
    using slash_fraction_floor [OF assms(9) k] assms(10) by simp
  have le: "sint amt \<le> sint (br_HIVE_CONSENSUS b)"
    using quo_mult_le [of "sint (br_HIVE_CONSENSUS b)" "sint (sl_SlashBps p)" 10000] assms(9) k fl by simp
  obtain s' where s': "SafetySlashConsensusBond ls p s = Some (success ''success'', s')" "stored rs s s'"
    using slash_ledger.slash_fresh [OF w assms(4-9), of rs] fl assms(10-12) by auto
  obtain d c where dc: "rs = [d, c]" "slash_pair p acct amt d c"
    using slash_records_pair [OF assms(12,11)] by blast
  have "{d, c} \<subseteq> set (ledger_of s')"
    using stored_ledger [OF s'(2)] dc slash_ids [of p acct] by (auto simp: slash_pair_def)
  with fl le s'(1) dc show ?thesis unfolding slash_pair_def by blast
qed

definition example_slash :: SafetySlashConsensusParams where
  "example_slash = \<lparr>sl_Account = ''node'', sl_SlashBps = 1000, sl_TxID = ''t'', sl_BlockHeight = 100,
     sl_EvidenceKind = ''k'', sl_BurnDelayBlocks = 50\<rparr>"

definition slash_row :: "string \<Rightarrow> string \<Rightarrow> string \<Rightarrow> string \<Rightarrow> int64 \<Rightarrow> string \<Rightarrow> LedgerRecord" where
  "slash_row suf owner asset from amt ty = LedgerRecord_zero\<lparr>lr_Id := ''t#safety_slash#k'' @ suf,
     lr_TxId := ''t'', lr_BlockHeight := 100, lr_Amount := amt, lr_Asset := asset, lr_Owner := owner,
     lr_From := from, lr_Type := ty\<rparr>"

definition example_debit :: LedgerRecord where
  "example_debit = slash_row ''#consensus_debit#hive:node'' ''hive:node'' ''hive_consensus'' [] (- 200)
     ''safety_slash_consensus''"

definition example_pending :: LedgerRecord where
  "example_pending = slash_row ''#hive_burn_pending#hive:node'' ''system:protocol_slash_burn_pending'' ''hive''
     ''150'' 200 ''safety_slash_hive_burn_pending''"

definition bonded :: "LedgerRecord list \<Rightarrow> int64 \<Rightarrow> ledger_dbs" where
  "bonded rows bond = \<lparr>ledger_c = rows, balances_c = [BalanceRecord_zero\<lparr>br_Account := ''hive:node'',
     br_BlockHeight := 90, br_HIVE_CONSENSUS := bond\<rparr>], actions_c = [], claims_c = []\<rparr>"

lemmas slash_eval = example_slash_def slash_row_def bonded_def normalizeHiveConsensusAccount_def TrimSpace_def
  isSpace_def HasPrefix_def slash_records_def slash_debit_id_def companion_id_def slash_base_id_def
  companion_owner_def slash_accounts burn_delay_def MaxSafetySlashBurnDelayBlocks_def zero_records ledger_types
  example_debit_def example_pending_def

lemma example_slash_valid:
  "valid_slash example_slash" "normalizeHiveConsensusAccount (sl_Account example_slash) = ''hive:node''"
  by (simp_all add: valid_slash_def slash_eval)

lemma FormatUint_150: "FormatUint 150 = ''150''"
  by code_simp

lemma example_records:
  "slash_records example_slash ''hive:node'' 200 = Inr [example_debit, example_pending]"
  by (simp add: slash_eval FormatUint_150)

theorem slash_crash_safe_witness:
  "\<exists>msg s'. SafetySlashConsensusBond list_system example_slash
      \<lparr>contents = bonded [example_debit] 1800, faults = [ReplyLost, RequestLost]\<rparr> = Some (success msg, s') \<and>
    set (ledger_of s') = {example_pending, example_debit}"
proof -
  let ?s = "\<lparr>contents = bonded [example_debit] 1800, faults = [ReplyLost, RequestLost]\<rparr>"
  have "lr_Id example_debit \<noteq> companion_id example_slash ''hive:node''" by (simp add: slash_eval)
  then show ?thesis
    using slash_crash_safe [OF list_ledger.ledger_collection_axioms list_slash.handles, of ?s example_slash
        "''hive:node''" 200, OF _ example_slash_valid(1) example_slash_valid(2) [symmetric] example_records]
    by (simp add: ids_unique_def bonded_def) blast
qed

theorem slash_takes_floor_witness:
  "\<exists>s'. SafetySlashConsensusBond list_system example_slash
      \<lparr>contents = bonded [] 2000, faults = [ReplyLost, RequestLost]\<rparr> = Some (success ''success'', s') \<and>
    example_debit \<in> set (ledger_of s')"
proof -
  let ?s = "\<lparr>contents = bonded [] 2000, faults = [ReplyLost, RequestLost]\<rparr>"
  let ?b = "BalanceRecord_zero\<lparr>br_Account := ''hive:node'', br_BlockHeight := 90, br_HIVE_CONSENSUS := 2000\<rparr>"
  have b: "newest_snapshot list_collection (contents ?s) ''hive:node'' (sl_BlockHeight example_slash) = Some ?b"
    by (simp add: newest_snapshot_def list_collection_def sort_by_def balance_query_def slash_eval)
  have a: "200 = slash_fraction (br_HIVE_CONSENSUS ?b) (sl_SlashBps example_slash)"
    by (simp add: slash_fraction_def example_slash_def)
  show ?thesis
    using slash_takes_floor [OF list_ledger.ledger_collection_axioms list_slash.handles _ example_slash_valid(1)
        example_slash_valid(2) [symmetric] _ b _ a _ example_records]
    by (auto simp: ids_unique_def bonded_def)
qed

section \<open>The reserve\<close>

definition reserve_row :: "LedgerRecord \<Rightarrow> bool" where
  "reserve_row r = range_query ProtocolSlashReserveAccount 0 MaxInt64 ''hive''
     [[LedgerTypeSafetySlashReserve, LedgerTypeReservePayoutDebit]] r"

definition reserve_net :: "LedgerRecord list \<Rightarrow> int64" where
  "reserve_net rows = net_rows reserve_row rows"

definition payout_credit_id :: "ReservePayoutParams \<Rightarrow> string" where
  "payout_credit_id p = TrimSpace (rp_ProposalID p) @ ''#reserve_payout#credit#'' @
     normalizeHiveConsensusAccount (rp_Recipient p)"

lemma net_rows_stored:
  assumes "stored rs s s'" "distinct (map lr_Id rs)"
  shows "net_rows P (ledger_of s') = net_rows (\<lambda>r. P r \<and> lr_Id r \<notin> lr_Id ` set rs) (ledger_of s) + net_rows P rs"
proof -
  have "mset (ledger_of s') = mset (filter (\<lambda>r. lr_Id r \<notin> lr_Id ` set rs) (ledger_of s) @ rs)"
    using storedD(2) [OF assms(1)] assms(2) by (simp add: puts_eq last_writes_distinct)
  then have "net_rows P (ledger_of s') = net_rows P (filter (\<lambda>r. lr_Id r \<notin> lr_Id ` set rs) (ledger_of s) @ rs)"
    by (rule net_rows_mset)
  then show ?thesis by (simp add: net_rows_def conj_commute)
qed

lemma payout_ids:
  "map lr_Id (payout_records p) = [payout_debit_id p, payout_credit_id p]"
  "payout_debit_id p \<noteq> payout_credit_id p"
  by (auto simp: payout_records_def payout_credit_id_def payout_debit_id_def Let_def)

lemma normalized_account:
  "normalizeHiveConsensusAccount a = [] \<or> HasPrefix (normalizeHiveConsensusAccount a) ''hive:''"
  by (simp add: normalizeHiveConsensusAccount_def Let_def HasPrefix_def)

lemma payout_reserve_rows:
  assumes "rp_BlockHeight p \<le> MaxInt64" "normalizeHiveConsensusAccount (rp_Recipient p) \<noteq> []"
  shows "net_rows reserve_row (payout_records p) = - rp_Amount p"
proof -
  have "normalizeHiveConsensusAccount (rp_Recipient p) \<noteq> ProtocolSlashReserveAccount"
    using normalized_account [of "rp_Recipient p"] assms(2) by (auto simp: HasPrefix_def slash_accounts)
  then show ?thesis
    using assms(1)
    by (simp add: net_rows_def payout_records_def Let_def reserve_row_def range_query_def zero_records)
qed

definition credits_apart :: "ReservePayoutParams \<Rightarrow> LedgerRecord list \<Rightarrow> bool" where
  "credits_apart p rows \<longleftrightarrow> list_all (\<lambda>r. lr_Id r = payout_credit_id p \<longrightarrow> \<not> reserve_row r) rows"

context slash_ledger
begin

lemma payout_stores:
  assumes ids: "ids_unique (contents s)"
    and p: "TrimSpace (rp_ProposalID p) \<noteq> []" "normalizeHiveConsensusAccount (rp_Recipient p) \<noteq> []" "0 < sint (rp_Amount p)"
    and av: "sint (rp_Amount p) \<le> sint (net_rows (\<lambda>r. reserve_row r \<and> lr_Id r \<noteq> payout_debit_id p) (ledger_of s))"
  shows "\<exists>s'. ReservePayout ls p s = Some (success ''reserve payout recorded'', s') \<and> stored (payout_records p) s s'"
proof -
  obtain s' where "storeLedgerOrFail ls (payout_records p) (s\<lparr>faults := settle (faults s)\<rparr>) = Some ((), s')"
    "stored (payout_records p) (s\<lparr>faults := settle (faults s)\<rparr>) s'"
    using store_or_fail [of "s\<lparr>faults := settle (faults s)\<rparr>" "payout_records p"] ids by auto
  with p av show ?thesis
    by (auto simp: ReservePayout_def handles reserve_reads reserve_row_def [symmetric] stored_def)
qed

lemma payout_refuses:
  assumes "sint (rp_Amount p) > sint (net_rows (\<lambda>r. reserve_row r \<and> lr_Id r \<noteq> payout_debit_id p) (ledger_of s))"
  shows "\<exists>msg fs. ReservePayout ls p s = Some (fail msg, s\<lparr>faults := fs\<rparr>)"
  using assms
  by (auto simp: ReservePayout_def handles reserve_reads reserve_row_def [symmetric]
      intro: exI [of _ "faults s"] exI [of _ "settle (faults s)"])

end

lemma payout_reserve_after:
  assumes "stored (payout_records p) s s'" "credits_apart p (ledger_of s)"
    and "rp_BlockHeight p \<le> MaxInt64" "normalizeHiveConsensusAccount (rp_Recipient p) \<noteq> []"
  shows "reserve_net (ledger_of s') =
      net_rows (\<lambda>r. reserve_row r \<and> lr_Id r \<noteq> payout_debit_id p) (ledger_of s) - rp_Amount p"
    and "net_rows (\<lambda>r. reserve_row r \<and> lr_Id r \<noteq> payout_debit_id p) (ledger_of s') =
      net_rows (\<lambda>r. reserve_row r \<and> lr_Id r \<noteq> payout_debit_id p) (ledger_of s)"
proof -
  have d: "distinct (map lr_Id (payout_records p))" using payout_ids [of p] by simp
  have ids: "lr_Id ` set (payout_records p) = {payout_debit_id p, payout_credit_id p}"
    using payout_ids(1) [of p] by (metis list.set(1) list.set(2) list.set_map)
  have same: "net_rows (\<lambda>r. reserve_row r \<and> lr_Id r \<notin> lr_Id ` set (payout_records p)) (ledger_of s) =
      net_rows (\<lambda>r. reserve_row r \<and> lr_Id r \<noteq> payout_debit_id p) (ledger_of s)"
    using assms(2) unfolding ids by (intro net_rows_cong) (auto simp: credits_apart_def list_all_iff)
  show "reserve_net (ledger_of s') =
      net_rows (\<lambda>r. reserve_row r \<and> lr_Id r \<noteq> payout_debit_id p) (ledger_of s) - rp_Amount p"
    using net_rows_stored [OF assms(1) d, of reserve_row] payout_reserve_rows [OF assms(3,4)]
    by (simp add: reserve_net_def same)
  have "net_rows (\<lambda>r. reserve_row r \<and> lr_Id r \<noteq> payout_debit_id p) (payout_records p) = 0"
    using normalized_account [of "rp_Recipient p"] assms(4)
    by (simp add: net_rows_def payout_records_def Let_def reserve_row_def range_query_def zero_records)
      (auto simp: HasPrefix_def slash_accounts)
  moreover have "net_rows (\<lambda>r. (reserve_row r \<and> lr_Id r \<noteq> payout_debit_id p) \<and> lr_Id r \<notin> lr_Id ` set (payout_records p)) (ledger_of s) =
      net_rows (\<lambda>r. reserve_row r \<and> lr_Id r \<notin> lr_Id ` set (payout_records p)) (ledger_of s)"
    unfolding ids by (intro net_rows_cong) auto
  ultimately show "net_rows (\<lambda>r. reserve_row r \<and> lr_Id r \<noteq> payout_debit_id p) (ledger_of s') =
      net_rows (\<lambda>r. reserve_row r \<and> lr_Id r \<noteq> payout_debit_id p) (ledger_of s)"
    using net_rows_stored [OF assms(1) d, of "\<lambda>r. reserve_row r \<and> lr_Id r \<noteq> payout_debit_id p"] same by simp
qed


definition example_payout :: ReservePayoutParams where
  "example_payout = \<lparr>rp_ProposalID = ''prop1'', rp_Recipient = ''alice'', rp_Amount = 150, rp_BlockHeight = 300\<rparr>"

definition reserved :: ledger_dbs where
  "reserved = bonded [slash_row ''#reserve#hive:node'' ''system:protocol_slash_reserve'' ''hive'' [] 200
     ''safety_slash_reserve''] 1800"


section \<open>The finalization cursor\<close>

text \<open>
  A pending row the promotion must reach: it lies on the pending account, is positive and carries
  a maturity. It is done once its marker is on the ledger. The cursor is sound when every such row
  below it is done.
\<close>

definition burn_pending :: "LedgerRecord \<Rightarrow> bool" where
  "burn_pending r \<longleftrightarrow> lr_Owner r = ProtocolSlashPendingBurnAccount \<and> lr_Asset r = ''hive'' \<and>
     lr_Type r = LedgerTypeSafetySlashHiveBurnPending \<and> 0 < sint (lr_Amount r) \<and>
     ParseUint (TrimSpace (lr_From r)) \<noteq> None"

definition marker_id :: "string \<Rightarrow> string" where
  "marker_id i = i @ ''#finalized_marker''"

lemma marker_id_inj [simp]: "marker_id i = marker_id j \<longleftrightarrow> i = j"
  by (simp add: marker_id_def)

definition is_marker :: "string \<Rightarrow> LedgerRecord \<Rightarrow> bool" where
  "is_marker i m \<longleftrightarrow> lr_Id m = marker_id i \<and> lr_Owner m = ProtocolSlashPendingBurnAccount \<and>
     lr_Asset m = ''hive'' \<and> lr_Type m = LedgerTypeSafetySlashHiveBurnPendingFinalized"

definition marked :: "LedgerRecord list \<Rightarrow> string \<Rightarrow> bool" where
  "marked rows i = list_ex (is_marker i) rows"

definition below_done :: "LedgerRecord list \<Rightarrow> uint64 \<Rightarrow> bool" where
  "below_done rows k = list_all (\<lambda>r. burn_pending r \<and> lr_BlockHeight r < k \<longrightarrow> marked rows (lr_Id r)) rows"

definition cursor_row :: "LedgerRecord \<Rightarrow> bool" where
  "cursor_row r = range_query ProtocolSlashFinalizeCursorAccount 0 MaxInt64 ''hive''
     [[LedgerTypeSafetySlashBurnFinalizeCursor]] r"

definition cursor_sound :: "LedgerRecord list \<Rightarrow> bool" where
  "cursor_sound rows = list_all (\<lambda>r. cursor_row r \<longrightarrow>
     (case ParseUint (TrimSpace (lr_From r)) of None \<Rightarrow> True | Some k \<Rightarrow> below_done rows k)) rows"

definition matured_done :: "uint64 \<Rightarrow> LedgerRecord list \<Rightarrow> bool" where
  "matured_done h rows = list_all (\<lambda>r. burn_pending r \<and> lr_BlockHeight r \<le> h \<and>
     (case ParseUint (TrimSpace (lr_From r)) of None \<Rightarrow> False | Some mat \<Rightarrow> mat \<le> h) \<longrightarrow>
     marked rows (lr_Id r)) rows"

lemma cursor_fold:
  "snd (fold cursor_step recs acc) = snd acc \<or>
     (\<exists>r \<in> set recs. ParseUint (TrimSpace (lr_From r)) = Some (snd (fold cursor_step recs acc)))"
proof (induction recs arbitrary: acc)
  case (Cons r recs)
  have "snd (cursor_step r acc) = snd acc \<or> ParseUint (TrimSpace (lr_From r)) = Some (snd (cursor_step r acc))"
    by (auto simp: cursor_step_def split: prod.split option.split)
  with Cons.IH [of "cursor_step r acc"] show ?case by fastforce
qed simp

context slash_ledger
begin

lemma cursor_read:
  assumes "cursor_sound (ledger_of s)"
  shows "\<exists>cur fs. readSafetySlashFinalizeCursor ls s = (cur, s\<lparr>faults := fs\<rparr>) \<and> below_done (ledger_of s) cur"
proof -
  let ?recs = "Find L cursor_row by_height (ledger_of s)"
  have zero: "below_done (ledger_of s) 0" by (simp add: below_done_def list_all_iff)
  have fold: "below_done (ledger_of s) (snd (fold cursor_step ?recs (0, 0)))"
    using cursor_fold [of ?recs "(0, 0)"] assms zero
    by (fastforce simp: cursor_sound_def list_all_iff)
  have q: "range_query ProtocolSlashFinalizeCursorAccount 0 MaxInt64 ''hive'' [[LedgerTypeSafetySlashBurnFinalizeCursor]] = cursor_row"
    by (simp add: cursor_row_def fun_eq_iff)
  show ?thesis
    using zero fold
    by (simp add: readSafetySlashFinalizeCursor_def handles GetLedgerRange_def q db_call_def
        split: list.split call_outcome.split)
      (metis (full_types) server.surjective server.update_convs(2))
qed

end

definition promoted :: "uint64 \<Rightarrow> string list \<Rightarrow> LedgerRecord list \<Rightarrow> LedgerRecord list" where
  "promoted h finished recs =
     concat (map (promotion_records h) (filter (\<lambda>r. row_maturity h finished r = Promote) recs))"

definition min_waiting :: "uint64 \<Rightarrow> string list \<Rightarrow> LedgerRecord list \<Rightarrow> uint64 \<Rightarrow> uint64" where
  "min_waiting h finished recs m = fold (\<lambda>r m. if row_maturity h finished r = NotYet \<and> lr_BlockHeight r < m
     then lr_BlockHeight r else m) recs m"

lemma min_waiting_Cons:
  "min_waiting h finished (x # recs) m = min_waiting h finished recs
     (if row_maturity h finished x = NotYet \<and> lr_BlockHeight x < m then lr_BlockHeight x else m)"
  by (simp add: min_waiting_def)

lemma min_waiting_le: "min_waiting h finished recs m \<le> m"
proof (induction recs arbitrary: m)
  case (Cons x recs)
  show ?case
    unfolding min_waiting_Cons by (rule order_trans [OF Cons.IH]) auto
qed (simp add: min_waiting_def)

lemma min_waiting_below:
  "r \<in> set recs \<Longrightarrow> row_maturity h finished r = NotYet \<Longrightarrow> min_waiting h finished recs m \<le> lr_BlockHeight r"
proof (induction recs arbitrary: m)
  case (Cons x recs)
  show ?case
  proof (cases "r = x")
    case True
    show ?thesis
      unfolding min_waiting_Cons by (rule order_trans [OF min_waiting_le]) (use True Cons.prems in auto)
  next
    case False
    with Cons.prems show ?thesis
      unfolding min_waiting_Cons by (intro Cons.IH) auto
  qed
qed simp

context slash_ledger
begin

lemma finalize_rows_stores:
  assumes "ids_unique (contents s)"
  shows "\<exists>s'. finalize_rows ls h finished recs m s = Some (min_waiting h finished recs m, s') \<and>
    stored (promoted h finished recs) s s'"
  using assms
proof (induction recs arbitrary: m s)
  case Nil
  then show ?case
    using stored_refl [of s "faults s"] by (simp add: promoted_def min_waiting_def)
next
  case (Cons r recs)
  show ?case
  proof (cases "row_maturity h finished r")
    case Promote
    obtain s1 where 1: "storeLedgerOrFail ls (promotion_records h r) s = Some ((), s1)" "stored (promotion_records h r) s s1"
      using store_or_fail [OF Cons.prems] by blast
    obtain s2 where 2: "finalize_rows ls h finished recs m s1 = Some (min_waiting h finished recs m, s2)"
      "stored (promoted h finished recs) s1 s2"
      using Cons.IH [OF storedD(1) [OF 1(2)]] by blast
    show ?thesis
      using Promote 1(1) 2(1) stored_trans [OF 1(2) 2(2)] by (simp add: promoted_def min_waiting_def)
  qed (use Cons.IH [OF Cons.prems] in \<open>simp_all add: promoted_def min_waiting_def\<close>)
qed

end

lemma min_waiting_attained:
  "min_waiting h finished recs m \<noteq> m \<Longrightarrow>
     \<exists>r \<in> set recs. row_maturity h finished r = NotYet \<and> lr_BlockHeight r = min_waiting h finished recs m"
proof (induction recs arbitrary: m)
  case (Cons x recs)
  let ?m = "if row_maturity h finished x = NotYet \<and> lr_BlockHeight x < m then lr_BlockHeight x else m"
  show ?case
  proof (cases "min_waiting h finished recs ?m = ?m")
    case True
    with Cons.prems have "?m \<noteq> m" unfolding min_waiting_Cons by simp
    then have "row_maturity h finished x = NotYet" "?m = lr_BlockHeight x" by (auto split: if_splits)
    with True show ?thesis unfolding min_waiting_Cons by (intro bexI [of _ x]) simp_all
  next
    case False
    from Cons.IH [OF this] show ?thesis unfolding min_waiting_Cons by auto
  qed
qed (simp add: min_waiting_def)

text \<open>
  The rows one call writes: its batch of promotions and the cursor. None of them is a pending row,
  and a row under a marker id is that marker.
\<close>

definition bookkeeping :: "LedgerRecord \<Rightarrow> bool" where
  "bookkeeping r \<longleftrightarrow> \<not> burn_pending r \<and> (\<forall>i. lr_Id r = marker_id i \<longrightarrow> is_marker i r)"

lemma marker_id_apart:
  "j @ ''#pending_release'' \<noteq> marker_id i" "j @ ''#promoted_to_reserve'' \<noteq> marker_id i"
  "safetySlashFinalizeCursorRowID \<noteq> marker_id i"
  by (rule notI, drule arg_cong [where f = "\<lambda>x. take 4 (rev x)"], simp add: safetySlashFinalizeCursorRowID_def marker_id_def)+

lemma promotion_bookkeeping: "r \<in> set (promotion_records h p) \<Longrightarrow> bookkeeping r"
  by (simp add: promotion_records_def marker_id_def [symmetric], elim disjE)
    (simp_all add: bookkeeping_def burn_pending_def is_marker_def zero_records ledger_types
      marker_id_apart slash_accounts)

lemma cursor_bookkeeping: "bookkeeping (cursor_record h k)"
  by (simp add: cursor_record_def bookkeeping_def burn_pending_def zero_records ledger_types slash_accounts
      marker_id_apart)

lemma promoted_bookkeeping: "r \<in> set (promoted h finished recs) \<Longrightarrow> bookkeeping r"
  by (auto simp: promoted_def intro: promotion_bookkeeping)

lemma pending_kept:
  assumes "stored rs s s'" "\<forall>r \<in> set rs. bookkeeping r" "r \<in> set (ledger_of s')" "burn_pending r"
  shows "r \<in> set (ledger_of s)"
  using assms(2-4) last_writes_subset [of rs] by (auto simp: stored_set [OF assms(1)] bookkeeping_def)

lemma marked_iff: "marked rows i \<longleftrightarrow> (\<exists>m \<in> set rows. is_marker i m)"
  by (simp add: marked_def list_ex_iff)

lemma marked_kept:
  assumes "stored rs s s'" "\<forall>r \<in> set rs. bookkeeping r"
    and "marked (ledger_of s) i \<or> marker_id i \<in> lr_Id ` set rs"
  shows "marked (ledger_of s') i"
proof (cases "marker_id i \<in> lr_Id ` set rs")
  case True
  then obtain m where m: "m \<in> set (last_writes lr_Id rs)" "lr_Id m = marker_id i"
    using last_writes_ids [of rs] by (metis imageE)
  then have "bookkeeping m" using assms(2) last_writes_subset by blast
  with m(2) have "is_marker i m" unfolding bookkeeping_def by blast
  with m(1) show ?thesis unfolding marked_iff stored_set [OF assms(1)] by blast
next
  case False
  with assms(3) obtain m where m: "m \<in> set (ledger_of s)" "is_marker i m" unfolding marked_iff by blast
  then have "lr_Id m = marker_id i" unfolding is_marker_def by blast
  with False m show ?thesis unfolding marked_iff stored_set [OF assms(1)] by (intro bexI [of _ m]) simp_all
qed

lemma below_done_kept:
  assumes "stored rs s s'" "\<forall>r \<in> set rs. bookkeeping r" "below_done (ledger_of s) k"
  shows "below_done (ledger_of s') k"
  using assms(3) pending_kept [OF assms(1,2)] marked_kept [OF assms(1,2)] unfolding below_done_def list_all_iff by blast

lemma promoted_marks:
  "r \<in> set recs \<Longrightarrow> row_maturity h finished r = Promote \<Longrightarrow>
     marker_id (lr_Id r) \<in> lr_Id ` set (promoted h finished recs)"
  unfolding promoted_def
  by (rule image_eqI [where x = "promotion_records h r ! 2"]) (auto simp: promotion_records_def marker_id_def)

text \<open>What a call at height \<open>h\<close> with cursor \<open>cur\<close> reads, and the cursor it moves to.\<close>

definition pending_query :: "uint64 \<Rightarrow> uint64 \<Rightarrow> string \<Rightarrow> LedgerRecord \<Rightarrow> bool" where
  "pending_query cur h ty = range_query ProtocolSlashPendingBurnAccount cur h ''hive'' [[ty]]"

definition next_cursor :: "uint64 \<Rightarrow> string list \<Rightarrow> LedgerRecord list \<Rightarrow> uint64" where
  "next_cursor h finished recs =
     (let m = min_waiting h finished recs MaxUint64 in if recs = [] \<or> m = MaxUint64 then h + 1 else m)"

lemma finished_marked:
  assumes "i \<in> set (finished_ids ms)" "\<forall>m \<in> set ms. m \<in> set rows \<and>
    pending_query cur h LedgerTypeSafetySlashHiveBurnPendingFinalized m"
  shows "marked rows i"
proof -
  obtain m where m: "m \<in> set ms" "HasSuffix (lr_Id m) ''#finalized_marker''"
    "i = TrimSuffix (lr_Id m) ''#finalized_marker''"
    using assms(1) by (auto simp: finished_ids_def)
  have "lr_Id m = marker_id i"
    using m(2,3) by (auto simp: marker_id_def elim!: HasSuffixE)
  with assms(2) m(1) show ?thesis
    by (auto simp: marked_iff is_marker_def pending_query_def range_query_def opType_filter_def ledger_types)
qed

lemma scanned_done:
  assumes st: "stored rs s s'" "\<forall>r \<in> set rs. bookkeeping r"
    and rs: "set (promoted h finished recs) \<subseteq> set rs"
    and fin: "\<And>i. i \<in> set finished \<Longrightarrow> marked (ledger_of s) i"
    and recs: "set recs = {r \<in> set (ledger_of s). pending_query cur h LedgerTypeSafetySlashHiveBurnPending r}"
    and cur: "below_done (ledger_of s) cur"
    and r: "r \<in> set (ledger_of s')" "burn_pending r" "lr_BlockHeight r \<le> h"
    and nw: "r \<in> set recs \<Longrightarrow> row_maturity h finished r \<noteq> NotYet"
  shows "marked (ledger_of s') (lr_Id r)"
proof -
  have r0: "r \<in> set (ledger_of s)" by (rule pending_kept [OF st r(1,2)])
  show ?thesis
  proof (cases "lr_BlockHeight r < cur")
    case True
    with cur r0 r(2) have "marked (ledger_of s) (lr_Id r)" by (simp add: below_done_def list_all_iff)
    then show ?thesis using marked_kept [OF st] by blast
  next
    case False
    with r r0 have in_recs: "r \<in> set recs"
      by (simp add: recs pending_query_def range_query_def opType_filter_def burn_pending_def)
    show ?thesis
    proof (cases "lr_Id r \<in> set finished")
      case True
      then show ?thesis using fin marked_kept [OF st] by blast
    next
      case False
      with nw [OF in_recs] r(2) have "row_maturity h finished r = Promote"
        by (auto simp: row_maturity_def burn_pending_def split: option.splits if_splits)
      from promoted_marks [OF in_recs this] show ?thesis
        using rs by (intro marked_kept [OF st]) blast
    qed
  qed
qed

lemma next_cursor_height:
  assumes "next_cursor h finished recs = k" "b < k" "h < - 1" "\<forall>r \<in> set recs. lr_BlockHeight r \<le> h"
  shows "b \<le> h"
proof (cases "min_waiting h finished recs MaxUint64 = MaxUint64 \<or> recs = []")
  case True
  then have "k = h + 1" using assms(1) by (auto simp: next_cursor_def)
  with assms(2) show ?thesis using uint64_succ_le [OF assms(3), of b] by (simp add: linorder_not_le [symmetric])
next
  case False
  then have "k = min_waiting h finished recs MaxUint64" using assms(1) by (simp add: next_cursor_def)
  with min_waiting_attained [of h finished recs MaxUint64] False assms(2,4) show ?thesis by force
qed

lemma next_cursor_waits:
  assumes "lr_BlockHeight r < next_cursor h finished recs" "r \<in> set recs" "h < - 1" "lr_BlockHeight r \<le> h"
  shows "row_maturity h finished r \<noteq> NotYet"
proof
  assume "row_maturity h finished r = NotYet"
  then have "min_waiting h finished recs MaxUint64 \<le> lr_BlockHeight r"
    by (rule min_waiting_below [OF assms(2)])
  with assms show False
    by (auto simp: next_cursor_def Let_def MaxUint64_def split: if_splits)
qed

lemma cursor_sound_kept:
  assumes st: "stored rs s s'" "\<forall>r \<in> set rs. bookkeeping r" and sound: "cursor_sound (ledger_of s)"
    and new: "\<And>r k. r \<in> set rs \<Longrightarrow> cursor_row r \<Longrightarrow> ParseUint (TrimSpace (lr_From r)) = Some k \<Longrightarrow>
      below_done (ledger_of s') k"
  shows "cursor_sound (ledger_of s')"
  unfolding cursor_sound_def list_all_iff
proof (intro ballI impI)
  fix r assume r: "r \<in> set (ledger_of s')" "cursor_row r"
  show "case ParseUint (TrimSpace (lr_From r)) of None \<Rightarrow> True | Some k \<Rightarrow> below_done (ledger_of s') k"
  proof (cases "r \<in> set rs")
    case True
    then show ?thesis using new r(2) by (simp split: option.split)
  next
    case False
    then have "r \<in> set (ledger_of s)"
      using r(1) last_writes_subset [of rs] unfolding stored_set [OF st(1)] by blast
    with sound r(2) show ?thesis
      using below_done_kept [OF st] by (auto simp: cursor_sound_def list_all_iff split: option.splits)
  qed
qed

lemma promotion_not_cursor: "r \<in> set (promoted h finished recs) \<Longrightarrow> \<not> cursor_row r"
  unfolding promoted_def
  by (auto simp: promotion_records_def cursor_row_def range_query_def opType_filter_def zero_records slash_accounts)

definition scan :: "LedgerRecord collection \<Rightarrow> uint64 \<Rightarrow> uint64 \<Rightarrow> string \<Rightarrow> LedgerRecord list \<Rightarrow> LedgerRecord list" where
  "scan L cur h ty rows = Find L (pending_query cur h ty) by_height rows"

definition scan_finished :: "LedgerRecord collection \<Rightarrow> uint64 \<Rightarrow> uint64 \<Rightarrow> LedgerRecord list \<Rightarrow> string list" where
  "scan_finished L cur h rows = finished_ids (scan L cur h LedgerTypeSafetySlashHiveBurnPendingFinalized rows)"

definition scan_pending :: "LedgerRecord collection \<Rightarrow> uint64 \<Rightarrow> uint64 \<Rightarrow> LedgerRecord list \<Rightarrow> LedgerRecord list" where
  "scan_pending L cur h rows = scan L cur h LedgerTypeSafetySlashHiveBurnPending rows"

definition scan_writes :: "LedgerRecord collection \<Rightarrow> uint64 \<Rightarrow> uint64 \<Rightarrow> LedgerRecord list \<Rightarrow> LedgerRecord list" where
  "scan_writes L cur h rows =
     (let fin = scan_finished L cur h rows; recs = scan_pending L cur h rows; k = next_cursor h fin recs
      in promoted h fin recs @ (if k > cur then [cursor_record h k] else []))"

lemma scan_writes_bookkeeping: "\<forall>r \<in> set (scan_writes L cur h rows). bookkeeping r"
  by (auto simp: scan_writes_def Let_def promoted_bookkeeping cursor_bookkeeping)

context slash_ledger
begin

lemma set_scan: "set (scan L cur h ty rows) = {r \<in> set rows. pending_query cur h ty r}"
  unfolding scan_def by (metis find_docs set_mset_filter set_mset_mset)

lemma finalize_step:
  assumes c: "readSafetySlashFinalizeCursor ls s = (cur, s\<lparr>faults := fs\<rparr>)" and "0 < h" and le: "\<not> h < cur"
    and uniq: "ids_unique (contents s)"
  shows "\<exists>s'. FinalizeMaturedSafetySlashBurns ls h s = Some ((), s') \<and> stored (scan_writes L cur h (ledger_of s)) s s'"
proof -
  let ?fin = "scan_finished L cur h (ledger_of s)" and ?recs = "scan_pending L cur h (ledger_of s)"
  let ?k = "next_cursor h ?fin ?recs" and ?s = "s\<lparr>faults := settle (settle fs)\<rparr>"
  have h: "h \<noteq> 0" using \<open>0 < h\<close> by auto
  obtain s1 where s1: "finalize_rows ls h ?fin ?recs MaxUint64 ?s = Some (min_waiting h ?fin ?recs MaxUint64, s1)"
    "stored (promoted h ?fin ?recs) s s1"
    using finalize_rows_stores [of ?s h ?fin ?recs MaxUint64] uniq by auto
  have step: "FinalizeMaturedSafetySlashBurns ls h s =
      (if ?k > cur then writeSafetySlashFinalizeCursor ls h ?k s1 else Some ((), s1))"
    using s1(1) c h le
    by (simp add: FinalizeMaturedSafetySlashBurns_def handles pending_reads pending_query_def [symmetric]
        scan_def [symmetric] scan_pending_def [symmetric] scan_finished_def [symmetric] next_cursor_def Let_def)
  show ?thesis
  proof (cases "?k > cur")
    case True
    obtain s2 where s2: "storeLedgerOrFail ls [cursor_record h ?k] s1 = Some ((), s2)" "stored [cursor_record h ?k] s1 s2"
      using store_or_fail [OF storedD(1) [OF s1(2)]] by blast
    then show ?thesis
      using step True stored_trans [OF s1(2) s2(2)]
      by (simp add: writeSafetySlashFinalizeCursor_def handles scan_writes_def Let_def)
  next
    case False
    then show ?thesis using step s1(2) by (simp add: scan_writes_def Let_def)
  qed
qed

lemma scan_done:
  assumes st: "stored (scan_writes L cur h (ledger_of s)) s s'" and cur: "below_done (ledger_of s) cur"
    and r: "r \<in> set (ledger_of s')" "burn_pending r" "lr_BlockHeight r \<le> h"
    and nw: "r \<in> set (scan_pending L cur h (ledger_of s)) \<Longrightarrow>
      row_maturity h (scan_finished L cur h (ledger_of s)) r \<noteq> NotYet"
  shows "marked (ledger_of s') (lr_Id r)"
proof -
  have fin: "marked (ledger_of s) i" if "i \<in> set (scan_finished L cur h (ledger_of s))" for i
    using finished_marked [OF that [unfolded scan_finished_def], of "ledger_of s" cur h] by (simp add: set_scan)
  show ?thesis
    by (rule scanned_done [OF st scan_writes_bookkeeping _ fin _ cur r nw])
      (auto simp: scan_writes_def Let_def set_scan scan_pending_def)
qed

lemma scan_sound:
  assumes st: "stored (scan_writes L cur h (ledger_of s)) s s'" and cur: "below_done (ledger_of s) cur" and h: "h < - 1"
  shows "below_done (ledger_of s') (next_cursor h (scan_finished L cur h (ledger_of s)) (scan_pending L cur h (ledger_of s)))"
    (is "below_done _ ?k")
  unfolding below_done_def list_all_iff
proof (intro ballI impI, elim conjE)
  fix r assume r: "r \<in> set (ledger_of s')" "burn_pending r" "lr_BlockHeight r < ?k"
  have "\<forall>r \<in> set (scan_pending L cur h (ledger_of s)). lr_BlockHeight r \<le> h"
    by (simp add: scan_pending_def set_scan pending_query_def range_query_def)
  from next_cursor_height [OF refl r(3) h this] have le: "lr_BlockHeight r \<le> h" .
  show "marked (ledger_of s') (lr_Id r)"
    by (rule scan_done [OF st cur r(1,2) le next_cursor_waits [OF r(3) _ h le]])
qed

lemma finalize_completes:
  assumes uniq: "ids_unique (contents s)" and h: "0 < h" "h < - 1" and sound: "cursor_sound (ledger_of s)"
  shows "\<exists>s'. FinalizeMaturedSafetySlashBurns ls h s = Some ((), s') \<and> matured_done h (ledger_of s') \<and>
    cursor_sound (ledger_of s') \<and> ids_unique (contents s')"
proof -
  obtain cur fs where c: "readSafetySlashFinalizeCursor ls s = (cur, s\<lparr>faults := fs\<rparr>)" "below_done (ledger_of s) cur"
    using cursor_read [OF sound] by blast
  show ?thesis
  proof (cases "cur > h")
    case True
    with c(2) have "matured_done h (ledger_of s)"
      by (auto simp: matured_done_def below_done_def list_all_iff)
    moreover have "h \<noteq> 0" using h(1) by auto
    ultimately show ?thesis
      using True c(1) uniq sound by (intro exI [of _ "s\<lparr>faults := fs\<rparr>"]) (simp add: FinalizeMaturedSafetySlashBurns_def handles)
  next
    case False
    from finalize_step [OF c(1) h(1) this uniq] obtain s' where s':
      "FinalizeMaturedSafetySlashBurns ls h s = Some ((), s')" "stored (scan_writes L cur h (ledger_of s)) s s'" by blast
    have "matured_done h (ledger_of s')"
      unfolding matured_done_def list_all_iff
      by (auto simp: row_maturity_def split: option.splits if_splits intro!: scan_done [OF s'(2) c(2)])
    moreover have "cursor_sound (ledger_of s')"
      using scan_sound [OF s'(2) c(2) h(2)]
      by (intro cursor_sound_kept [OF s'(2) scan_writes_bookkeeping sound])
        (auto simp: scan_writes_def Let_def cursor_record_def promotion_not_cursor split: if_splits)
    ultimately show ?thesis using s'(1) storedD(1) [OF s'(2)] by blast
  qed
qed

end

text \<open>
  C16. Promotion of matured slashes is complete: from a ledger whose cursor is sound, a call to
  FinalizeMaturedSafetySlashBurns at a block height returns under any schedule of database faults,
  afterwards every pending burn recorded up to that height whose maturity has been reached carries
  its finalized marker, and the cursor is again sound, so that no later call skips a row that still
  waits.
\<close>

theorem matured_slashes_finalized:
  assumes "ledger_collection L" "sy_LedgerDb ls = Some L" "sy_BalanceDb ls = Some B" "ids_unique (contents s)"
    and "0 < h" "h < - 1" "cursor_sound (ledger_of s)"
  shows "\<exists>s'. FinalizeMaturedSafetySlashBurns ls h s = Some ((), s') \<and> matured_done h (ledger_of s') \<and>
    cursor_sound (ledger_of s') \<and> ids_unique (contents s')"
  by (rule slash_ledger.finalize_completes) (use assms in \<open>simp_all add: slash_ledger_def slash_ledger_axioms_def\<close>)

theorem matured_slashes_finalized_witness:
  "\<exists>s'. FinalizeMaturedSafetySlashBurns list_system 160
      \<lparr>contents = bonded [example_debit, example_pending] 1800, faults = [RequestLost, ReplyLost]\<rparr> = Some ((), s') \<and>
    matured_done 160 (ledger_of s') \<and> cursor_sound (ledger_of s')"
proof -
  let ?s = "\<lparr>contents = bonded [example_debit, example_pending] 1800, faults = [RequestLost, ReplyLost]\<rparr>"
  have "ids_unique (contents ?s)" by (simp add: ids_unique_def slash_eval)
  moreover have "cursor_sound (ledger_of ?s)"
    by (simp add: cursor_sound_def cursor_row_def range_query_def slash_eval)
  ultimately show ?thesis
    using matured_slashes_finalized [OF list_ledger.ledger_collection_axioms list_slash.handles, of ?s 160] by auto
qed

section \<open>Cancelled slashes\<close>

definition pending_id :: "CancelPendingSafetySlashBurnParams \<Rightarrow> string" where
  "pending_id p = safetySlashBaseID (TrimSpace (ca_TxID p)) (TrimSpace (ca_EvidenceKind p)) @ ''#hive_burn_pending#'' @
     normalizeHiveConsensusAccount (ca_SlashedAccount p)"

definition valid_cancel :: "CancelPendingSafetySlashBurnParams \<Rightarrow> bool" where
  "valid_cancel p \<longleftrightarrow> TrimSpace (ca_TxID p) \<noteq> [] \<and> TrimSpace (ca_EvidenceKind p) \<noteq> [] \<and>
     normalizeHiveConsensusAccount (ca_SlashedAccount p) \<noteq> []"

definition reserve_id :: "string \<Rightarrow> string" where
  "reserve_id i = i @ ''#promoted_to_reserve''"

lemma reserve_id_apart:
  "i \<noteq> j \<Longrightarrow> r \<in> set (promotion_records h (rec\<lparr>lr_Id := j\<rparr>)) \<Longrightarrow> lr_Id r \<noteq> reserve_id i"
  "lr_Id (cursor_record h k) \<noteq> reserve_id i"
proof -
  have ne: "j @ ''#pending_release'' \<noteq> i @ ''#promoted_to_reserve''" "j @ ''#finalized_marker'' \<noteq> i @ ''#promoted_to_reserve''"
    "safetySlashFinalizeCursorRowID \<noteq> i @ ''#promoted_to_reserve''"
    by (rule notI, drule arg_cong [where f = "\<lambda>x. take 4 (rev x)"], simp add: safetySlashFinalizeCursorRowID_def)+
  show "lr_Id (cursor_record h k) \<noteq> reserve_id i"
    using ne(3) by (simp add: cursor_record_def reserve_id_def)
  assume "i \<noteq> j" "r \<in> set (promotion_records h (rec\<lparr>lr_Id := j\<rparr>))"
  then show "lr_Id r \<noteq> reserve_id i"
    using ne(1,2) by (auto simp: promotion_records_def reserve_id_def)
qed

lemma finished_not_promoted:
  assumes "i \<in> set fin" "r \<in> set (promoted h fin recs)"
  shows "lr_Id r \<noteq> reserve_id i"
proof -
  obtain rec where rec: "row_maturity h fin rec = Promote" "r \<in> set (promotion_records h rec)"
    using assms(2) by (auto simp: promoted_def)
  then have "i \<noteq> lr_Id rec" using assms(1) by (auto simp: row_maturity_def split: if_splits)
  then show ?thesis using reserve_id_apart(1) [of i "lr_Id rec" r h rec] rec(2) by simp
qed

context slash_ledger
begin

lemma finalize_skips_marked:
  assumes uniq: "ids_unique (contents s)" and h: "0 < h"
    and cur: "readSafetySlashFinalizeCursor ls s = (cur, s\<lparr>faults := fs\<rparr>)"
    and m: "m \<in> set (ledger_of s)" "is_marker i m" "cur \<le> lr_BlockHeight m" "lr_BlockHeight m \<le> h"
  shows "\<exists>s'. FinalizeMaturedSafetySlashBurns ls h s = Some ((), s') \<and>
    (\<forall>r \<in> set (ledger_of s'). lr_Id r = reserve_id i \<longrightarrow> r \<in> set (ledger_of s))"
proof -
  have "\<not> h < cur" using m(3,4) by auto
  then obtain s' where s': "FinalizeMaturedSafetySlashBurns ls h s = Some ((), s')"
    "stored (scan_writes L cur h (ledger_of s)) s s'"
    using finalize_step [OF cur h _ uniq] by blast
  have "m \<in> set (scan L cur h LedgerTypeSafetySlashHiveBurnPendingFinalized (ledger_of s))"
    using m by (simp add: set_scan pending_query_def range_query_def opType_filter_def is_marker_def)
  then have "i \<in> set (scan_finished L cur h (ledger_of s))"
    using m(2) by (force simp: scan_finished_def finished_ids_def is_marker_def marker_id_def)
  then have "lr_Id r \<noteq> reserve_id i" if "r \<in> set (scan_writes L cur h (ledger_of s))" for r
    using that by (auto simp: scan_writes_def Let_def finished_not_promoted reserve_id_apart(2) split: if_splits)
  then have "\<forall>r \<in> set (ledger_of s'). lr_Id r = reserve_id i \<longrightarrow> r \<in> set (ledger_of s)"
    using last_writes_subset unfolding stored_set [OF s'(2)] by blast
  with s'(1) show ?thesis by blast
qed

end

lemma cancel_rows_apart:
  assumes "r \<in> set (cancel_records i h rec)"
  shows "\<not> cursor_row r"
  using assms by (auto simp: cancel_records_def Let_def cursor_row_def range_query_def opType_filter_def zero_records slash_accounts)

lemma cancel_last_writes: "last_writes lr_Id (cancel_records i h rec) = cancel_records i h rec"
  by (simp add: cancel_records_def Let_def)

context slash_ledger
begin

lemma cancel_stores:
  assumes uniq: "ids_unique (contents s)" and p: "valid_cancel p"
    and r: "r \<in> set (ledger_of s)" "lr_Id r = pending_id p" "lr_BlockHeight r \<le> ca_BlockHeight p" "burn_pending r"
    and fresh: "\<not> marked (ledger_of s) (pending_id p)" "pending_id p @ ''#cancelled_marker'' \<notin> lr_Id ` set (ledger_of s)"
  shows "\<exists>s'. CancelPendingSafetySlashBurn ls p s = Some (success ''cancelled'', s') \<and>
    stored (cancel_records (pending_id p) (ca_BlockHeight p) r) s s'"
proof -
  let ?q = "\<lambda>ty. Find L (range_query ProtocolSlashPendingBurnAccount 0 (ca_BlockHeight p) ''hive'' [[ty]]) by_height (ledger_of s)"
  have sets: "set (?q ty) = {r \<in> set (ledger_of s). pending_query 0 (ca_BlockHeight p) ty r}" for ty
    using set_scan [of 0 "ca_BlockHeight p" ty "ledger_of s"] by (simp add: scan_def pending_query_def)
  have "r \<in> set (?q LedgerTypeSafetySlashHiveBurnPending)"
    using r by (simp add: sets pending_query_def range_query_def opType_filter_def burn_pending_def)
  moreover have same: "r' = r" if "r' \<in> set (ledger_of s)" "lr_Id r' = pending_id p" for r'
    using uniq that r(1,2) by (auto simp: ids_unique_def distinct_map inj_on_def)
  ultimately have found: "find (\<lambda>r. lr_Id r = pending_id p) (?q LedgerTypeSafetySlashHiveBurnPending) = Some r"
    using r(2) by (intro find_unique) (simp_all add: sets same)
  have c: "\<not> has_id (pending_id p @ ''#cancelled_marker'') (Some (?q LedgerTypeSafetySlashHiveBurnPendingCancelled))"
    using fresh(2) unfolding has_id_def option.case sets by (metis (lifting) image_eqI mem_Collect_eq)
  have f: "\<not> has_id (marker_id (pending_id p)) (Some (?q LedgerTypeSafetySlashHiveBurnPendingFinalized))"
    using fresh(1) by (simp add: has_id_def sets marked_iff is_marker_def pending_query_def
        range_query_def opType_filter_def) blast
  obtain s' where s': "storeLedgerOrFail ls (cancel_records (pending_id p) (ca_BlockHeight p) r)
      (s\<lparr>faults := settle (settle (settle (faults s)))\<rparr>) = Some ((), s')"
    "stored (cancel_records (pending_id p) (ca_BlockHeight p) r) s s'"
    using store_or_fail [of "s\<lparr>faults := settle (settle (settle (faults s)))\<rparr>"] uniq by auto
  show ?thesis
    using s' p found c f
    unfolding CancelPendingSafetySlashBurn_def Let_def pending_id_def [symmetric] marker_id_def [symmetric]
    by (simp add: valid_cancel_def handles pending_reads)
qed

end

context slash_ledger
begin

lemma cursor_row_read:
  "\<exists>cur fs. readSafetySlashFinalizeCursor ls s = (cur, s\<lparr>faults := fs\<rparr>) \<and>
     (cur = 0 \<or> (\<exists>r \<in> set (ledger_of s). cursor_row r \<and> ParseUint (TrimSpace (lr_From r)) = Some cur))"
proof -
  let ?recs = "Find L cursor_row by_height (ledger_of s)"
  have fold: "snd (fold cursor_step ?recs (0, 0)) = 0 \<or> (\<exists>r \<in> set (ledger_of s). cursor_row r \<and>
      ParseUint (TrimSpace (lr_From r)) = Some (snd (fold cursor_step ?recs (0, 0))))"
    using cursor_fold [of ?recs "(0, 0)"] by fastforce
  have q: "range_query ProtocolSlashFinalizeCursorAccount 0 MaxInt64 ''hive'' [[LedgerTypeSafetySlashBurnFinalizeCursor]] = cursor_row"
    by (simp add: cursor_row_def fun_eq_iff)
  show ?thesis
    using fold
    by (simp add: readSafetySlashFinalizeCursor_def handles GetLedgerRange_def q db_call_def
        split: list.split call_outcome.split)
      (metis (full_types) server.surjective server.update_convs(2))
qed

lemma cancel_blocks:
  assumes uniq: "ids_unique (contents s)" and p: "valid_cancel p" and sound: "cursor_sound (ledger_of s)"
    and r: "r \<in> set (ledger_of s)" "lr_Id r = pending_id p" "lr_BlockHeight r \<le> ca_BlockHeight p" "burn_pending r"
    and fresh: "\<not> marked (ledger_of s) (pending_id p)" "pending_id p @ ''#cancelled_marker'' \<notin> lr_Id ` set (ledger_of s)"
    and h: "ca_BlockHeight p \<le> h" "0 < h"
  shows "\<exists>s1 s2. CancelPendingSafetySlashBurn ls p s = Some (success ''cancelled'', s1) \<and>
    set (cancel_records (pending_id p) (ca_BlockHeight p) r) \<subseteq> set (ledger_of s1) \<and>
    FinalizeMaturedSafetySlashBurns ls h s1 = Some ((), s2) \<and>
    (\<forall>r \<in> set (ledger_of s2). lr_Id r = reserve_id (pending_id p) \<longrightarrow> r \<in> set (ledger_of s1))"
proof -
  let ?new = "cancel_records (pending_id p) (ca_BlockHeight p) r"
  obtain s1 where s1: "CancelPendingSafetySlashBurn ls p s = Some (success ''cancelled'', s1)" "stored ?new s s1"
    using cancel_stores [OF uniq p r fresh] by blast
  have new: "set ?new \<subseteq> set (ledger_of s1)"
    unfolding stored_set [OF s1(2)] cancel_last_writes by blast
  let ?m = "?new ! 1"
  have m: "?m \<in> set (ledger_of s1)" "is_marker (pending_id p) ?m" "lr_BlockHeight ?m = ca_BlockHeight p"
    using new by (auto simp: cancel_records_def Let_def is_marker_def marker_id_def)
  obtain cur fs where cur: "readSafetySlashFinalizeCursor ls s1 = (cur, s1\<lparr>faults := fs\<rparr>)"
    "cur = 0 \<or> (\<exists>r \<in> set (ledger_of s1). cursor_row r \<and> ParseUint (TrimSpace (lr_From r)) = Some cur)"
    using cursor_row_read [of s1] by blast
  have "below_done (ledger_of s) cur"
  proof (cases "cur = 0")
    case False
    with cur(2) obtain c where c: "c \<in> set (ledger_of s1)" "cursor_row c" "ParseUint (TrimSpace (lr_From c)) = Some cur"
      by blast
    then have "c \<in> set (ledger_of s)"
      using cancel_rows_apart unfolding stored_set [OF s1(2)] cancel_last_writes by blast
    with sound c(2,3) show ?thesis by (fastforce simp: cursor_sound_def list_all_iff)
  qed (simp add: below_done_def list_all_iff)
  then have "\<not> lr_BlockHeight r < cur" using r fresh(1) by (auto simp: below_done_def list_all_iff)
  then have "cur \<le> lr_BlockHeight ?m" using r(3) m(3) by simp
  from finalize_skips_marked [OF storedD(1) [OF s1(2)] h(2) cur(1) m(1,2) this] show ?thesis
    using s1(1) new m(3) h(1) by auto
qed

end


definition example_cancel :: CancelPendingSafetySlashBurnParams where
  "example_cancel = \<lparr>ca_TxID = ''t'', ca_EvidenceKind = ''k'', ca_SlashedAccount = ''node'', ca_BlockHeight = 140\<rparr>"

lemma example_pending_burn:
  "pending_id example_cancel = lr_Id example_pending" "valid_cancel example_cancel" "burn_pending example_pending"
proof -
  have "ParseUint ''150'' = Some 150" using ParseUint_FormatUint [of 150] by (simp add: FormatUint_150)
  then show "burn_pending example_pending" by (simp add: burn_pending_def slash_eval)
qed (simp_all add: pending_id_def valid_cancel_def example_cancel_def safetySlashBaseID_def slash_eval)


end
