(* ===== verification/Balances_Spec.thy ===== *)
theory Balances_Spec
  imports Balances
begin

text \<open>
  What the end of a slot promises: every snapshot it writes is the replay of the ledger at the slot's
  height, and the writes it makes itself leave the older snapshots sound, provided that the payout
  rows are new. The last section evaluates what happens when they are not.
\<close>

section \<open>The sums of an account\<close>

lemma ledger_balances_sum:
  "ledger_balances b rows asset =
     snapshot_base asset b + net_rows (\<lambda>r. lr_Asset r = asset \<and> \<not> IsProtocolMetaLedgerType (lr_Type r)) rows"
proof -
  have "fold (\<lambda>v m. if IsProtocolMetaLedgerType (lr_Type v) then m else m(lr_Asset v := m (lr_Asset v) + lr_Amount v))
      rows f asset = f asset + net_rows (\<lambda>r. lr_Asset r = asset \<and> \<not> IsProtocolMetaLedgerType (lr_Type r)) rows" for f
    by (induction rows arbitrary: f) (auto simp: net_rows_def algebra_simps)
  then show ?thesis by (simp add: ledger_balances_def)
qed

text \<open>The books of a slot: the handles of the state and of the ledger system go to the same collections.\<close>

definition handled :: "LedgerRecord collection \<Rightarrow> BalanceRecord collection \<Rightarrow> ActionRecord collection \<Rightarrow> LedgerState \<Rightarrow> bool" where
  "handled L B A st \<longleftrightarrow> ls_LedgerDb st = Some L \<and> ls_BalanceDb st = Some B \<and> ls_ActionDb st = Some A"

lemma handled_drop: "handled L B A st \<Longrightarrow> handled L B A (DropVirtual st k P)"
  by (simp add: handled_def DropVirtual_def)

locale slot_books = slash_ledger L ls B + snaps: balance_collection B
  for L :: "LedgerRecord collection" and ls :: ledgerSystem and B :: "BalanceRecord collection" +
  fixes A :: "ActionRecord collection"
begin

lemma record_reads:
  "handled L B A st \<Longrightarrow> balanceRecordOrBlock st k h s =
     Some (newest_snapshot B (contents s) k h, s\<lparr>faults := settle (faults s)\<rparr>)"
  by (simp add: handled_def balanceRecordOrBlock_def GetBalanceRecord_def newest_snapshot_def)

lemma snapshot_reads:
  assumes "handled L B A st" and "prev = newest_snapshot B (contents s) k h"
    and "rows = Find L (range_query k (record_height prev) h [] []) by_height (ledger_of s)"
  shows "account_snapshot st h cl k s =
    Some (if rows = [] \<and> claim_height cl = br_HBD_CLAIM_HEIGHT (record_or_zero prev) then None
      else Some (new_snapshot h cl prev k rows), s\<lparr>faults := settle (settle (faults s))\<rparr>)"
  unfolding account_snapshot_def record_reads [OF assms(1)] assms(2) assms(3) using assms(1)
  by (simp add: getLedgerRangeOrBlock_def handled_def GetLedgerRange_def)

lemma new_snapshot_balance:
  assumes "asset \<in> set snapshotted"
  shows "snapshot_base asset (new_snapshot h cl (newest_snapshot B c k h) k
      (Find L (range_query k (record_height (newest_snapshot B c k h)) h [] []) by_height (ledger_c c))) =
    balance_of B c k h asset"
proof -
  let ?p = "newest_snapshot B c k h"
  have "net_rows (\<lambda>r. range_query k (record_height ?p) h [] [] r \<and> lr_Asset r = asset \<and> \<not> IsProtocolMetaLedgerType (lr_Type r)) (ledger_c c) =
      net_rows (\<lambda>r. counted k asset r \<and> record_height ?p \<le> lr_BlockHeight r \<and> lr_BlockHeight r \<le> h) (ledger_c c)"
    by (rule net_rows_cong) (auto simp: range_query_def counted_def opType_filter_def)
  moreover have "net_rows Q (Find L P le rows) = net_rows (\<lambda>r. P r \<and> Q r) rows" for P Q le rows
    by (metis find_net net_rows_def)
  moreover have "snapshot_base asset (new_snapshot h cl ?p k rows) = ledger_balances (record_or_zero ?p) rows asset" for rows
    using assms by (auto simp: snapshotted_def snapshot_base_def new_snapshot_def Let_def split: prod.split)
  ultimately show ?thesis
    using snapshotted_assets [OF assms] by (simp add: ledger_balances_sum balance_of_def Let_def)
qed

end

text \<open>A snapshot taken from the documents \<open>c\<close> at height \<open>h\<close>, and whether an account is due one.\<close>

definition taken :: "BalanceRecord collection \<Rightarrow> ledger_dbs \<Rightarrow> uint64 \<Rightarrow> BalanceRecord \<Rightarrow> bool" where
  "taken B c h b \<longleftrightarrow> br_BlockHeight b = h \<and>
     list_all (\<lambda>asset. snapshot_base asset b = balance_of B c (br_Account b) h asset) snapshotted"

definition moved :: "BalanceRecord collection \<Rightarrow> ledger_dbs \<Rightarrow> uint64 \<Rightarrow> string \<Rightarrow> bool" where
  "moved B c h k = list_ex (\<lambda>r. lr_Owner r = k \<and> record_height (newest_snapshot B c k h) \<le> lr_BlockHeight r \<and>
     lr_BlockHeight r \<le> h) (ledger_c c)"

lemma snapshot_account: "br_Account (new_snapshot h cl p k rows) = k" "br_BlockHeight (new_snapshot h cl p k rows) = h"
  by (simp_all add: new_snapshot_def Let_def split: prod.split)

context slot_books
begin

lemma slot_reads:
  assumes "handled L B A st"
  shows "\<exists>rs st' fs. slot_snapshots h cl ks st s = Some ((rs, st'), s\<lparr>faults := fs\<rparr>) \<and> handled L B A st' \<and>
    (\<forall>b \<in> set rs. taken B (contents s) h b) \<and>
    (\<forall>k \<in> set ks. moved B (contents s) h k \<longrightarrow> k \<in> br_Account ` set rs)"
  using assms
proof (induction ks arbitrary: st s)
  case Nil
  then show ?case by (auto intro: exI [of _ "faults s"])
next
  case (Cons k ks)
  let ?p = "newest_snapshot B (contents s) k h"
  let ?rows = "Find L (range_query k (record_height ?p) h [] []) by_height (ledger_of s)"
  let ?s = "s\<lparr>faults := settle (settle (faults s))\<rparr>" and ?b = "new_snapshot h cl ?p k ?rows"
  note read = snapshot_reads [OF Cons.prems refl refl, of h cl k s]
  show ?case
  proof (cases "?rows = [] \<and> claim_height cl = br_HBD_CLAIM_HEIGHT (record_or_zero ?p)")
    case True
    then have "\<not> moved B (contents s) h k"
      using set_find [of "range_query k (record_height ?p) h [] []" by_height "ledger_of s"]
      by (auto simp: moved_def list_ex_iff range_query_def opType_filter_def)
    with True read Cons.IH [OF Cons.prems, of ?s] show ?thesis by fastforce
  next
    case False
    obtain rs st' fs where IH: "slot_snapshots h cl ks (DropVirtual st k is_deposit) ?s = Some ((rs, st'), ?s\<lparr>faults := fs\<rparr>)"
      "handled L B A st'" "\<forall>b \<in> set rs. taken B (contents s) h b"
      "\<forall>k \<in> set ks. moved B (contents s) h k \<longrightarrow> k \<in> br_Account ` set rs"
      using Cons.IH [OF handled_drop [OF Cons.prems], of k is_deposit ?s] by auto
    have "taken B (contents s) h ?b"
      by (simp add: taken_def snapshot_account list_all_iff new_snapshot_balance)
    then show ?thesis
      using IH read False by (intro exI [of _ "?b # rs"] exI [of _ st'] exI [of _ fs]) (auto simp: snapshot_account)
  qed
qed

end

section \<open>Snapshots under the slot's own writes\<close>

text \<open>A row that does not enter a snapshot below height \<open>h\<close>.\<close>

definition above :: "uint64 \<Rightarrow> LedgerRecord \<Rightarrow> bool" where
  "above h r \<longleftrightarrow> h \<le> lr_BlockHeight r \<or> IsProtocolMetaLedgerType (lr_Type r)"

definition snapshots_below :: "uint64 \<Rightarrow> ledger_dbs \<Rightarrow> bool" where
  "snapshots_below h c = list_all (\<lambda>b. br_BlockHeight b < h) (balances_c c)"

lemma net_rows_puts_outside:
  assumes "mset rows' = puts lr_Id rs (mset rows)" "\<forall>r \<in> set rs. \<not> P r" "\<forall>r \<in> set rows. lr_Id r \<in> lr_Id ` set rs \<longrightarrow> \<not> P r"
  shows "net_rows P rows' = net_rows P rows"
proof -
  have "filter_mset P (mset rows') = filter_mset P (filter_mset (\<lambda>x. lr_Id x \<notin> lr_Id ` set rs) (mset rows)) +
      filter_mset P (mset (last_writes lr_Id rs))"
    using assms(1) by (simp add: puts_eq)
  also have "filter_mset P (mset (last_writes lr_Id rs)) = {#}"
    using assms(2) last_writes_subset [of rs] by (auto simp: filter_mset_eq_mempty_iff)
  also have "filter_mset P (filter_mset (\<lambda>x. lr_Id x \<notin> lr_Id ` set rs) (mset rows)) = filter_mset P (mset rows)"
    using assms(3) by (auto simp: filter_mset_filter_mset intro: filter_mset_cong)
  finally have "mset (filter P rows') = mset (filter P rows)" by simp
  then show ?thesis unfolding net_rows_def by (rule sum_list_mset_cong)
qed

lemma sound_kept:
  assumes "snapshots_sound c" "snapshots_below h c" "mset (ledger_c c') = puts lr_Id rs (mset (ledger_c c))"
    and "balances_c c' = balances_c c" "\<forall>r \<in> set rs. above h r"
    and "\<forall>r \<in> set (ledger_c c). lr_Id r \<in> lr_Id ` set rs \<longrightarrow> above h r"
  shows "snapshots_sound c'" "snapshots_below h c'"
proof -
  have "replay c' (br_Account b) (br_BlockHeight b) asset = replay c (br_Account b) (br_BlockHeight b) asset"
    if "b \<in> set (balances_c c)" for b asset
    unfolding replay_def
    by (rule net_rows_puts_outside [OF assms(3)])
      (use assms(2,5,6) that in \<open>fastforce simp: above_def counted_def snapshots_below_def list_all_iff\<close>)+
  then show "snapshots_sound c'"
    using assms(1,4) by (simp add: snapshots_sound_def sound_snapshot_def list_all_iff)
  show "snapshots_below h c'" using assms(2,4) by (simp add: snapshots_below_def)
qed

lemma sound_flush:
  assumes "mongo_collection B" "snapshots_sound c" "h < - 1" "\<forall>b \<in> set rs. taken B c h b"
    and "mset (balances_c c') = puts balance_key rs (mset (balances_c c))" "ledger_c c' = ledger_c c"
  shows "snapshots_sound c'"
proof -
  have r: "replay c' = replay c" by (simp add: replay_def fun_eq_iff assms(6))
  have "sound_snapshot c b" if "b \<in> set rs" for b
    using assms(4) that balance_of_replay [OF assms(1,2) _ assms(3)]
    by (auto simp: taken_def sound_snapshot_def list_all_iff)
  moreover have "set (balances_c c') \<subseteq> set (balances_c c) \<union> set rs"
    using mset_eq_setD [of "balances_c c'" "filter (\<lambda>x. balance_key x \<notin> balance_key ` set rs) (balances_c c) @ last_writes balance_key rs"]
      assms(5) set_last_writes [of balance_key rs] by (auto simp: puts_eq)
  ultimately show ?thesis
    using assms(2) by (auto simp: snapshots_sound_def list_all_iff sound_snapshot_def r)
qed

text \<open>The rows of the payouts of a slot: the actions they stand for are pending unstakes.\<close>

definition payout_rows :: "uint64 \<Rightarrow> ledger_dbs \<Rightarrow> LedgerRecord set" where
  "payout_rows h c = release_record h ` {a \<in> set (actions_c c). ar_Status a = ''pending'' \<and> ar_Type a = ''consensus_unstake''}"

context slot_books
begin

lemma store_part:
  assumes "ids_unique (contents s)" "StoreLedger L rs s = (res, s')"
  shows "\<exists>p. set p \<subseteq> set rs \<and> ids_unique (contents s') \<and> mset (ledger_of s') = puts lr_Id p (mset (ledger_of s)) \<and>
    balances_of s' = balances_of s \<and> actions_of s' = actions_of s"
proof -
  have "\<exists>p. set p \<subseteq> set rs \<and> contents s' = fold (upsert_ledger L) p (contents s)"
  proof (cases res)
    case (Inl e)
    then show ?thesis using each_call_Inl [of "upsert_ledger L" rs s e s'] assms(2) by (auto simp: StoreLedger_def)
  next
    case (Inr u)
    then show ?thesis using each_call_Inr [of "upsert_ledger L" rs s u s'] assms(2) by (auto simp: StoreLedger_def)
  qed
  then obtain p where p: "set p \<subseteq> set rs" "contents s' = fold (upsert_ledger L) p (contents s)" by blast
  have "stored p s s'"
    using upserts_view [OF assms(1), of p] rows.invar_writes [OF assms(1), of p] p(2) by (simp add: stored_def)
  from storedD [OF this] p(1) show ?thesis by blast
qed

lemma release_effect:
  assumes "handled L B A st" "mongo_collection A" "ids_unique (contents s)"
  shows "\<exists>s' p. release_unstakes st el bl eh h s = Some ((), s') \<and> set p \<subseteq> payout_rows h (contents s) \<and>
    ids_unique (contents s') \<and> mset (ledger_of s') = puts lr_Id p (mset (ledger_of s)) \<and> balances_of s' = balances_of s"
proof -
  have "\<exists>records fs. (case el of None \<Rightarrow> Some ([], s)
       | Some epoch \<Rightarrow> getPendingActionsByEpochOrBlock st epoch [''consensus_unstake''] s) = Some (records, s\<lparr>faults := fs\<rparr>) \<and>
      release_record h ` set records \<subseteq> payout_rows h (contents s)"
  proof (cases el)
    case None
    then show ?thesis by (intro exI [of _ "[]"] exI [of _ "faults s"]) simp
  next
    case (Some epoch)
    then show ?thesis
      using assms(1) mongo_collection.set_find [OF assms(2)]
      by (auto simp: getPendingActionsByEpochOrBlock_def handled_def GetPendingActionsByEpoch_def payout_rows_def
          intro!: exI [of _ "settle (faults s)"])
  qed
  then obtain records fs where r: "(case el of None \<Rightarrow> Some ([], s)
       | Some epoch \<Rightarrow> getPendingActionsByEpochOrBlock st epoch [''consensus_unstake''] s) = Some (records, s\<lparr>faults := fs\<rparr>)"
    "release_record h ` set records \<subseteq> payout_rows h (contents s)" by blast
  let ?due = "filter (\<lambda>r. \<not> payout_held bl eh r) records"
  let ?rs = "map (release_record h) ?due"
  obtain res s1 where st: "StoreLedger L ?rs (s\<lparr>faults := fs\<rparr>) = (res, s1)" by force
  obtain p where p: "set p \<subseteq> set ?rs" "ids_unique (contents s1)" "mset (ledger_of s1) = puts lr_Id p (mset (ledger_of s))"
    "balances_of s1 = balances_of s"
    using store_part [OF _ st] assms(3) by auto
  let ?s2 = "case res of Inl e \<Rightarrow> s1 | Inr u \<Rightarrow> ExecuteComplete A None (map ar_Id ?due) s1"
  have "release_unstakes st el bl eh h s = Some ((), ?s2)"
    using r(1) st assms(1) by (simp add: release_unstakes_def handled_def Let_def split: sum.split)
  moreover have "ledger_of ?s2 = ledger_of s1" "balances_of ?s2 = balances_of s1"
    by (auto simp: ExecuteComplete_def db_call_def split: sum.split list.split call_outcome.split)
  moreover have "set p \<subseteq> payout_rows h (contents s)" using p(1) r(2) by auto
  ultimately show ?thesis using p by (intro exI [of _ ?s2] exI [of _ p]) (simp add: ids_unique_def)
qed

end

text \<open>The ids the promotion of slashes writes under.\<close>

definition promotion_id :: "string \<Rightarrow> bool" where
  "promotion_id i \<longleftrightarrow> HasSuffix i ''#pending_release'' \<or> HasSuffix i ''#promoted_to_reserve'' \<or>
     HasSuffix i ''#finalized_marker'' \<or> i = safetySlashFinalizeCursorRowID"

lemma scan_writes_meta:
  assumes "r \<in> set (scan_writes L cur h rows)"
  shows "IsProtocolMetaLedgerType (lr_Type r)" "promotion_id (lr_Id r)"
proof -
  have p: "IsProtocolMetaLedgerType (lr_Type r) \<and> promotion_id (lr_Id r)" if "r \<in> set (promotion_records h x)" for x
    using that by (auto simp: promotion_records_def IsProtocolMetaLedgerType_def promotion_id_def)
  have "IsProtocolMetaLedgerType (lr_Type (cursor_record h k))" "promotion_id (lr_Id (cursor_record h k))" for k
    by (simp_all add: cursor_record_def IsProtocolMetaLedgerType_def promotion_id_def)
  with p assms show "IsProtocolMetaLedgerType (lr_Type r)" "promotion_id (lr_Id r)"
    by (auto simp: scan_writes_def promoted_def Let_def split: if_splits)
qed

context slot_books
begin

lemma finalize_effect:
  assumes "ids_unique (contents s)" "0 < h"
  shows "\<exists>s' rs. FinalizeMaturedSafetySlashBurns ls h s = Some ((), s') \<and> stored rs s s' \<and>
    (\<forall>r \<in> set rs. IsProtocolMetaLedgerType (lr_Type r) \<and> promotion_id (lr_Id r))"
proof -
  obtain cur fs where c: "readSafetySlashFinalizeCursor ls s = (cur, s\<lparr>faults := fs\<rparr>)"
    using cursor_row_read [of s] by blast
  have h: "h \<noteq> 0" using assms(2) by auto
  show ?thesis
  proof (cases "h < cur")
    case True
    then show ?thesis
      using c h stored_refl [OF assms(1), of fs]
      by (intro exI [of _ "s\<lparr>faults := fs\<rparr>"] exI [of _ "[]"]) (simp add: FinalizeMaturedSafetySlashBurns_def handles)
  next
    case False
    with finalize_step [OF c assms(2) _ assms(1)] scan_writes_meta show ?thesis by blast
  qed
qed

lemma accounts_read:
  assumes "handled L B A st"
  shows "\<exists>ks fs. slot_accounts st lo h s = Some (ks, s\<lparr>faults := fs\<rparr>) \<and>
    (set ks \<subseteq> {FR_VIRTUAL_ACCOUNT} \<or> {lr_Owner r |r. r \<in> set (ledger_of s) \<and> lo \<le> lr_BlockHeight r \<and> lr_BlockHeight r \<le> h} \<subseteq> set ks)"
proof -
  let ?q = "\<lambda>c. Distinct L lr_Owner (\<lambda>r. lo \<le> lr_BlockHeight r \<and> lr_BlockHeight r \<le> h) (ledger_c c)"
  have own: "set (?q (contents s)) = {lr_Owner r |r. r \<in> set (ledger_of s) \<and> lo \<le> lr_BlockHeight r \<and> lr_BlockHeight r \<le> h}"
    by (auto simp: distinct_values)
  obtain res fs where g: "GetDistinctAccountsRange L lo h s = (res, s\<lparr>faults := fs\<rparr>)"
    "res = Inl DbFault \<or> res = Inr (?q (contents s))"
    unfolding GetDistinctAccountsRange_def by (rule db_read_attempt [of ?q s]) auto
  let ?ks = "case res of Inl e \<Rightarrow> [] | Inr xs \<Rightarrow> xs"
  have ks: "set ?ks \<subseteq> {FR_VIRTUAL_ACCOUNT} \<or> set ?ks = set (?q (contents s))" using g(2) by auto
  show ?thesis
  proof (cases "FR_VIRTUAL_ACCOUNT \<in> set ?ks")
    case True
    then show ?thesis using assms g(1) ks own
      by (intro exI [of _ ?ks] exI [of _ fs]) (auto simp: slot_accounts_def handled_def Let_def)
  next
    case False
    then show ?thesis
      using assms g(1) ks own record_reads [OF assms]
      by (intro exI [of _ "if newest_snapshot B (contents s) FR_VIRTUAL_ACCOUNT h \<noteq> None then ?ks @ [FR_VIRTUAL_ACCOUNT] else ?ks"]
          exI [of _ "settle fs"]) (auto simp: slot_accounts_def handled_def Let_def)
  qed
qed

end

section \<open>The slot as a whole\<close>

text \<open>The rows already on the ledger that the slot may overwrite enter no snapshot.\<close>

definition slot_ids_free :: "uint64 \<Rightarrow> ledger_dbs \<Rightarrow> bool" where
  "slot_ids_free h c = list_all (\<lambda>r. (lr_Id r \<in> lr_Id ` payout_rows h c \<or> promotion_id (lr_Id r)) \<longrightarrow> above h r) (ledger_c c)"

text \<open>
  The accounts looked at are those with a row in the window, unless that read failed and only the
  fractional-reserve account is left; each of them that moved has a snapshot at the slot's height.
\<close>

definition window_snapshotted :: "BalanceRecord collection \<Rightarrow> uint64 \<Rightarrow> uint64 \<Rightarrow> dbs \<Rightarrow> dbs \<Rightarrow> bool" where
  "window_snapshotted B startBlock h s s' \<longleftrightarrow>
     (\<exists>ks. (set ks \<subseteq> {FR_VIRTUAL_ACCOUNT} \<or> {lr_Owner r |r. r \<in> set (ledger_of s') \<and>
         (if startBlock = 0 then 0 else h - 9) \<le> lr_BlockHeight r \<and> lr_BlockHeight r \<le> h} \<subseteq> set ks) \<and>
       (\<forall>k \<in> set ks. moved B (contents s'\<lparr>balances_c := balances_of s\<rparr>) h k \<longrightarrow>
         (k, h) \<in> balance_key ` set (balances_of s')))"

lemma puts_set: "mset xs = puts key rs (mset ys) \<Longrightarrow> set xs \<subseteq> set ys \<union> set rs"
  using mset_eq_setD [of xs "filter (\<lambda>x. key x \<notin> key ` set rs) ys @ last_writes key rs"] set_last_writes [of key rs]
  by (auto simp: puts_eq)

lemma last_writes_keys: "key ` set (last_writes key rs) = key ` set rs"
  by (induction rs) auto

lemma puts_key: "mset xs = puts key rs (mset ys) \<Longrightarrow> r \<in> set rs \<Longrightarrow> key r \<in> key ` set xs"
  using mset_eq_setD [of xs "filter (\<lambda>x. key x \<notin> key ` set rs) ys @ last_writes key rs"] last_writes_keys [of key rs]
  by (auto simp: puts_eq)

context slot_books
begin

lemma slot_writes_sound:
  assumes st: "handled L B A st" "mongo_collection A" and s: "ids_unique (contents s)" "snapshots_sound (contents s)"
    "snapshots_below h (contents s)" "slot_ids_free h (contents s)" and h: "0 < h"
  shows "\<exists>s1 s2. release_unstakes st el bl eh h s = Some ((), s1) \<and> FinalizeMaturedSafetySlashBurns ls h s1 = Some ((), s2) \<and>
    ids_unique (contents s2) \<and> snapshots_sound (contents s2) \<and> snapshots_below h (contents s2) \<and> balances_of s2 = balances_of s"
proof -
  obtain s1 p where r: "release_unstakes st el bl eh h s = Some ((), s1)" "set p \<subseteq> payout_rows h (contents s)"
    "ids_unique (contents s1)" "mset (ledger_of s1) = puts lr_Id p (mset (ledger_of s))" "balances_of s1 = balances_of s"
    using release_effect [OF st s(1)] by blast
  have p: "\<forall>r \<in> set p. above h r" using r(2) by (auto simp: payout_rows_def release_record_def above_def)
  have "\<forall>r \<in> set (ledger_of s). lr_Id r \<in> lr_Id ` set p \<longrightarrow> above h r"
    using s(4) r(2) by (auto simp: slot_ids_free_def list_all_iff)
  note 1 = sound_kept [OF s(2,3) r(4,5) p this]
  obtain s2 rs where f: "FinalizeMaturedSafetySlashBurns ls h s1 = Some ((), s2)" "stored rs s1 s2"
    "\<forall>r \<in> set rs. IsProtocolMetaLedgerType (lr_Type r) \<and> promotion_id (lr_Id r)"
    using finalize_effect [OF r(3) h] by blast
  have q: "\<forall>r \<in> set rs. above h r" using f(3) by (simp add: above_def)
  have "\<forall>r \<in> set (ledger_of s1). lr_Id r \<in> lr_Id ` set rs \<longrightarrow> above h r"
    using puts_set [OF r(4)] p f(3) s(4) by (fastforce simp: slot_ids_free_def list_all_iff)
  note 2 = sound_kept [OF 1 storedD(2,3) [OF f(2)] q this]
  show ?thesis
    using r(1,5) f(1) 2 storedD(1,3) [OF f(2)] by (intro exI [of _ s1] exI [of _ s2]) simp
qed

lemma slot_sound:
  assumes se: "handled L B A (se_LedgerState se)" "mongo_collection A" "se_LedgerSystem se = Some ls" "se_claimDb se = Some K"
    and s: "ids_unique (contents s)" "snapshots_sound (contents s)" "snapshots_below h (contents s)"
      "slot_ids_free h (contents s)" "balances_keyed (contents s)" and h: "0 < h" "h < - 1"
  shows "\<exists>se' s'. UpdateBalances se el bl eh startBlock h s = Some (se', s') \<and> handled L B A (se_LedgerState se') \<and>
    snapshots_sound (contents s') \<and> ids_unique (contents s') \<and> balances_keyed (contents s') \<and>
    (\<forall>b \<in> set (balances_of s'). br_BlockHeight b \<le> h) \<and>
    window_snapshotted B startBlock h s s'"
proof -
  let ?lo = "if startBlock = 0 then 0 else h - 9"
  obtain s1 s2 where w: "release_unstakes (se_LedgerState se) el bl eh h s = Some ((), s1)"
    "FinalizeMaturedSafetySlashBurns ls h s1 = Some ((), s2)" "ids_unique (contents s2)" "snapshots_sound (contents s2)"
    "snapshots_below h (contents s2)" "balances_of s2 = balances_of s"
    using slot_writes_sound [OF se(1,2) s(1-4) h(1)] by blast
  obtain ks fs where k: "slot_accounts (se_LedgerState se) ?lo h s2 = Some (ks, s2\<lparr>faults := fs\<rparr>)"
    "set ks \<subseteq> {FR_VIRTUAL_ACCOUNT} \<or> {lr_Owner r |r. r \<in> set (ledger_of s2) \<and> ?lo \<le> lr_BlockHeight r \<and> lr_BlockHeight r \<le> h} \<subseteq> set ks"
    using accounts_read [OF se(1)] by blast
  obtain cl s3 where cl: "GetLastClaim K h (s2\<lparr>faults := fs\<rparr>) = (cl, s3)" by force
  then have c3: "contents s3 = contents s2"
    by (auto simp: GetLastClaim_def db_call_def split: list.splits call_outcome.splits)
  obtain rs st' fs' where sn: "slot_snapshots h cl ks (se_LedgerState se) s3 = Some ((rs, st'), s3\<lparr>faults := fs'\<rparr>)"
    "handled L B A st'" "\<forall>b \<in> set rs. taken B (contents s2) h b"
    "\<forall>k \<in> set ks. moved B (contents s2) h k \<longrightarrow> k \<in> br_Account ` set rs"
    using slot_reads [OF se(1), of h cl ks s3] c3 by auto
  have "balances_keyed (contents (s3\<lparr>faults := fs'\<rparr>))" using s(5) w(6) c3 by (simp add: balances_keyed_def)
  from snaps.flush_blocks [OF this, of rs] obtain s4 where f: "blockingRetry (UpdateBalanceRecords B rs) (s3\<lparr>faults := fs'\<rparr>) = Some ((), s4)"
    "balances_keyed (contents s4)" "mset (balances_of s4) = puts balance_key rs (mset (balances_of s2))" "ledger_of s4 = ledger_of s2"
    using c3 by auto
  have "UpdateBalances se el bl eh startBlock h s = Some (se\<lparr>se_LedgerState := st'\<rparr>, s4)"
    using w(1,2) k(1) cl sn(1,2) f(1) se(3,4) by (simp add: UpdateBalances_def handled_def)
  moreover have "snapshots_sound (contents s4)"
    by (rule sound_flush [OF snaps.mongo_collection_axioms w(4) h(2) sn(3) f(3,4)])
  moreover have "\<forall>b \<in> set (balances_of s4). br_BlockHeight b \<le> h"
    using puts_set [OF f(3)] w(5) sn(3) by (fastforce simp: snapshots_below_def list_all_iff taken_def)
  moreover have "(k, h) \<in> balance_key ` set (balances_of s4)"
    if "k \<in> set ks" "moved B (contents s4\<lparr>balances_c := balances_of s\<rparr>) h k" for k
  proof -
    have "moved B (contents s2) h k" using that(2) w(6) f(4) by (simp add: moved_def newest_snapshot_def)
    with sn(4) that(1) obtain b where "b \<in> set rs" "br_Account b = k" by auto
    then show ?thesis using puts_key [OF f(3), of b] sn(3) by (auto simp: balance_key_def taken_def)
  qed
  ultimately show ?thesis
    using sn(2) w(3) f(2,4) k(2) unfolding window_snapshotted_def
    by (intro exI [of _ "se\<lparr>se_LedgerState := st'\<rparr>"] exI [of _ s4] conjI exI [of _ ks]) (simp_all add: ids_unique_def)
qed

end

interpretation list_slots: slot_books list_collection list_system list_collection list_collection
  by unfold_locales


definition slot_engine :: StateEngine where
  "slot_engine = \<lparr>se_LedgerState = NewEmptyState (Some list_collection) (Some list_collection) (Some list_collection),
     se_LedgerSystem = Some list_system, se_claimDb = Some list_collection\<rparr>"

definition unstake_action :: ActionRecord where
  "unstake_action = ActionRecord_zero\<lparr>ar_Id := ''u1'', ar_Status := ''pending'', ar_Amount := 500, ar_Asset := ''-'',
     ar_To := ''hive:alice'', ar_Type := ''consensus_unstake'', ar_Params := [''epoch'' \<mapsto> GUint64 5]\<rparr>"

definition unstaking :: ledger_dbs where
  "unstaking = \<lparr>ledger_c = [], balances_c = [], actions_c = [unstake_action], claims_c = []\<rparr>"


section \<open>A payout retried after a failed completion\<close>

text \<open>
  Two slots with one matured unstake, in which the call that marks the action complete fails in the
  first. The second slot writes the payout row again, at its own height: the snapshot of the first
  slot already contains it, and the account is paid twice.
\<close>

definition plain_engine :: StateEngine where
  "plain_engine = slot_engine\<lparr>se_LedgerSystem := None\<rparr>"

definition slot_at :: "uint64 \<Rightarrow> StateEngine \<times> dbs \<Rightarrow> (StateEngine \<times> dbs) option" where
  "slot_at h p = UpdateBalances (fst p) (Some 5) (\<lambda>_. False) (\<lambda>_. False) (h - 10) h (snd p)"

definition balance_at :: "uint64 \<Rightarrow> StateEngine \<times> dbs \<Rightarrow> int64 option" where
  "balance_at h p = map_option fst (GetBalance (se_LedgerState (fst p)) ''hive:alice'' h ''hive'' (snd p))"

lemmas slot_eval = UpdateBalances_def release_unstakes_def getPendingActionsByEpochOrBlock_def GetPendingActionsByEpoch_def
  payout_held_def release_record_def StoreLedger_def upsert_ledger_def ExecuteComplete_def complete_action_def
  slot_accounts_def GetDistinctAccountsRange_def balanceRecordOrBlock_def GetBalanceRecord_def GetLastClaim_def
  account_snapshot_def getLedgerRangeOrBlock_def GetLedgerRange_def new_snapshot_def ledger_balances_def
  average_and_claim_def accrued_def claim_height_def record_height_def record_or_zero_def snapshot_base_def
  UpdateBalanceRecords_def upsert_balance_def balance_key_def DropVirtual_def range_query_def opType_filter_def
  balance_query_def newest_balance_def blockingRetry_def blockingLedgerRead_def retry_loop.simps db_call_def
  list_collection_def sort_by_def zero_records FR_VIRTUAL_ACCOUNT_def IsProtocolMetaLedgerType_def ledger_types
  NewEmptyState_def non_nil_def

definition paid_row :: "uint64 \<Rightarrow> LedgerRecord" where
  "paid_row h = release_record h unstake_action"

lemma first_slot:
  "\<exists>st. slot_at 100 (plain_engine, \<lparr>contents = unstaking, faults = [CallOk, CallOk, RequestLost]\<rparr>) =
     Some (plain_engine\<lparr>se_LedgerState := st\<rparr>, \<lparr>contents = unstaking\<lparr>ledger_c := [paid_row 100],
       balances_c := [BalanceRecord_zero\<lparr>br_Account := ''hive:alice'', br_BlockHeight := 100, br_Hive := 500, br_HBD_MODIFY_HEIGHT := 100\<rparr>]\<rparr>, faults = []\<rparr>) \<and>
     handled list_collection list_collection list_collection st"
  by (simp add: slot_at_def plain_engine_def slot_engine_def unstaking_def unstake_action_def paid_row_def slot_eval handled_def Let_def)

lemma second_slot:
  assumes "handled list_collection list_collection list_collection st"
  shows "\<exists>st'. slot_at 110 (plain_engine\<lparr>se_LedgerState := st\<rparr>, \<lparr>contents = unstaking\<lparr>ledger_c := [paid_row 100],
       balances_c := [BalanceRecord_zero\<lparr>br_Account := ''hive:alice'', br_BlockHeight := 100, br_Hive := 500, br_HBD_MODIFY_HEIGHT := 100\<rparr>]\<rparr>, faults = []\<rparr>) =
     Some (plain_engine\<lparr>se_LedgerState := st'\<rparr>, \<lparr>contents = \<lparr>ledger_c = [paid_row 110],
       balances_c = [BalanceRecord_zero\<lparr>br_Account := ''hive:alice'', br_BlockHeight := 100, br_Hive := 500, br_HBD_MODIFY_HEIGHT := 100\<rparr>,
         BalanceRecord_zero\<lparr>br_Account := ''hive:alice'', br_BlockHeight := 110, br_Hive := 1000, br_HBD_MODIFY_HEIGHT := 110\<rparr>],
       actions_c = [unstake_action\<lparr>ar_Status := ''complete''\<rparr>], claims_c = []\<rparr>, faults = []\<rparr>) \<and>
     handled list_collection list_collection list_collection st'"
  using assms
  by (simp add: slot_at_def plain_engine_def slot_engine_def unstaking_def unstake_action_def paid_row_def slot_eval handled_def Let_def)


text \<open>
  The payout write itself is not retried within the slot: a node on which it fails pays a slot later
  than its peers, and until then reports another balance at the same height.
\<close>

theorem failed_payout_write_diverges:
  "\<exists>p q. slot_at 100 (plain_engine, \<lparr>contents = unstaking, faults = [CallOk, RequestLost]\<rparr>) = Some p \<and>
    slot_at 100 (plain_engine, \<lparr>contents = unstaking, faults = []\<rparr>) = Some q \<and>
    balance_at 100 p = Some 0 \<and> balance_at 100 q = Some 500"
  by (simp add: slot_at_def balance_at_def GetBalance_def ledgerRangeOrBlock_def assetTypes_def transferableAssetTypes_def
      AssetDelegation_def AssetDelegationTotal_def plain_engine_def slot_engine_def unstaking_def unstake_action_def
      slot_eval Let_def)

end
