(* ===== verification/ConsensusVersion.thy ===== *)
theory ConsensusVersion
  imports Prelude
begin

text \<open>
  Consensus versions and the feature gates (modules/common/consensusversion). A version has three
  components; \<open>Cmp\<close> orders versions lexicographically, while a gate compares the first two components
  one by one. Every consensus-affecting feature asks a gate about the version in force.
\<close>

datatype Version = Version (Major: uint64) (Consensus: uint64) (NonConsensus: uint64)

definition Cmp :: "Version \<Rightarrow> Version \<Rightarrow> int" where
  "Cmp a b =
     (if Major a \<noteq> Major b then if Major a < Major b then - 1 else 1
      else if Consensus a \<noteq> Consensus b then if Consensus a < Consensus b then - 1 else 1
      else if NonConsensus a \<noteq> NonConsensus b then if NonConsensus a < NonConsensus b then - 1 else 1
      else 0)"

definition AtLeast :: "Version \<Rightarrow> Version \<Rightarrow> bool" where
  "AtLeast v m \<longleftrightarrow> Major m \<le> Major v \<and> Consensus m \<le> Consensus v \<and> NonConsensus m \<le> NonConsensus v"

definition MeetsConsensusMin :: "Version \<Rightarrow> Version \<Rightarrow> bool" where
  "MeetsConsensusMin v m \<longleftrightarrow> Major m \<le> Major v \<and> Consensus m \<le> Consensus v"

definition Version_Format :: "Version \<Rightarrow> string" where
  "Version_Format v = FormatUint (Major v) @ ''.'' @ FormatUint (Consensus v) @ ''.'' @ FormatUint (NonConsensus v)"

definition FormatProvisional :: "Version \<Rightarrow> string" where
  "FormatProvisional v = FormatUint (Major v) @ ''.'' @ FormatUint (Consensus v + 1) @ ''.0-p''"

definition FromLegacy :: "uint64 \<Rightarrow> Version" where
  "FromLegacy protocolVersion = Version 0 protocolVersion 0"

definition MaxComponentwise :: "Version \<Rightarrow> Version \<Rightarrow> Version" where
  "MaxComponentwise a b =
     Version (if Major a < Major b then Major b else Major a)
       (if Consensus a < Consensus b then Consensus b else Consensus a)
       (if NonConsensus a < NonConsensus b then NonConsensus b else NonConsensus a)"

definition ParseComponent :: "string \<Rightarrow> uint64" where
  "ParseComponent raw = (if raw = [] then 0 else case ParseUint raw of None \<Rightarrow> 0 | Some v \<Rightarrow> v)"

definition RunningVersion :: Version where
  "RunningVersion = Version 0 12 0"

section \<open>Feature gates\<close>

definition V0_2_0 :: Version where "V0_2_0 = Version 0 2 0"
definition V0_3_0 :: Version where "V0_3_0 = Version 0 3 0"
definition V0_4_0 :: Version where "V0_4_0 = Version 0 4 0"
definition V0_5_0 :: Version where "V0_5_0 = Version 0 5 0"
definition V0_7_0 :: Version where "V0_7_0 = Version 0 7 0"
definition V0_8_0 :: Version where "V0_8_0 = Version 0 8 0"
definition V0_9_0 :: Version where "V0_9_0 = Version 0 9 0"
definition V0_10_0 :: Version where "V0_10_0 = Version 0 10 0"
definition V0_11_0 :: Version where "V0_11_0 = Version 0 11 0"
definition V0_12_0 :: Version where "V0_12_0 = Version 0 12 0"

definition Version0_2_0Active :: "Version \<Rightarrow> bool" where "Version0_2_0Active active \<longleftrightarrow> MeetsConsensusMin active V0_2_0"
definition Version0_3_0Active :: "Version \<Rightarrow> bool" where "Version0_3_0Active active \<longleftrightarrow> MeetsConsensusMin active V0_3_0"
definition Version0_4_0Active :: "Version \<Rightarrow> bool" where "Version0_4_0Active active \<longleftrightarrow> MeetsConsensusMin active V0_4_0"
definition Version0_5_0Active :: "Version \<Rightarrow> bool" where "Version0_5_0Active active \<longleftrightarrow> MeetsConsensusMin active V0_5_0"
definition Version0_7_0Active :: "Version \<Rightarrow> bool" where "Version0_7_0Active active \<longleftrightarrow> MeetsConsensusMin active V0_7_0"
definition Version0_8_0Active :: "Version \<Rightarrow> bool" where "Version0_8_0Active active \<longleftrightarrow> MeetsConsensusMin active V0_8_0"
definition Version0_9_0Active :: "Version \<Rightarrow> bool" where "Version0_9_0Active active \<longleftrightarrow> MeetsConsensusMin active V0_9_0"
definition Version0_10_0Active :: "Version \<Rightarrow> bool" where "Version0_10_0Active active \<longleftrightarrow> MeetsConsensusMin active V0_10_0"
definition Version0_11_0Active :: "Version \<Rightarrow> bool" where "Version0_11_0Active active \<longleftrightarrow> MeetsConsensusMin active V0_11_0"
definition Version0_12_0Active :: "Version \<Rightarrow> bool" where "Version0_12_0Active active \<longleftrightarrow> MeetsConsensusMin active V0_12_0"
definition WitnessKeyStrictActive :: "Version \<Rightarrow> bool" where "WitnessKeyStrictActive active \<longleftrightarrow> False"
definition ContractUpdateTimelockActive :: "Version \<Rightarrow> bool" where "ContractUpdateTimelockActive active \<longleftrightarrow> Version0_2_0Active active"
definition GatewayDecentralizationActive :: "Version \<Rightarrow> bool" where "GatewayDecentralizationActive active \<longleftrightarrow> Version0_2_0Active active"
definition GovernanceActionsActive :: "Version \<Rightarrow> bool" where "GovernanceActionsActive active \<longleftrightarrow> Version0_3_0Active active"
definition SafetySlashBurnDelay7dActive :: "Version \<Rightarrow> bool" where "SafetySlashBurnDelay7dActive active \<longleftrightarrow> Version0_3_0Active active"
definition MinMembersGuardActive :: "Version \<Rightarrow> bool" where "MinMembersGuardActive active \<longleftrightarrow> Version0_4_0Active active"
definition UnstakeHbdDirectionFixActive :: "Version \<Rightarrow> bool" where "UnstakeHbdDirectionFixActive active \<longleftrightarrow> Version0_4_0Active active"
definition DelegatedStakeActive :: "Version \<Rightarrow> bool" where "DelegatedStakeActive active \<longleftrightarrow> Version0_5_0Active active"
definition PoaAdmissionOpsActive :: "Version \<Rightarrow> bool" where "PoaAdmissionOpsActive active \<longleftrightarrow> Version0_7_0Active active"
definition PoaSeatGateActive :: "Version \<Rightarrow> bool" where "PoaSeatGateActive active \<longleftrightarrow> Version0_7_0Active active"
definition PoaFlatWeightActive :: "Version \<Rightarrow> bool" where "PoaFlatWeightActive active \<longleftrightarrow> Version0_7_0Active active"
definition PoaChurnCapActive :: "Version \<Rightarrow> bool" where "PoaChurnCapActive active \<longleftrightarrow> Version0_7_0Active active"
definition VaultRotationV2Active :: "Version \<Rightarrow> bool" where "VaultRotationV2Active active \<longleftrightarrow> Version0_8_0Active active"
definition ForcedFloorRespectsQuorumActive :: "Version \<Rightarrow> bool" where "ForcedFloorRespectsQuorumActive active \<longleftrightarrow> Version0_8_0Active active"
definition BlsWeightDedupActive :: "Version \<Rightarrow> bool" where "BlsWeightDedupActive active \<longleftrightarrow> Version0_8_0Active active"
definition TssCommitmentBundleCapActive :: "Version \<Rightarrow> bool" where "TssCommitmentBundleCapActive active \<longleftrightarrow> Version0_8_0Active active"
definition PoaExitHaltActive :: "Version \<Rightarrow> bool" where "PoaExitHaltActive active \<longleftrightarrow> Version0_7_0Active active"
definition PoaHaltOnBondedNodeActive :: "Version \<Rightarrow> bool" where "PoaHaltOnBondedNodeActive active \<longleftrightarrow> Version0_9_0Active active"
definition PoaAdmissionReopenActive :: "Version \<Rightarrow> bool" where "PoaAdmissionReopenActive active \<longleftrightarrow> Version0_9_0Active active"
definition PoaElectorateDropsDepartedActive :: "Version \<Rightarrow> bool" where "PoaElectorateDropsDepartedActive active \<longleftrightarrow> Version0_9_0Active active"
definition PoaStarvationTopUpActive :: "Version \<Rightarrow> bool" where "PoaStarvationTopUpActive active \<longleftrightarrow> Version0_9_0Active active"
definition PoaBondLockedWhileShareFundedActive :: "Version \<Rightarrow> bool" where "PoaBondLockedWhileShareFundedActive active \<longleftrightarrow> Version0_9_0Active active"
definition TssPerAccusedBlameActive :: "Version \<Rightarrow> bool" where "TssPerAccusedBlameActive active \<longleftrightarrow> Version0_9_0Active active"
definition TssUnattributableCulpritsDroppedActive :: "Version \<Rightarrow> bool" where "TssUnattributableCulpritsDroppedActive active \<longleftrightarrow> Version0_9_0Active active"
definition TssSessionShapeActive :: "Version \<Rightarrow> bool" where "TssSessionShapeActive active \<longleftrightarrow> Version0_7_0Active active"
definition BtcKeysignHaltActive :: "Version \<Rightarrow> bool" where "BtcKeysignHaltActive active \<longleftrightarrow> Version0_7_0Active active"
definition TssKeyLifecycleActive :: "Version \<Rightarrow> bool" where "TssKeyLifecycleActive active \<longleftrightarrow> Version0_7_0Active active"
definition PoaBootstrapFromPriorCommitteeActive :: "Version \<Rightarrow> bool" where "PoaBootstrapFromPriorCommitteeActive active \<longleftrightarrow> Version0_9_0Active active"
definition PoaBootstrapProvesKeysActive :: "Version \<Rightarrow> bool" where "PoaBootstrapProvesKeysActive active \<longleftrightarrow> Version0_9_0Active active"
definition PoaTransitionChurnCapActive :: "Version \<Rightarrow> bool" where "PoaTransitionChurnCapActive active \<longleftrightarrow> Version0_9_0Active active"
definition TssReshareKeepsThresholdActive :: "Version \<Rightarrow> bool" where "TssReshareKeepsThresholdActive active \<longleftrightarrow> Version0_9_0Active active"
definition TssBanYieldsToQuorumActive :: "Version \<Rightarrow> bool" where "TssBanYieldsToQuorumActive active \<longleftrightarrow> Version0_9_0Active active"
definition GatewayEqualWeightsActive :: "Version \<Rightarrow> bool" where "GatewayEqualWeightsActive active \<longleftrightarrow> Version0_9_0Active active"
definition SettlementClosedSlotsActive :: "Version \<Rightarrow> bool" where "SettlementClosedSlotsActive active \<longleftrightarrow> Version0_9_0Active active"
definition Sp1WorkPricingActive :: "Version \<Rightarrow> bool" where "Sp1WorkPricingActive active \<longleftrightarrow> Version0_10_0Active active"
definition ApplySkipsHandledTxActive :: "Version \<Rightarrow> bool" where "ApplySkipsHandledTxActive active \<longleftrightarrow> Version0_10_0Active active"
definition TssAccuseYieldsToFloorActive :: "Version \<Rightarrow> bool" where "TssAccuseYieldsToFloorActive active \<longleftrightarrow> Version0_12_0Active active"
definition TssAccuseStackActive :: "Version \<Rightarrow> bool" where "TssAccuseStackActive active \<longleftrightarrow> Version0_12_0Active active"
definition PeerIdPoPActive :: "Version \<Rightarrow> bool" where "PeerIdPoPActive active \<longleftrightarrow> Version0_12_0Active active"
definition HivePrefixRecipientActive :: "Version \<Rightarrow> bool" where "HivePrefixRecipientActive active \<longleftrightarrow> Version0_12_0Active active"
definition PendingKeyReshareActive :: "Version \<Rightarrow> bool" where "PendingKeyReshareActive active \<longleftrightarrow> Version0_12_0Active active"
definition KeyResharedFlagActive :: "Version \<Rightarrow> bool" where "KeyResharedFlagActive active \<longleftrightarrow> Version0_11_0Active active"
definition ActiveKeyHoldersBoundActive :: "Version \<Rightarrow> bool" where "ActiveKeyHoldersBoundActive active \<longleftrightarrow> Version0_11_0Active active"

section \<open>The order of versions\<close>

instantiation Version :: linorder
begin

definition less_eq_Version :: "Version \<Rightarrow> Version \<Rightarrow> bool" where
  "a \<le> b \<longleftrightarrow> Major a < Major b \<or> Major a = Major b \<and>
     (Consensus a < Consensus b \<or> Consensus a = Consensus b \<and> NonConsensus a \<le> NonConsensus b)"

definition less_Version :: "Version \<Rightarrow> Version \<Rightarrow> bool" where
  "(a :: Version) < b \<longleftrightarrow> a \<le> b \<and> \<not> b \<le> a"

instance
  by standard (auto simp: less_eq_Version_def less_Version_def intro: Version.expand)

end

lemma Cmp_order:
  "Cmp a b = - 1 \<longleftrightarrow> a < b" "Cmp a b = 1 \<longleftrightarrow> b < a" "Cmp a b = 0 \<longleftrightarrow> a = b"
  by (auto simp: Cmp_def less_eq_Version_def less_Version_def intro: Version.expand)

lemmas version_lines = V0_2_0_def V0_3_0_def V0_4_0_def V0_5_0_def V0_7_0_def V0_8_0_def V0_9_0_def V0_10_0_def
  V0_11_0_def V0_12_0_def
lemmas line_gates = Version0_2_0Active_def Version0_3_0Active_def Version0_4_0Active_def Version0_5_0Active_def
  Version0_7_0Active_def Version0_8_0Active_def Version0_9_0Active_def Version0_10_0Active_def Version0_11_0Active_def
  Version0_12_0Active_def
lemmas feature_gates =
  WitnessKeyStrictActive_def ContractUpdateTimelockActive_def GatewayDecentralizationActive_def
  GovernanceActionsActive_def SafetySlashBurnDelay7dActive_def MinMembersGuardActive_def
  UnstakeHbdDirectionFixActive_def DelegatedStakeActive_def PoaAdmissionOpsActive_def PoaSeatGateActive_def
  PoaFlatWeightActive_def PoaChurnCapActive_def VaultRotationV2Active_def ForcedFloorRespectsQuorumActive_def
  BlsWeightDedupActive_def TssCommitmentBundleCapActive_def PoaExitHaltActive_def
  PoaHaltOnBondedNodeActive_def PoaAdmissionReopenActive_def PoaElectorateDropsDepartedActive_def
  PoaStarvationTopUpActive_def PoaBondLockedWhileShareFundedActive_def TssPerAccusedBlameActive_def
  TssUnattributableCulpritsDroppedActive_def TssSessionShapeActive_def BtcKeysignHaltActive_def
  TssKeyLifecycleActive_def PoaBootstrapFromPriorCommitteeActive_def PoaBootstrapProvesKeysActive_def
  PoaTransitionChurnCapActive_def TssReshareKeepsThresholdActive_def TssBanYieldsToQuorumActive_def
  GatewayEqualWeightsActive_def SettlementClosedSlotsActive_def Sp1WorkPricingActive_def
  ApplySkipsHandledTxActive_def TssAccuseYieldsToFloorActive_def TssAccuseStackActive_def PeerIdPoPActive_def
  HivePrefixRecipientActive_def PendingKeyReshareActive_def KeyResharedFlagActive_def
  ActiveKeyHoldersBoundActive_def

definition feature_list :: "(Version \<Rightarrow> bool) list" where
  "feature_list = [
     WitnessKeyStrictActive, ContractUpdateTimelockActive, GatewayDecentralizationActive,
     GovernanceActionsActive, SafetySlashBurnDelay7dActive, MinMembersGuardActive,
     UnstakeHbdDirectionFixActive, DelegatedStakeActive, PoaAdmissionOpsActive, PoaSeatGateActive,
     PoaFlatWeightActive, PoaChurnCapActive, VaultRotationV2Active, ForcedFloorRespectsQuorumActive,
     BlsWeightDedupActive, TssCommitmentBundleCapActive, PoaExitHaltActive, PoaHaltOnBondedNodeActive,
     PoaAdmissionReopenActive, PoaElectorateDropsDepartedActive, PoaStarvationTopUpActive,
     PoaBondLockedWhileShareFundedActive, TssPerAccusedBlameActive, TssUnattributableCulpritsDroppedActive,
     TssSessionShapeActive, BtcKeysignHaltActive, TssKeyLifecycleActive,
     PoaBootstrapFromPriorCommitteeActive, PoaBootstrapProvesKeysActive, PoaTransitionChurnCapActive,
     TssReshareKeepsThresholdActive, TssBanYieldsToQuorumActive, GatewayEqualWeightsActive,
     SettlementClosedSlotsActive, Sp1WorkPricingActive, ApplySkipsHandledTxActive,
     TssAccuseYieldsToFloorActive, TssAccuseStackActive, PeerIdPoPActive, HivePrefixRecipientActive,
     PendingKeyReshareActive, KeyResharedFlagActive, ActiveKeyHoldersBoundActive]"

text \<open>
  The comparison of versions is the lexicographic order, and no feature is lost on a rise of the
  version in force: a gate that is open at a version is open at every version whose components are
  all at least as large, so for a rise within one major version the gates only open.
\<close>

theorem gates_open_monotonically:
  assumes "g \<in> set feature_list" "Major v = Major w"
  shows "(Cmp v w = - 1 \<longleftrightarrow> v < w) \<and> (Cmp v w = 0 \<longleftrightarrow> v = w) \<and> (g v \<and> v \<le> w \<longrightarrow> g w)"
proof -
  have "g w" if "g v" "v \<le> w"
  proof -
    from that(2) assms(2) have c: "Consensus v \<le> Consensus w" by (auto simp: less_eq_Version_def)
    show ?thesis
      using assms(1) that(1) assms(2) order_trans [OF _ c]
      by (auto simp: feature_list_def feature_gates line_gates version_lines MeetsConsensusMin_def)
  qed
  then show ?thesis by (auto simp: Cmp_order)
qed

theorem gates_open_monotonically_witness:
  "Cmp (Version 0 9 0) (Version 0 10 3) = - 1 \<and> PoaExitHaltActive (Version 0 10 3)"
proof -
  have "PoaExitHaltActive \<in> set feature_list" by (simp add: feature_list_def)
  then show ?thesis
    using gates_open_monotonically [of PoaExitHaltActive "Version 0 9 0" "Version 0 10 3"]
    by (simp add: less_eq_Version_def less_Version_def PoaExitHaltActive_def line_gates version_lines MeetsConsensusMin_def)
qed

text \<open>
  A rise of the major version closes every gate whose line it does not repeat: version 1.0.0
  comes after every version with major component zero, and no feature is active at it.
\<close>

theorem next_major_closes_gates:
  "Cmp RunningVersion (Version 1 0 0) = - 1 \<and> filter (\<lambda>g. g (Version 1 0 0)) feature_list = []"
  by (simp add: Cmp_def RunningVersion_def feature_list_def feature_gates line_gates version_lines MeetsConsensusMin_def)

end
