(* ===== verification/Deposit.thy ===== *)
theory Deposit
  imports Session Actions ConsensusVersion
begin

text \<open>
  Deposits: transfers of the base chain to the gateway account (modules/state-processing/state_engine.go) and
  their credit in the ledger (\<open>Deposit\<close> of modules/ledger-system/ledger_system.go). The memo of a transfer
  names the recipient, as the field \<open>to\<close> of a query string (\<open>url.ParseQuery\<close>) or of a JSON object.

  Two functions are arguments: \<open>unmarshal\<close>, which gives the field \<open>to\<close> of a memo that \<open>encoding/json\<close> accepts,
  and \<open>checksummed\<close>, the checksummed spelling of an address by the package go-ethereum.
\<close>

section \<open>Query strings\<close>

definition hex_value :: "char \<Rightarrow> nat" where
  "hex_value c =
     (if isDigit c then of_char c - 48
      else if CHR ''a'' \<le> c \<and> c \<le> CHR ''f'' then of_char c - 87
      else of_char c - 55)"

text \<open>\<open>url.QueryUnescape\<close>; \<open>None\<close> is an error.\<close>

fun QueryUnescape :: "string \<Rightarrow> string option" where
  "QueryUnescape [] = Some []"
| "QueryUnescape (c # cs) =
     (if c = CHR ''%'' then
        (case cs of
           a # b # rest \<Rightarrow>
             if is_hex a \<and> is_hex b then map_option (Cons (char_of (16 * hex_value a + hex_value b))) (QueryUnescape rest)
             else None
         | _ \<Rightarrow> None)
      else map_option (Cons (if c = CHR ''+'' then CHR '' '' else c)) (QueryUnescape cs))"

definition CutByte :: "char \<Rightarrow> string \<Rightarrow> string \<times> string" where
  "CutByte c s = (takeWhile (\<lambda>x. x \<noteq> c) s, tl (dropWhile (\<lambda>x. x \<noteq> c) s))"

text \<open>
  \<open>url.ParseQuery\<close>: the pairs in order and whether some part was malformed. A part with a semicolon or a bad
  escape is an error; the other parts are still read.
\<close>

definition query_part :: "string \<Rightarrow> (string \<times> string) list \<times> bool \<Rightarrow> (string \<times> string) list \<times> bool" where
  "query_part part st =
     (if CHR '';'' \<in> set part then (fst st, True)
      else if part = [] then st
      else let (k, v) = CutByte CHR ''='' part in
        (case (QueryUnescape k, QueryUnescape v) of
           (Some k, Some v) \<Rightarrow> (fst st @ [(k, v)], snd st)
         | _ \<Rightarrow> (fst st, True)))"

definition ParseQuery :: "string \<Rightarrow> (string \<times> string) list \<times> bool" where
  "ParseQuery query = fold query_part (SplitOn CHR ''&'' query) ([], False)"

definition query_Get :: "(string \<times> string) list \<Rightarrow> string \<Rightarrow> string" where
  "query_Get values k = (case map_of values k of None \<Rightarrow> [] | Some v \<Rightarrow> v)"

section \<open>The recipient\<close>

record Deposit =
  dp_Id :: string
  dp_BlockHeight :: uint64
  dp_Amount :: int64
  dp_Asset :: string
  dp_Memo :: string
  dp_From :: string
  dp_HivePrefixRecipientFix :: bool

definition memo_recipient :: "(string \<Rightarrow> string option) \<Rightarrow> Deposit \<Rightarrow> string" where
  "memo_recipient unmarshal d =
     (case ParseQuery (dp_Memo d) of
        (values, False) \<Rightarrow> query_Get values ''to''
      | (_, True) \<Rightarrow> (case unmarshal (dp_Memo d) of None \<Rightarrow> dp_From d | Some to \<Rightarrow> to))"

definition resolve_recipient :: "Deposit \<Rightarrow> string \<Rightarrow> string" where
  "resolve_recipient d to =
     (if valid_hive_name to then ''hive:'' @ to
      else if ethRegex to then ''did:pkh:eip155:1:'' @ to
      else if HasPrefix to ''hive:'' \<and> dp_HivePrefixRecipientFix d then
        (let name = TrimPrefix to ''hive:'' in if \<not> valid_hive_name name then dp_From d else to)
      else if HasPrefix to ''hive:'' then
        (if \<not> (hiveRegex (SplitOn CHR '':'' to ! 1) \<and> 3 \<le> length to \<and> length to < 17) then ''hive:'' @ dp_From d else to)
      else if HasPrefix to ''did:'' then to
      else dp_From d)"

definition ethDIDPrefix :: string where
  "ethDIDPrefix = ''did:pkh:eip155:1:''"

definition normalizeEthDID :: "(string \<Rightarrow> string) \<Rightarrow> string \<Rightarrow> string" where
  "normalizeEthDID checksummed account =
     (if \<not> HasPrefix account ethDIDPrefix then account
      else let addr = drop (length ethDIDPrefix) account in
        if \<not> ethRegex addr then account else ethDIDPrefix @ checksummed addr)"

text \<open>The configured height, when the system has a configuration; zero disables the rule.\<close>

definition EvmAddressChecksumActive :: "uint64 \<Rightarrow> uint64 \<Rightarrow> bool" where
  "EvmAddressChecksumActive EvmAddressChecksumHeight blockHeight \<longleftrightarrow>
     EvmAddressChecksumHeight \<noteq> 0 \<and> EvmAddressChecksumHeight \<le> blockHeight"

record deposit_env =
  env_unmarshal :: "string \<Rightarrow> string option"
  env_checksummed :: "string \<Rightarrow> string"
  env_sconf :: "uint64 option"

definition deposit_owner :: "deposit_env \<Rightarrow> Deposit \<Rightarrow> string" where
  "deposit_owner env d =
     (let to = resolve_recipient d (memo_recipient (env_unmarshal env) d) in
      case env_sconf env of
        None \<Rightarrow> to
      | Some h \<Rightarrow> if EvmAddressChecksumActive h (dp_BlockHeight d) then normalizeEthDID (env_checksummed env) to else to)"

section \<open>The credit\<close>

definition deposit_record :: "Deposit \<Rightarrow> string \<Rightarrow> LedgerRecord" where
  "deposit_record d owner = LedgerRecord_zero\<lparr>lr_Id := dp_Id d, lr_BlockHeight := dp_BlockHeight d,
     lr_Amount := dp_Amount d, lr_Asset := dp_Asset d, lr_From := dp_From d, lr_Owner := owner,
     lr_Type := ''deposit'', lr_TxId := dp_Id d\<rparr>"

text \<open>An error of the write is logged and dropped.\<close>

definition ledger_Deposit :: "deposit_env \<Rightarrow> ledgerSystem \<Rightarrow> Deposit \<Rightarrow> dbs \<Rightarrow> string ledger_call" where
  "ledger_Deposit env ls d s = do {
     let owner = deposit_owner env d;
     L \<leftarrow> sy_LedgerDb ls;
     Some (owner, snd (StoreLedger L [deposit_record d owner] s))
   }"

section \<open>Transfers to the gateway\<close>

text \<open>
  A transfer of the base chain as the handler sees it. The fields come from an untyped map: \<open>None\<close> is a field
  that is missing or not a string (for the amount, not an object of the two fields that are read).
\<close>

record TransferOp =
  tf_From :: "string option"
  tf_To :: "string option"
  tf_Memo :: "string option"
  tf_Amount :: "(string option \<times> string option) option"

definition ParseInt :: "string \<Rightarrow> int64 option" where
  "ParseInt s =
     (let (neg, digits) = (case s of [] \<Rightarrow> (False, []) | c # cs \<Rightarrow>
            if c = CHR ''-'' then (True, cs) else if c = CHR ''+'' then (False, cs) else (False, s));
          v = (if neg then - int (dec_value digits) else int (dec_value digits))
      in if digits \<noteq> [] \<and> list_all isDigit digits \<and> fits_int64 v then Some (word_of_int v) else None)"

definition MakeTxId :: "string \<Rightarrow> nat \<Rightarrow> string" where
  "MakeTxId TxId opIdx = (if opIdx = 0 then TxId else TxId @ ''-'' @ nat_to_dec opIdx)"

definition transfer_token :: "string option \<Rightarrow> string" where
  "transfer_token nai =
     (if nai = Some ''@@000000021'' then ''hive'' else if nai = Some ''@@000000013'' then ''hbd'' else [])"

definition transfer_deposit :: "string \<Rightarrow> Version \<Rightarrow> string \<Rightarrow> uint64 \<Rightarrow> nat \<Rightarrow> TransferOp \<Rightarrow> Deposit option" where
  "transfer_deposit gatewayWallet active txId blockHeight opIndex op =
     (if tf_From op = Some gatewayWallet then None
      else do {
        (nai, amount) \<leftarrow> tf_Amount op;
        let token = transfer_token nai;
        if token = [] then None
        else do {
          amtStr \<leftarrow> amount;
          amt \<leftarrow> ParseInt amtStr;
          if tf_To op \<noteq> Some ''vsc.gateway'' then None
          else do {
            fromStr \<leftarrow> tf_From op;
            Some \<lparr>dp_Id = MakeTxId txId opIndex, dp_BlockHeight = blockHeight, dp_Amount = amt, dp_Asset = token,
              dp_Memo = (case tf_Memo op of None \<Rightarrow> [] | Some m \<Rightarrow> m), dp_From = ''hive:'' @ fromStr,
              dp_HivePrefixRecipientFix = HivePrefixRecipientActive active\<rparr>
          }
        }
      })"

text \<open>The operations of a transaction in order, \<open>None\<close> for one that is not a transfer.\<close>

fun gateway_deposits :: "string \<Rightarrow> Version \<Rightarrow> string \<Rightarrow> uint64 \<Rightarrow> nat \<Rightarrow> TransferOp option list \<Rightarrow> Deposit list" where
  "gateway_deposits gatewayWallet active txId blockHeight opIndex [] = []"
| "gateway_deposits gatewayWallet active txId blockHeight opIndex (op # ops) =
     (case op of None \<Rightarrow> [] | Some op \<Rightarrow>
        (case transfer_deposit gatewayWallet active txId blockHeight opIndex op of None \<Rightarrow> [] | Some d \<Rightarrow> [d]))
     @ gateway_deposits gatewayWallet active txId blockHeight (Suc opIndex) ops"

fun credit_deposits :: "deposit_env \<Rightarrow> ledgerSystem \<Rightarrow> Deposit list \<Rightarrow> dbs \<Rightarrow> unit ledger_call" where
  "credit_deposits env ls [] s = Some ((), s)"
| "credit_deposits env ls (d # ds) s = do {
     (_, s) \<leftarrow> ledger_Deposit env ls d s;
     credit_deposits env ls ds s
   }"

definition process_transfers ::
  "deposit_env \<Rightarrow> ledgerSystem \<Rightarrow> string \<Rightarrow> Version \<Rightarrow> string \<Rightarrow> uint64 \<Rightarrow> TransferOp option list \<Rightarrow> dbs \<Rightarrow> unit ledger_call" where
  "process_transfers env ls gatewayWallet active txId blockHeight ops =
     credit_deposits env ls (gateway_deposits gatewayWallet active txId blockHeight 0 ops)"

section \<open>Recipients\<close>

definition plain :: "string \<Rightarrow> bool" where
  "plain s \<longleftrightarrow> list_all (\<lambda>c. c \<notin> set ''%+&;='') s"

lemma split_chars: "x \<in> set s \<Longrightarrow> x \<noteq> c \<Longrightarrow> \<exists>w \<in> set (SplitOn c s). x \<in> set w"
  by (induction s) (fastforce split: list.split)+

lemma hive_name_chars:
  assumes "valid_hive_name n" "c \<in> set n"
  shows "isDigit c \<or> is_lower c \<or> c = CHR ''-'' \<or> c = CHR ''.''"
  using assms split_chars [of c n "CHR ''.''"]
  by (auto simp: valid_hive_name_def hiveRegex_def hive_segment_def list_all_iff)

lemma hive_name_plain: "valid_hive_name n \<Longrightarrow> plain n"
  using hive_name_chars [of n]
  by (fastforce simp: plain_def list_all_iff isDigit_def is_lower_def less_eq_char_def)

lemma hive_name_no_colon: "valid_hive_name n \<Longrightarrow> CHR '':'' \<notin> set n"
  using hive_name_chars [of n "CHR '':''"] by (auto simp: isDigit_def is_lower_def less_eq_char_def)

lemma unescape_plain: "plain s \<Longrightarrow> QueryUnescape s = Some s"
  by (induction s) (auto simp: plain_def)

lemma split_plain: "c \<notin> set s \<Longrightarrow> SplitOn c s = [s]"
  by (induction s) auto

lemma query_to:
  assumes "plain v"
  shows "ParseQuery (''to='' @ v) = ([(''to'', v)], False)"
proof -
  have "CHR ''&'' \<notin> set (''to='' @ v)" "CHR '';'' \<notin> set (''to='' @ v)" using assms by (auto simp: plain_def list_all_iff)
  moreover have "CutByte CHR ''='' (''to='' @ v) = (''to'', v)" by (simp add: CutByte_def)
  moreover note unescape_plain [OF assms]
  ultimately show ?thesis by (simp add: ParseQuery_def split_plain query_part_def)
qed

text \<open>The memos that name a valid account are honoured.\<close>

lemma named_recipient:
  assumes n: "valid_hive_name n" and fixed: "dp_HivePrefixRecipientFix d"
    and memo: "dp_Memo d = ''to='' @ n \<or> dp_Memo d = ''to='' @ ''hive:'' @ n"
  shows "resolve_recipient d (memo_recipient u d) = ''hive:'' @ n"
proof -
  have "plain n" "plain (''hive:'' @ n)" using hive_name_plain [OF n] by (simp_all add: plain_def)
  then have "memo_recipient u d = n \<or> memo_recipient u d = ''hive:'' @ n"
    using memo query_to [of n] query_to [of "''hive:'' @ n"] unfolding memo_recipient_def query_Get_def by (elim disjE) simp_all
  moreover have "resolve_recipient d n = ''hive:'' @ n" using n by (simp add: resolve_recipient_def)
  moreover have "\<not> valid_hive_name (''hive:'' @ n)" using hive_name_no_colon [of "''hive:'' @ n"] by auto
  then have "resolve_recipient d (''hive:'' @ n) = ''hive:'' @ n"
    using n fixed by (simp add: resolve_recipient_def ethRegex_def HasPrefix_def TrimPrefix_def)
  ultimately show ?thesis by auto
qed

definition recipient_ok :: "Deposit \<Rightarrow> string \<Rightarrow> bool" where
  "recipient_ok d owner \<longleftrightarrow>
     owner = dp_From d \<or> HasPrefix owner ''did:'' \<or> HasPrefix owner ''hive:'' \<and> valid_hive_name (TrimPrefix owner ''hive:'')"

lemma resolved_ok: "dp_HivePrefixRecipientFix d \<Longrightarrow> recipient_ok d (resolve_recipient d to)"
  by (auto simp: recipient_ok_def resolve_recipient_def Let_def TrimPrefix_def HasPrefix_def)

lemma normalize_hive: "normalizeEthDID f (''hive:'' @ n) = ''hive:'' @ n"
  by (simp add: normalizeEthDID_def ethDIDPrefix_def HasPrefix_def)

lemma owner_ok:
  assumes "dp_HivePrefixRecipientFix d" "dp_From d = ''hive:'' @ sender"
  shows "recipient_ok d (deposit_owner env d)"
proof -
  have "recipient_ok d (normalizeEthDID f owner)" if "recipient_ok d owner" for f owner
    using that assms(2) normalize_hive [of f sender] unfolding normalizeEthDID_def
    by (auto simp: recipient_ok_def ethDIDPrefix_def HasPrefix_def Let_def)
  then show ?thesis using resolved_ok [OF assms(1)] by (auto simp: deposit_owner_def Let_def split: option.split)
qed

lemma owner_named:
  assumes "valid_hive_name n" "dp_HivePrefixRecipientFix d" "dp_Memo d = ''to='' @ n \<or> dp_Memo d = ''to='' @ ''hive:'' @ n"
  shows "deposit_owner env d = ''hive:'' @ n"
  unfolding deposit_owner_def Let_def named_recipient [OF assms] by (simp only: normalize_hive if_cancel split: option.split) simp

section \<open>Credits\<close>

definition credit_of :: "deposit_env \<Rightarrow> Deposit \<Rightarrow> LedgerRecord" where
  "credit_of env d = deposit_record d (deposit_owner env d)"

context ledger_collection
begin

lemma deposit_stored:
  assumes "sy_LedgerDb ls = Some L" "ids_unique (contents s)" "RequestLost \<notin> set (faults s)"
  obtains s' where "ledger_Deposit env ls d s = Some (deposit_owner env d, s')" "stored [credit_of env d] s s'"
    "set (faults s') \<subseteq> set (faults s)"
proof
  let ?r = "credit_of env d"
  let ?s' = "snd (StoreLedger L [?r] s)"
  show "ledger_Deposit env ls d s = Some (deposit_owner env d, ?s')"
    by (simp add: ledger_Deposit_def assms(1) credit_of_def Let_def)
  have "contents ?s' = upsert_ledger L ?r (contents s)"
    using assms(3) by (auto simp: StoreLedger_def db_call_def split: list.splits call_outcome.splits)
  then show "stored [?r] s ?s'" using assms(2) by (simp add: stored_def upsert_ids_unique upsert_view)
  show "set (faults ?s') \<subseteq> set (faults s)"
    by (auto simp: StoreLedger_def db_call_def split: list.splits call_outcome.splits)
qed

lemma deposits_stored:
  assumes "sy_LedgerDb ls = Some L" "ids_unique (contents s)" "RequestLost \<notin> set (faults s)"
  shows "\<exists>s'. credit_deposits env ls ds s = Some ((), s') \<and> stored (map (credit_of env) ds) s s' \<and> set (faults s') \<subseteq> set (faults s)"
  using assms(2,3)
proof (induction ds arbitrary: s)
  case Nil
  then show ?case using stored_refl [of s "faults s"] by simp
next
  case (Cons d ds)
  obtain s1 where s1: "ledger_Deposit env ls d s = Some (deposit_owner env d, s1)" "stored [credit_of env d] s s1"
      "set (faults s1) \<subseteq> set (faults s)"
    by (rule deposit_stored [OF assms(1) Cons.prems])
  obtain s2 where "credit_deposits env ls ds s1 = Some ((), s2)" "stored (map (credit_of env) ds) s1 s2"
      "set (faults s2) \<subseteq> set (faults s1)"
    using Cons.IH [OF storedD(1) [OF s1(2)]] Cons.prems(2) s1(3) by blast
  with s1 stored_trans [OF s1(2), of "map (credit_of env) ds" s2] show ?case by auto
qed

end

lemma MakeTxId_inj: "MakeTxId t i = MakeTxId t j \<Longrightarrow> i = j"
  by (auto simp: MakeTxId_def split: if_splits) (metis dec_value_nat_to_dec)

lemma transfer_depositD:
  assumes "transfer_deposit w v t h i op = Some d"
  shows "dp_Id d = MakeTxId t i" "dp_HivePrefixRecipientFix d = HivePrefixRecipientActive v"
    "\<exists>sender. dp_From d = ''hive:'' @ sender" "dp_Asset d = ''hive'' \<or> dp_Asset d = ''hbd''"
  using assms
  by (auto simp: transfer_deposit_def transfer_token_def Let_def split: prod.splits if_splits bind_splits)

lemma deposits_from:
  "d \<in> set (gateway_deposits w v t h i ops) \<Longrightarrow> \<exists>j op. i \<le> j \<and> transfer_deposit w v t h j op = Some d"
proof (induction ops arbitrary: i)
  case (Cons op ops)
  then consider "\<exists>op. transfer_deposit w v t h i op = Some d" | "d \<in> set (gateway_deposits w v t h (Suc i) ops)"
    by (cases op; cases "transfer_deposit w v t h i (the op)") auto
  then show ?case
  proof cases
    case 2
    then show ?thesis using Cons.IH [of "Suc i"] Suc_leD by blast
  qed blast
qed simp

lemma deposit_ids_distinct: "distinct (map dp_Id (gateway_deposits w v t h i ops))"
proof (induction ops arbitrary: i)
  case (Cons op ops)
  have "MakeTxId t i \<notin> dp_Id ` set (gateway_deposits w v t h (Suc i) ops)"
  proof
    assume "MakeTxId t i \<in> dp_Id ` set (gateway_deposits w v t h (Suc i) ops)"
    then obtain d where d: "dp_Id d = MakeTxId t i" "d \<in> set (gateway_deposits w v t h (Suc i) ops)" by auto
    from deposits_from [OF this(2)] obtain j op where j: "Suc i \<le> j" "transfer_deposit w v t h j op = Some d" by blast
    with transfer_depositD(1) [OF j(2)] d(1) MakeTxId_inj [of t i j] show False by simp
  qed
  then show ?case using Cons.IH [of "Suc i"] transfer_depositD(1) [of w v t h i] by (auto split: option.split)
qed simp

lemma credit_coins:
  assumes "\<forall>d \<in> set ds. dp_Asset d = ''hive'' \<or> dp_Asset d = ''hbd''"
  shows "net_rows (\<lambda>r. coin (lr_Asset r) = k) (map (credit_of env) ds) = sum_list (map dp_Amount (filter (\<lambda>d. dp_Asset d = k) ds))"
  using assms by (induction ds) (auto simp: net_rows_def credit_of_def deposit_record_def coin_def zero_records)

lemma transfer_recipient:
  assumes d: "transfer_deposit w v t h i op = Some d" and active: "HivePrefixRecipientActive v"
  shows "recipient_ok d (lr_Owner (credit_of env d))
    \<and> (\<forall>n. valid_hive_name n \<and> (dp_Memo d = ''to='' @ n \<or> dp_Memo d = ''to='' @ ''hive:'' @ n) \<longrightarrow> lr_Owner (credit_of env d) = ''hive:'' @ n)"
proof -
  have fixed: "dp_HivePrefixRecipientFix d" using transfer_depositD(2) [OF d] active by simp
  obtain sender where "dp_From d = ''hive:'' @ sender" using transfer_depositD(3) [OF d] by blast
  from owner_ok [OF fixed this] owner_named [OF _ fixed] show ?thesis
    by (auto simp: credit_of_def deposit_record_def)
qed


definition gateway_op :: "string \<Rightarrow> string \<Rightarrow> string \<Rightarrow> string \<Rightarrow> TransferOp option" where
  "gateway_op sender nai amount memo = Some \<lparr>tf_From = Some sender, tf_To = Some ''vsc.gateway'', tf_Memo = Some memo, tf_Amount = Some (Some nai, Some amount)\<rparr>"

definition example_env :: deposit_env where
  "example_env = \<lparr>env_unmarshal = (\<lambda>_. None), env_checksummed = (\<lambda>a. a), env_sconf = Some 1\<rparr>"

definition example_transfers :: "TransferOp option list" where
  "example_transfers = [gateway_op ''alice'' ''@@000000021'' ''1500'' ''to=hive:longest-name1'', None,
     gateway_op ''alice'' ''@@000000013'' ''20'' ''to=Nobody'']"

definition example_deposits :: "Deposit list" where
  "example_deposits =
     [\<lparr>dp_Id = ''t'', dp_BlockHeight = 7, dp_Amount = 1500, dp_Asset = ''hive'', dp_Memo = ''to=hive:longest-name1'',
        dp_From = ''hive:alice'', dp_HivePrefixRecipientFix = True\<rparr>,
      \<lparr>dp_Id = ''t-2'', dp_BlockHeight = 7, dp_Amount = 20, dp_Asset = ''hbd'', dp_Memo = ''to=Nobody'',
        dp_From = ''hive:alice'', dp_HivePrefixRecipientFix = True\<rparr>]"

lemma example_deposits_eq: "example_deposits = gateway_deposits ''vsc.gateway'' (Version 0 12 0) ''t'' 7 0 example_transfers"
  by code_simp


text \<open>One lost request: the transfer stays at the gateway, no row is written, and the handler goes on.\<close>

theorem lost_deposit:
  assumes "sy_LedgerDb ls = Some L" "faults s = RequestLost # fs"
  shows "ledger_Deposit env ls d s = Some (deposit_owner env d, s\<lparr>faults := fs\<rparr>)"
  using assms by (simp add: ledger_Deposit_def StoreLedger_def db_call_def Let_def)

text \<open>
  A memo without a percent sign and without a semicolon is always a query: the JSON form is never tried, so
  a recipient given as a JSON object is not found and the deposit is credited to the sender.
\<close>

lemma unescape_total: "CHR ''%'' \<notin> set s \<Longrightarrow> QueryUnescape s \<noteq> None"
  by (induction s) auto

lemma split_part_chars: "w \<in> set (SplitOn c s) \<Longrightarrow> set w \<subseteq> set s"
  by (induction s arbitrary: w) (fastforce split: if_splits list.splits)+

lemma query_part_ok:
  assumes "CHR ''%'' \<notin> set w" "CHR '';'' \<notin> set w"
  shows "snd (query_part w st) = snd st"
proof -
  obtain k v where kv: "CutByte CHR ''='' w = (k, v)" by fastforce
  then have "set k \<subseteq> set w" "set v \<subseteq> set w"
    unfolding CutByte_def
    by (auto dest: set_takeWhileD) (metis list.sel(2) list.set_sel(2) set_dropWhileD)
  then have "QueryUnescape k \<noteq> None" "QueryUnescape v \<noteq> None" using assms(1) unescape_total by blast+
  then show ?thesis using assms(2) by (auto simp: query_part_def kv)
qed

theorem json_memo_ignored:
  assumes "CHR ''%'' \<notin> set (dp_Memo d)" "CHR '';'' \<notin> set (dp_Memo d)"
  shows "memo_recipient unmarshal d = query_Get (fst (ParseQuery (dp_Memo d))) ''to''"
proof -
  have "snd (fold query_part ws st) = snd st" if "\<forall>w \<in> set ws. set w \<subseteq> set (dp_Memo d)" for ws st
    using that
  proof (induction ws arbitrary: st)
    case (Cons w ws)
    then have "snd (query_part w st) = snd st" using assms by (intro query_part_ok) auto
    then show ?case using Cons by simp
  qed simp
  then have "snd (ParseQuery (dp_Memo d)) = False"
    unfolding ParseQuery_def using split_part_chars by fastforce
  then show ?thesis by (auto simp: memo_recipient_def split: prod.split bool.split)
qed

end
