(* ===== verification/Rc.thy ===== *)
theory Rc
  imports Session_Spec Slash_Spec
begin

text \<open>
  Resource credits (modules/rc-system, modules/db/vsc/rcs and \<open>UpdateRcMap\<close> of the state engine).
  An account may consume as many credits as it holds HBD, plus a free allowance for Hive accounts;
  what it consumed is frozen and returns linearly over five days. A session counts the consumption of
  a block in memory; the end of a slot adds it to what is still frozen and stores one record per
  account.

  The records are a collection of their own, with its own server. The ledger's reads are retried
  until they succeed; the reads of the credit records are not, and a failed one counts as no record.
\<close>

section \<open>The collection of credit records\<close>

record RcRecord =
  rc_Account :: string
  rc_Amount :: int64
  rc_BlockHeight :: uint64
  rc_MaxRcs :: int64

type_synonym rcs = "RcRecord list server"

definition RcRecord_zero :: RcRecord where
  "RcRecord_zero = \<lparr>rc_Account = [], rc_Amount = 0, rc_BlockHeight = 0, rc_MaxRcs = 0\<rparr>"

definition rc_query :: "string \<Rightarrow> uint64 \<Rightarrow> RcRecord \<Rightarrow> bool" where
  "rc_query account blockHeight r \<longleftrightarrow> rc_Account r = account \<and> rc_BlockHeight r \<le> blockHeight"

definition newest_rc :: "RcRecord \<Rightarrow> RcRecord \<Rightarrow> bool" where
  "newest_rc a b \<longleftrightarrow> rc_BlockHeight b \<le> rc_BlockHeight a"

definition GetRecord :: "RcRecord collection \<Rightarrow> string \<Rightarrow> uint64 \<Rightarrow> rcs \<Rightarrow> (RcRecord \<times> db_error option) \<times> rcs" where
  "GetRecord R account blockHeight rs =
     (case db_read (FindOne R (rc_query account blockHeight) newest_rc) rs of
        (Inl e, rs) \<Rightarrow> ((RcRecord_zero, Some e), rs)
      | (Inr None, rs) \<Rightarrow> ((RcRecord_zero, Some NoDocuments), rs)
      | (Inr (Some r), rs) \<Rightarrow> ((r, None), rs))"

definition rc_key :: "RcRecord \<Rightarrow> string \<times> uint64" where
  "rc_key r = (rc_Account r, rc_BlockHeight r)"

definition upsert_rc :: "RcRecord collection \<Rightarrow> RcRecord \<Rightarrow> RcRecord list \<Rightarrow> RcRecord list" where
  "upsert_rc R r = Upsert R (\<lambda>d. rc_key d = rc_key r) r"

definition SetRecord :: "RcRecord collection \<Rightarrow> string \<Rightarrow> uint64 \<Rightarrow> int64 \<Rightarrow> rcs \<Rightarrow> (db_error + unit) \<times> rcs" where
  "SetRecord R account blockHeight amount =
     db_write (upsert_rc R \<lparr>rc_Account = account, rc_Amount = amount, rc_BlockHeight = blockHeight, rc_MaxRcs = 0\<rparr>)"

text \<open>One ordered bulk write: the server runs its upserts in order and stops at the first failure.\<close>

definition SetRecords :: "RcRecord collection \<Rightarrow> RcRecord list \<Rightarrow> rcs \<Rightarrow> (db_error + unit) \<times> rcs" where
  "SetRecords R records rs =
     (if records = [] then (Inr (), rs) else each_call (upsert_rc R) records rs)"

section \<open>Frozen credits\<close>

definition RC_RETURN_PERIOD :: uint64 where
  "RC_RETURN_PERIOD = 120 * 60 * 20"

definition CalculateFrozenBal :: "uint64 \<Rightarrow> uint64 \<Rightarrow> int64 \<Rightarrow> int64" where
  "CalculateFrozenBal start until initialBal =
     (if sint initialBal \<le> 0 then 0
      else if until \<le> start then initialBal
      else let period = RC_RETURN_PERIOD; diff = until - start in
        if period = 0 \<or> period \<le> diff then 0
        else let
            amt = sint initialBal * uint diff div uint period;
            amtRet = word_of_int amt;
            amtRet = if sint initialBal < sint amtRet then initialBal else amtRet;
            amtRet = if sint amtRet < 0 then 0 else amtRet
          in initialBal - amtRet)"

record RcSystem =
  rs_RcDb :: "RcRecord collection"
  rs_LedgerSystem :: ledgerSystem
  rs_HiveFreeAmount :: int64

definition GetFrozenAmt :: "RcSystem \<Rightarrow> string \<Rightarrow> uint64 \<Rightarrow> rcs \<Rightarrow> int64 \<times> rcs" where
  "GetFrozenAmt sys account blockHeight rs =
     (let ((rcRecord, _), rs) = GetRecord (rs_RcDb sys) account blockHeight rs in
        (CalculateFrozenBal (rc_BlockHeight rcRecord) blockHeight (rc_Amount rcRecord), rs))"

definition system_GetBalance :: "ledgerSystem \<Rightarrow> string \<Rightarrow> uint64 \<Rightarrow> string \<Rightarrow> dbs \<Rightarrow> (int64 \<times> dbs) option" where
  "system_GetBalance ls account blockHeight asset =
     GetBalance (NewEmptyState (sy_LedgerDb ls) (sy_ActionsDb ls) (sy_BalanceDb ls)) account blockHeight asset"

definition with_free_amount :: "RcSystem \<Rightarrow> string \<Rightarrow> int64 \<Rightarrow> int64" where
  "with_free_amount sys account balAmt =
     (if HasPrefix account ''hive:'' then balAmt + rs_HiveFreeAmount sys else balAmt)"

definition is_oracle :: "string \<Rightarrow> bool" where
  "is_oracle account \<longleftrightarrow> HasPrefix account ''did:vsc:oracle:''"

definition GetAvailableRCs :: "RcSystem \<Rightarrow> string \<Rightarrow> uint64 \<Rightarrow> dbs \<Rightarrow> rcs \<Rightarrow> (int64 \<times> dbs \<times> rcs) option" where
  "GetAvailableRCs sys account blockHeight s rs =
     (if is_oracle account then Some (MaxInt64, s, rs)
      else do {
        (balAmt, s) \<leftarrow> system_GetBalance (rs_LedgerSystem sys) account blockHeight ''hbd'' s;
        let balAmt = with_free_amount sys account balAmt;
        let (frozeAmt, rs) = GetFrozenAmt sys account blockHeight rs;
        let frozeAmt = (if sint balAmt < sint frozeAmt then balAmt else frozeAmt);
        Some (balAmt - frozeAmt, s, rs)
      })"

section \<open>Sessions\<close>

text \<open>A session is its map of pending consumption; an absent key reads zero.\<close>

type_synonym rcSession = "string \<Rightarrow> int64"
type_synonym rc_world = "ledgerSession \<times> dbs \<times> rcs"

definition NewRcSession :: rcSession where
  "NewRcSession = (\<lambda>_. 0)"

definition CanConsume ::
  "RcSystem \<Rightarrow> LedgerState \<Rightarrow> string \<Rightarrow> uint64 \<Rightarrow> int64 \<Rightarrow> rcSession \<Rightarrow> rc_world \<Rightarrow>
     ((bool \<times> int64 \<times> int64) \<times> rc_world) option" where
  "CanConsume sys state account blockHeight rcAmt rcMap w =
     (if is_oracle account then Some ((True, MaxInt64, rcAmt), w)
      else do {
        let (session, s, rs) = w;
        (balAmt, session, s) \<leftarrow> session_GetBalance state account blockHeight ''hbd'' session s;
        let balAmt = with_free_amount sys account balAmt;
        let (frozeAmt, rs) = GetFrozenAmt sys account blockHeight rs;
        let totalAmt = balAmt - frozeAmt - rcMap account;
        Some (if sint totalAmt < sint rcAmt then (False, 0, rcAmt) else (True, totalAmt - rcAmt, rcAmt), (session, s, rs))
      })"

definition Consume ::
  "RcSystem \<Rightarrow> LedgerState \<Rightarrow> string \<Rightarrow> uint64 \<Rightarrow> int64 \<Rightarrow> rcSession \<Rightarrow> rc_world \<Rightarrow>
     ((bool \<times> int64) \<times> rcSession \<times> rc_world) option" where
  "Consume sys state account blockHeight rcAmt rcMap w = do {
     ((canConsume, _), w) \<leftarrow> CanConsume sys state account blockHeight rcAmt rcMap w;
     Some (if canConsume then ((True, rcAmt), rcMap(account := rcMap account + rcAmt), w)
       else ((False, 0), rcMap, w))
   }"

definition session_GetFrozenAmt :: "RcSystem \<Rightarrow> string \<Rightarrow> uint64 \<Rightarrow> rcSession \<Rightarrow> rcs \<Rightarrow> int64 \<times> rcs" where
  "session_GetFrozenAmt sys account blockHeight rcMap rs =
     (let (frozeAmt, rs) = GetFrozenAmt sys account blockHeight rs in (frozeAmt + rcMap account, rs))"

definition FreeRcRemaining :: "RcSystem \<Rightarrow> rcSession \<Rightarrow> string \<Rightarrow> uint64 \<Rightarrow> rcs \<Rightarrow> int64 \<times> rcs" where
  "FreeRcRemaining sys rcMap account blockHeight rs =
     (if \<not> HasPrefix account ''hive:'' then (0, rs)
      else let
          (frozeAmt, rs) = session_GetFrozenAmt sys account blockHeight rcMap rs;
          remaining = rs_HiveFreeAmount sys - frozeAmt
        in if sint remaining < 0 then (0, rs) else (remaining, rs))"

definition rcSession_Revert :: "rcSession \<Rightarrow> rcSession" where
  "rcSession_Revert rcMap = NewRcSession"

definition rcSession_Done :: "rcSession \<Rightarrow> rcSession" where
  "rcSession_Done rcMap = rcMap"

section \<open>The end of a slot\<close>

text \<open>The engine's map of consumption is a list of its entries in the order a range over it visits them.\<close>

definition slot_rc_record ::
  "RcSystem \<Rightarrow> uint64 \<Rightarrow> string \<Rightarrow> int64 \<Rightarrow> dbs \<Rightarrow> rcs \<Rightarrow> (RcRecord \<times> dbs \<times> rcs) option" where
  "slot_rc_record sys blockHeight k v s rs = do {
     let ((rcRecord, _), rs) = GetRecord (rs_RcDb sys) k (blockHeight - 1) rs;
     let rcBal = (if rc_BlockHeight rcRecord = 0 then v
       else CalculateFrozenBal (rc_BlockHeight rcRecord) blockHeight (rc_Amount rcRecord) + v);
     (balAmt, s) \<leftarrow> system_GetBalance (rs_LedgerSystem sys) k blockHeight ''hbd'' s;
     let balAmt = with_free_amount sys k balAmt;
     let rcBal = (if sint balAmt < sint rcBal then balAmt else rcBal);
     let rcBal = (if sint rcBal < 0 then 0 else rcBal);
     Some (RcRecord_zero\<lparr>rc_Account := k, rc_BlockHeight := blockHeight, rc_Amount := rcBal\<rparr>, s, rs)
   }"

fun slot_rc_records ::
  "RcSystem \<Rightarrow> uint64 \<Rightarrow> (string \<times> int64) list \<Rightarrow> dbs \<Rightarrow> rcs \<Rightarrow> (RcRecord list \<times> dbs \<times> rcs) option" where
  "slot_rc_records sys blockHeight [] s rs = Some ([], s, rs)"
| "slot_rc_records sys blockHeight ((k, v) # kvs) s rs = do {
     (r, s, rs) \<leftarrow> slot_rc_record sys blockHeight k v s rs;
     (records, s, rs) \<leftarrow> slot_rc_records sys blockHeight kvs s rs;
     Some (r # records, s, rs)
   }"

definition UpdateRcMap :: "RcSystem \<Rightarrow> (string \<times> int64) list \<Rightarrow> uint64 \<Rightarrow> dbs \<Rightarrow> rcs \<Rightarrow> (dbs \<times> rcs) option" where
  "UpdateRcMap sys rcMap blockHeight s rs = do {
     (records, s, rs) \<leftarrow> slot_rc_records sys blockHeight rcMap s rs;
     (_, rs) \<leftarrow> blockingRetry (SetRecords (rs_RcDb sys) records) rs;
     Some (s, rs)
   }"

section \<open>Frozen credits return linearly\<close>

lemma frozen_value:
  assumes "0 < sint initial" "start < until" "until - start < RC_RETURN_PERIOD"
  shows "sint (CalculateFrozenBal start until initial) =
    sint initial - sint initial * uint (until - start) div uint RC_RETURN_PERIOD"
    and "0 \<le> sint initial * uint (until - start) div uint RC_RETURN_PERIOD"
    and "sint initial * uint (until - start) div uint RC_RETURN_PERIOD \<le> sint initial"
proof -
  let ?p = "uint RC_RETURN_PERIOD" and ?d = "uint (until - start)"
  let ?a = "sint initial * ?d div ?p"
  have p: "0 < ?p" by (simp add: RC_RETURN_PERIOD_def)
  have d: "0 \<le> ?d" "?d \<le> ?p" using assms(3) by (simp_all add: word_less_def)
  show a0: "0 \<le> ?a" using assms(1) d p by (simp add: pos_imp_zdiv_nonneg_iff)
  show a1: "?a \<le> sint initial"
    using quo_mult_le [of "sint initial" ?d ?p] assms(1) d p by simp
  have f: "fits_int64 ?a" using a0 a1 sint_bounds [of initial] by (simp add: fits_int64_def i64_min_def)
  then have s: "sint (word_of_int ?a :: int64) = ?a" by (rule sint_of_fits)
  have "CalculateFrozenBal start until initial = initial - word_of_int ?a"
    using assms s a0 a1 p by (auto simp: CalculateFrozenBal_def Let_def)
  moreover have "sint (initial - word_of_int ?a) = sint initial - ?a"
    using s a0 a1 by (subst sint_debit) simp_all
  ultimately show "sint (CalculateFrozenBal start until initial) = sint initial - ?a" by simp
qed

lemma frozen_cases:
  "sint initial \<le> 0 \<Longrightarrow> CalculateFrozenBal start until initial = 0"
  "until \<le> start \<Longrightarrow> 0 < sint initial \<Longrightarrow> CalculateFrozenBal start until initial = initial"
  "start < until \<Longrightarrow> RC_RETURN_PERIOD \<le> until - start \<Longrightarrow> CalculateFrozenBal start until initial = 0"
  by (auto simp: CalculateFrozenBal_def Let_def)

lemma frozen_bounds:
  "0 \<le> sint (CalculateFrozenBal start until initial)"
  "sint (CalculateFrozenBal start until initial) \<le> max 0 (sint initial)"
proof -
  consider "sint initial \<le> 0" | "0 < sint initial" "until \<le> start"
    | "0 < sint initial" "start < until" "RC_RETURN_PERIOD \<le> until - start"
    | "0 < sint initial" "start < until" "until - start < RC_RETURN_PERIOD"
    by (metis linorder_not_le)
  then have "0 \<le> sint (CalculateFrozenBal start until initial) \<and>
      sint (CalculateFrozenBal start until initial) \<le> max 0 (sint initial)"
    by cases (use frozen_value [of initial start until] in \<open>simp_all add: frozen_cases\<close>)
  then show "0 \<le> sint (CalculateFrozenBal start until initial)"
    "sint (CalculateFrozenBal start until initial) \<le> max 0 (sint initial)" by simp_all
qed

lemma elapsed_mono:
  assumes "start < (a :: uint64)" "a \<le> b"
  shows "uint (a - start) \<le> uint (b - start)" "a - start \<le> b - start"
proof -
  have "uint (x - start) = uint x - uint start" if "start \<le> x" for x :: uint64
    using that by (simp add: uint_sub_lem word_le_def)
  with assms show "uint (a - start) \<le> uint (b - start)"
    by (simp add: word_le_def word_less_def)
  then show "a - start \<le> b - start" by (simp add: word_le_def)
qed

lemma frozen_antimono:
  assumes "a \<le> b"
  shows "sint (CalculateFrozenBal start b initial) \<le> sint (CalculateFrozenBal start a initial)"
proof (cases "sint initial \<le> 0 \<or> a \<le> start")
  case True
  then show ?thesis
    using frozen_bounds(2) [of start b initial] by (cases "sint initial \<le> 0") (auto simp: frozen_cases)
next
  case False
  then have i: "0 < sint initial" "start < a" "start < b" using assms by auto
  show ?thesis
  proof (cases "b - start < RC_RETURN_PERIOD")
    case True
    then have "a - start < RC_RETURN_PERIOD" using elapsed_mono(2) [OF i(2) assms] by simp
    moreover have "sint initial * uint (a - start) div uint RC_RETURN_PERIOD \<le>
        sint initial * uint (b - start) div uint RC_RETURN_PERIOD"
      using elapsed_mono(1) [OF i(2) assms] i(1)
      by (intro zdiv_mono1 mult_left_mono) (simp_all add: RC_RETURN_PERIOD_def)
    ultimately show ?thesis using True i by (simp add: frozen_value)
  next
    case False
    then show ?thesis using i frozen_bounds(1) [of start a initial] by (simp add: frozen_cases)
  qed
qed

text \<open>
  What an account consumed is frozen and returns linearly over the return period: the frozen part
  is the amount less the floor of the elapsed fraction, it is never negative and never above the
  amount, it never grows with time, and after the period nothing is left.
\<close>

theorem frozen_credits_return:
  assumes "0 < sint initial" "start < until" "until \<le> later"
  shows "0 \<le> sint (CalculateFrozenBal start until initial) \<and>
    sint (CalculateFrozenBal start until initial) \<le> sint initial \<and>
    sint (CalculateFrozenBal start later initial) \<le> sint (CalculateFrozenBal start until initial) \<and>
    sint (CalculateFrozenBal start until initial) = (if until - start < RC_RETURN_PERIOD
      then sint initial - sint initial * uint (until - start) div uint RC_RETURN_PERIOD else 0)"
  using assms frozen_bounds [of start until initial] frozen_antimono [of until later start initial]
  by (simp add: frozen_cases frozen_value)

theorem frozen_credits_return_witness:
  "sint (CalculateFrozenBal 1000 73000 5000) = 2500 \<and> sint (CalculateFrozenBal 1000 145000 5000) = 0"
  using frozen_credits_return [of 5000 1000 73000 145000] frozen_credits_return [of 5000 1000 145000 145000]
  by (simp add: RC_RETURN_PERIOD_def)

section \<open>A session never consumes more than is available\<close>

definition newest_rc_record :: "RcRecord collection \<Rightarrow> RcRecord list \<Rightarrow> string \<Rightarrow> uint64 \<Rightarrow> RcRecord" where
  "newest_rc_record R docs account h =
     (case FindOne R (rc_query account h) newest_rc docs of None \<Rightarrow> RcRecord_zero | Some r \<Rightarrow> r)"

definition frozen_at :: "RcSystem \<Rightarrow> RcRecord list \<Rightarrow> string \<Rightarrow> uint64 \<Rightarrow> int64" where
  "frozen_at sys docs account h =
     (let r = newest_rc_record (rs_RcDb sys) docs account h in CalculateFrozenBal (rc_BlockHeight r) h (rc_Amount r))"

definition allowance :: "RcSystem \<Rightarrow> string \<Rightarrow> int64 \<Rightarrow> int" where
  "allowance sys account bal = sint bal + (if HasPrefix account ''hive:'' then sint (rs_HiveFreeAmount sys) else 0)"

fun consume_all ::
  "RcSystem \<Rightarrow> LedgerState \<Rightarrow> uint64 \<Rightarrow> (string \<times> int64) list \<Rightarrow> rcSession \<Rightarrow> rc_world \<Rightarrow>
     (bool list \<times> rcSession \<times> rc_world) option" where
  "consume_all sys state h [] rcMap w = Some ([], rcMap, w)"
| "consume_all sys state h ((account, amt) # xs) rcMap w = do {
     ((ok, _), rcMap, w) \<leftarrow> Consume sys state account h amt rcMap w;
     (oks, rcMap, w) \<leftarrow> consume_all sys state h xs rcMap w;
     Some (ok # oks, rcMap, w)
   }"

definition spent :: "string \<Rightarrow> (string \<times> int64) list \<Rightarrow> bool list \<Rightarrow> int" where
  "spent account xs oks = sum_list (map (\<lambda>((a, amt), ok). if ok \<and> a = account then sint amt else 0) (zip xs oks))"

lemma record_read:
  "faults rs = [] \<Longrightarrow> \<exists>e. GetRecord R account h rs = ((newest_rc_record R (contents rs) account h, e), rs)"
  by (auto simp: GetRecord_def db_call_def newest_rc_record_def split: option.split)

lemma frozen_read:
  "faults rs = [] \<Longrightarrow> GetFrozenAmt sys account h rs = (frozen_at sys (contents rs) account h, rs)"
  using record_read [of rs "rs_RcDb sys" account h] by (auto simp: GetFrozenAmt_def frozen_at_def Let_def)

lemma frozen_at_nonneg: "0 \<le> sint (frozen_at sys docs account h)"
  by (simp add: frozen_at_def Let_def frozen_bounds(1))

lemma sint_allowance:
  "fits_int64 (allowance sys account bal) \<Longrightarrow> sint (with_free_amount sys account bal) = allowance sys account bal"
  by (auto simp: with_free_amount_def allowance_def intro: sint_add_fits)

text \<open>What an account has consumed is covered by what it may consume less what is frozen.\<close>

definition covered :: "int \<Rightarrow> int \<Rightarrow> int64 \<Rightarrow> bool" where
  "covered allowed frozen used \<longleftrightarrow> 0 \<le> sint used \<and> (used = 0 \<or> sint used + frozen \<le> allowed)"

lemma covered_max: "covered allowed frozen used \<Longrightarrow> sint used \<le> max 0 (allowed - frozen)"
  by (auto simp: covered_def)

lemma covered_step:
  assumes "covered (sint bal) (sint frozen) used" "0 \<le> sint frozen" "0 \<le> sint bal" "0 \<le> sint amt"
    and "\<not> sint (bal - frozen - used) < sint amt"
  shows "covered (sint bal) (sint frozen) (used + amt)" "sint (used + amt) = sint used + sint amt"
proof -
  have b: "sint bal \<le> i64_max" "sint frozen \<le> i64_max" "sint amt \<le> i64_max"
    by (simp_all add: sint_bounds)
  have f: "fits_int64 (sint bal - sint frozen)"
    using assms(2,3) b by (simp add: fits_int64_def i64_min_def i64_max_def)
  have "fits_int64 (sint bal - sint frozen - sint used)"
    using assms(1,2,3) b f by (auto simp: covered_def fits_int64_def i64_min_def i64_max_def)
  then have "sint (bal - frozen - used) = sint bal - sint frozen - sint used"
    using f by (simp add: sint_diff_fits)
  with assms have le: "sint used + sint amt + sint frozen \<le> sint bal" by simp
  have "fits_int64 (sint used + sint amt)"
    using assms(1,2,4) le b by (simp add: covered_def fits_int64_def i64_min_def)
  then show s: "sint (used + amt) = sint used + sint amt" by (rule sint_add_fits)
  with assms(1,4) le show "covered (sint bal) (sint frozen) (used + amt)" by (simp add: covered_def)
qed

context wired
begin

lemma consume_step:
  assumes "coherent st B (contents s) h sess" "faults rs = []" "0 \<le> sint amt"
    and "is_oracle account \<or> 0 \<le> allowance sys account (session_view st B (contents s) h sess account ''hbd'') \<and>
      fits_int64 (allowance sys account (session_view st B (contents s) h sess account ''hbd''))"
  shows "\<exists>ok n rcMap' m fs. Consume sys st account h amt rcMap (sess, s, rs) =
      Some ((ok, n), rcMap', (sess\<lparr>ss_balances := m\<rparr>, s\<lparr>faults := fs\<rparr>, rs)) \<and>
    coherent st B (contents s) h (sess\<lparr>ss_balances := m\<rparr>) \<and> (\<forall>a. a \<noteq> account \<longrightarrow> rcMap' a = rcMap a) \<and>
    (\<not> is_oracle account \<longrightarrow>
      covered (allowance sys account (session_view st B (contents s) h sess account ''hbd''))
        (sint (frozen_at sys (contents rs) account h)) (rcMap account) \<longrightarrow>
      covered (allowance sys account (session_view st B (contents s) h sess account ''hbd''))
        (sint (frozen_at sys (contents rs) account h)) (rcMap' account) \<and>
      sint (rcMap' account) = sint (rcMap account) + (if ok then sint amt else 0))"
proof (cases "is_oracle account")
  case True
  then show ?thesis
    using assms(1) by (intro exI [of _ True] exI [of _ amt] exI [of _ "rcMap(account := rcMap account + amt)"]
        exI [of _ "ss_balances sess"] exI [of _ "faults s"]) (simp add: Consume_def CanConsume_def)
next
  case False
  let ?bal = "session_view st B (contents s) h sess account ''hbd''"
  let ?all = "with_free_amount sys account ?bal" and ?fr = "frozen_at sys (contents rs) account h"
  obtain m fs where r: "session_GetBalance st account h ''hbd'' sess s = Some (?bal, sess\<lparr>ss_balances := m\<rparr>, s\<lparr>faults := fs\<rparr>)"
    "coherent st B (contents s) h (sess\<lparr>ss_balances := m\<rparr>)"
    using read_balance [OF assms(1), of "''hbd''" h account] by auto
  have all: "sint ?all = allowance sys account ?bal" "0 \<le> sint ?all"
    using assms(4) False by (simp_all add: sint_allowance)
  let ?ok = "\<not> sint (?all - ?fr - rcMap account) < sint amt"
  have c: "Consume sys st account h amt rcMap (sess, s, rs) =
      Some (if ?ok then ((True, amt), rcMap(account := rcMap account + amt), (sess\<lparr>ss_balances := m\<rparr>, s\<lparr>faults := fs\<rparr>, rs))
        else ((False, 0), rcMap, (sess\<lparr>ss_balances := m\<rparr>, s\<lparr>faults := fs\<rparr>, rs)))"
    using False r(1) frozen_read [OF assms(2), of sys account h] by (simp add: Consume_def CanConsume_def Let_def)
  show ?thesis
    using c r(2) covered_step [of ?all ?fr "rcMap account" amt] frozen_at_nonneg [of sys "contents rs" account h] all assms(3)
    by (intro exI [of _ ?ok] exI [of _ "if ?ok then amt else 0"]
        exI [of _ "if ?ok then rcMap(account := rcMap account + amt) else rcMap"] exI [of _ m] exI [of _ fs]) auto
qed

end

lemma session_view_cache [simp]: "session_view st B c h (sess\<lparr>ss_balances := m\<rparr>) = session_view st B c h sess"
  by (simp add: session_view_def)

lemma spent_Cons: "spent a ((account, amt) # xs) (ok # oks) = (if ok \<and> account = a then sint amt else 0) + spent a xs oks"
  by (simp add: spent_def)

context wired
begin

lemma consume_covered:
  assumes "coherent st B (contents s) h sess" "faults rs = []" "\<forall>(account, amt) \<in> set xs. 0 \<le> sint amt"
    and "\<forall>a. 0 \<le> allowance sys a (session_view st B (contents s) h sess a ''hbd'') \<and>
      fits_int64 (allowance sys a (session_view st B (contents s) h sess a ''hbd''))"
    and "\<forall>a. \<not> is_oracle a \<longrightarrow> covered (allowance sys a (session_view st B (contents s) h sess a ''hbd''))
      (sint (frozen_at sys (contents rs) a h)) (rcMap a)"
  shows "\<exists>oks rcMap' w'. consume_all sys st h xs rcMap (sess, s, rs) = Some (oks, rcMap', w') \<and> length oks = length xs \<and>
    (\<forall>a. \<not> is_oracle a \<longrightarrow> sint (rcMap' a) = sint (rcMap a) + spent a xs oks \<and>
      covered (allowance sys a (session_view st B (contents s) h sess a ''hbd'')) (sint (frozen_at sys (contents rs) a h)) (rcMap' a))"
  using assms(1,3,4,5)
proof (induction xs arbitrary: rcMap sess s)
  case Nil
  then show ?case by (simp add: spent_def)
next
  case (Cons x xs)
  obtain account amt where x: "x = (account, amt)" by force
  obtain ok n rcMap' m fs where step:
    "Consume sys st account h amt rcMap (sess, s, rs) = Some ((ok, n), rcMap', (sess\<lparr>ss_balances := m\<rparr>, s\<lparr>faults := fs\<rparr>, rs))"
    "coherent st B (contents s) h (sess\<lparr>ss_balances := m\<rparr>)" "\<forall>a. a \<noteq> account \<longrightarrow> rcMap' a = rcMap a"
    "\<not> is_oracle account \<Longrightarrow> covered (allowance sys account (session_view st B (contents s) h sess account ''hbd''))
        (sint (frozen_at sys (contents rs) account h)) (rcMap' account) \<and>
      sint (rcMap' account) = sint (rcMap account) + (if ok then sint amt else 0)"
    using consume_step [OF Cons.prems(1) assms(2), of amt account sys rcMap] Cons.prems(2,3,4) x by fastforce
  have cov: "\<forall>a. \<not> is_oracle a \<longrightarrow> covered (allowance sys a (session_view st B (contents s) h sess a ''hbd''))
      (sint (frozen_at sys (contents rs) a h)) (rcMap' a)"
    using step(3,4) Cons.prems(4) by metis
  obtain oks rcMap'' w' where rest:
    "consume_all sys st h xs rcMap' (sess\<lparr>ss_balances := m\<rparr>, s\<lparr>faults := fs\<rparr>, rs) = Some (oks, rcMap'', w')" "length oks = length xs"
    "\<And>a. \<not> is_oracle a \<Longrightarrow> sint (rcMap'' a) = sint (rcMap' a) + spent a xs oks \<and>
      covered (allowance sys a (session_view st B (contents s) h sess a ''hbd'')) (sint (frozen_at sys (contents rs) a h)) (rcMap'' a)"
    using Cons.IH [of "s\<lparr>faults := fs\<rparr>" "sess\<lparr>ss_balances := m\<rparr>" rcMap'] step(2) Cons.prems(2,3) cov by auto
  have "sint (rcMap'' a) = sint (rcMap a) + spent a (x # xs) (ok # oks)" if "\<not> is_oracle a" for a
    using rest(3) [OF that] step(3,4) that by (cases "a = account") (auto simp: x spent_Cons)
  with rest step(1) show ?case
    by (intro exI [of _ "ok # oks"] exI [of _ rcMap''] exI [of _ w']) (simp add: x)
qed

end


definition credit_system :: RcSystem where
  "credit_system = \<lparr>rs_RcDb = list_collection, rs_LedgerSystem = list_system, rs_HiveFreeAmount = 10000\<rparr>"

definition no_ledger :: ledger_dbs where
  "no_ledger = \<lparr>ledger_c = [], balances_c = [], actions_c = [], claims_c = []\<rparr>"

lemma no_ledger_balance: "balance_of list_collection no_ledger account h asset = 0"
  by (simp add: balance_of_def no_ledger_def newest_snapshot_def list_collection_def sort_by_def net_rows_def
      Let_def snapshot_base_def record_or_zero_def zero_records)


section \<open>The slot flush\<close>

definition rc_keyed :: "RcRecord list \<Rightarrow> bool" where
  "rc_keyed docs \<longleftrightarrow> distinct (map rc_key docs)"

locale rc_collection = mongo_collection R for R :: "RcRecord collection"
begin

lemma upsert_rc_keyed: "rc_keyed docs \<Longrightarrow> rc_keyed (upsert_rc R r docs)"
  by (simp add: rc_keyed_def upsert_rc_def upsert_distinct)

lemma upsert_rcs: "rc_keyed docs \<Longrightarrow> mset (fold (upsert_rc R) rs docs) = puts rc_key rs (mset docs)"
proof (induction rs arbitrary: docs)
  case Nil
  then show ?case by simp
next
  case (Cons r rs)
  have "mset (upsert_rc R r docs) = put rc_key r (mset docs)"
    using Cons.prems by (simp add: rc_keyed_def upsert_rc_def upsert_put)
  then show ?case using Cons.IH [OF upsert_rc_keyed [OF Cons.prems, of r]] by simp
qed

text \<open>With one record per account and height, the newest record of an account is determined.\<close>

lemma newest_rc_iff:
  assumes "rc_keyed docs"
  shows "FindOne R (rc_query a h) newest_rc docs = Some r \<longleftrightarrow>
    r \<in> set docs \<and> rc_query a h r \<and> (\<forall>y \<in> set docs. rc_query a h y \<longrightarrow> rc_BlockHeight y \<le> rc_BlockHeight r)"
    (is "?l \<longleftrightarrow> ?r")
proof -
  have le: "transp newest_rc" "totalp newest_rc" "reflp newest_rc"
    by (auto simp: newest_rc_def transp_def totalp_on_def reflp_def)
  have l: "x \<in> set docs \<and> rc_query a h x \<and> (\<forall>y \<in> set docs. rc_query a h y \<longrightarrow> rc_BlockHeight y \<le> rc_BlockHeight x)"
    if "FindOne R (rc_query a h) newest_rc docs = Some x" for x
    using find_one_some [OF that] find_one_first [OF le that] by (auto simp: newest_rc_def)
  show ?thesis
  proof
    show "?l \<Longrightarrow> ?r" by (rule l)
    assume r: ?r
    then obtain r' where r': "FindOne R (rc_query a h) newest_rc docs = Some r'"
      using find_one_none [of "rc_query a h" newest_rc docs] by (cases "FindOne R (rc_query a h) newest_rc docs") auto
    from l [OF r'] r have "rc_key r' = rc_key r" "r' \<in> set docs" "r \<in> set docs"
      by (auto simp: rc_key_def rc_query_def intro: antisym)
    then have "r' = r" using assms by (auto simp: rc_keyed_def distinct_map dest: inj_onD)
    with r' show ?l by simp
  qed
qed

lemma newest_rc_cong:
  assumes "rc_keyed docs" "rc_keyed docs'" "{r \<in> set docs. rc_query a h r} = {r \<in> set docs'. rc_query a h r}"
  shows "newest_rc_record R docs a h = newest_rc_record R docs' a h"
proof -
  have "FindOne R (rc_query a h) newest_rc docs = Some r \<longleftrightarrow> FindOne R (rc_query a h) newest_rc docs' = Some r" for r
    using assms(3) by (auto simp: newest_rc_iff [OF assms(1)] newest_rc_iff [OF assms(2)])
  then have "FindOne R (rc_query a h) newest_rc docs = FindOne R (rc_query a h) newest_rc docs'"
    by (metis option.exhaust)
  then show ?thesis by (simp add: newest_rc_record_def)
qed

end

sublocale rc_collection \<subseteq> credits: batch_store "upsert_rc R" rc_keyed mset "puts rc_key"
  by unfold_locales (simp_all add: upsert_rc_keyed upsert_rcs puts_prefix_absorb)

interpretation list_rcs: rc_collection list_collection
  by unfold_locales

text \<open>The record the end of a slot stores for an account.\<close>

definition still_frozen :: "RcSystem \<Rightarrow> RcRecord list \<Rightarrow> uint64 \<Rightarrow> string \<Rightarrow> int64" where
  "still_frozen sys docs h k =
     (let r = newest_rc_record (rs_RcDb sys) docs k (h - 1) in
        if rc_BlockHeight r = 0 then 0 else CalculateFrozenBal (rc_BlockHeight r) h (rc_Amount r))"

definition slot_frozen :: "RcSystem \<Rightarrow> RcRecord list \<Rightarrow> uint64 \<Rightarrow> int64 \<Rightarrow> string \<Rightarrow> int64 \<Rightarrow> int64" where
  "slot_frozen sys docs h bal k v =
     (let rcBal = still_frozen sys docs h k + v; balAmt = with_free_amount sys k bal;
        rcBal = if sint balAmt < sint rcBal then balAmt else rcBal
      in if sint rcBal < 0 then 0 else rcBal)"

lemma slot_frozen_bounds:
  assumes "0 \<le> sint v" "fits_int64 (sint (still_frozen sys docs h k) + sint v)" "fits_int64 (allowance sys k bal)"
  shows "sint (slot_frozen sys docs h bal k v) =
    max 0 (min (sint (still_frozen sys docs h k) + sint v) (allowance sys k bal))"
  using assms by (auto simp: slot_frozen_def Let_def sint_add_fits sint_allowance)

lemma call_ok: "faults s = CallOk # fs \<Longrightarrow> db_read q s = (Inr (q (contents s)), s\<lparr>faults := fs\<rparr>)"
  by (simp add: db_call_def)

lemma record_read_ok:
  "faults rs = CallOk # fs \<Longrightarrow>
     \<exists>e. GetRecord R account h rs = ((newest_rc_record R (contents rs) account h, e), rs\<lparr>faults := fs\<rparr>)"
  by (auto simp: GetRecord_def call_ok newest_rc_record_def split: option.split)

locale credit_node = ledger_collection L for L :: "LedgerRecord collection" +
  fixes sys :: RcSystem and B :: "BalanceRecord collection"
  assumes handles: "sy_LedgerDb (rs_LedgerSystem sys) = Some L" "sy_BalanceDb (rs_LedgerSystem sys) = Some B"
begin

lemma slot_record:
  assumes "faults rs = CallOk # fs"
  shows "\<exists>gs. slot_rc_record sys h k v s rs =
    Some (RcRecord_zero\<lparr>rc_Account := k, rc_BlockHeight := h,
        rc_Amount := slot_frozen sys (contents rs) h (balance_of B (contents s) k h ''hbd'') k v\<rparr>,
      s\<lparr>faults := gs\<rparr>, rs\<lparr>faults := fs\<rparr>)"
proof -
  obtain gs where g: "system_GetBalance (rs_LedgerSystem sys) k h ''hbd'' s =
      Some (balance_of B (contents s) k h ''hbd'', s\<lparr>faults := gs\<rparr>)"
    using GetBalance_reads [of "NewEmptyState (sy_LedgerDb (rs_LedgerSystem sys)) (sy_ActionsDb (rs_LedgerSystem sys))
        (sy_BalanceDb (rs_LedgerSystem sys))" B k h "''hbd''" s] handles
    by (auto simp: system_GetBalance_def NewEmptyState_def)
  show ?thesis
    using record_read_ok [OF assms, of "rs_RcDb sys" k "h - 1"] g
    by (auto simp: slot_rc_record_def slot_frozen_def still_frozen_def Let_def)
qed

lemma slot_records:
  assumes "faults rs = replicate (length rcMap) CallOk @ fs"
  shows "\<exists>gs. slot_rc_records sys h rcMap s rs =
    Some (map (\<lambda>(k, v). RcRecord_zero\<lparr>rc_Account := k, rc_BlockHeight := h,
        rc_Amount := slot_frozen sys (contents rs) h (balance_of B (contents s) k h ''hbd'') k v\<rparr>) rcMap,
      s\<lparr>faults := gs\<rparr>, rs\<lparr>faults := fs\<rparr>)"
  using assms
proof (induction rcMap arbitrary: s rs)
  case Nil
  then show ?case by (auto intro: exI [of _ "faults s"])
next
  case (Cons kv rcMap)
  obtain k v where kv: "kv = (k, v)" by force
  let ?fs = "replicate (length rcMap) CallOk @ fs"
  obtain gs where 1: "slot_rc_record sys h k v s rs =
    Some (RcRecord_zero\<lparr>rc_Account := k, rc_BlockHeight := h,
        rc_Amount := slot_frozen sys (contents rs) h (balance_of B (contents s) k h ''hbd'') k v\<rparr>,
      s\<lparr>faults := gs\<rparr>, rs\<lparr>faults := ?fs\<rparr>)"
    using slot_record [of rs ?fs h k v s] Cons.prems by auto
  show ?case
    using Cons.IH [of "rs\<lparr>faults := ?fs\<rparr>" "s\<lparr>faults := gs\<rparr>"] 1 by (auto simp: kv)
qed

end

interpretation list_credits: credit_node list_collection credit_system list_collection
  by unfold_locales (simp_all add: credit_system_def list_system_def)

definition slot_rows :: "RcSystem \<Rightarrow> RcRecord list \<Rightarrow> uint64 \<Rightarrow> (string \<Rightarrow> int64) \<Rightarrow> (string \<times> int64) list \<Rightarrow> RcRecord list" where
  "slot_rows sys docs h bal rcMap = map (\<lambda>(k, v). RcRecord_zero\<lparr>rc_Account := k, rc_BlockHeight := h,
     rc_Amount := slot_frozen sys docs h (bal k) k v\<rparr>) rcMap"

lemma slot_rows_keys: "map rc_key (slot_rows sys docs h bal rcMap) = map (\<lambda>k. (k, h)) (map fst rcMap)"
  by (auto simp: slot_rows_def rc_key_def RcRecord_zero_def)

lemma slot_rows_puts:
  assumes "distinct (map fst rcMap)" "mset docs' = puts rc_key (slot_rows sys docs h bal rcMap) (mset docs)"
  shows "set docs' = {r \<in> set docs. rc_key r \<notin> (\<lambda>k. (k, h)) ` fst ` set rcMap} \<union> set (slot_rows sys docs h bal rcMap)"
proof -
  let ?rows = "slot_rows sys docs h bal rcMap"
  have "distinct (map rc_key ?rows)"
    unfolding slot_rows_keys using assms(1) by (simp add: distinct_map inj_on_def)
  moreover have "rc_key ` set ?rows = (\<lambda>k. (k, h)) ` fst ` set rcMap"
    using arg_cong [OF slot_rows_keys, of set sys docs h bal rcMap] by (simp add: image_image)
  ultimately have "mset docs' = filter_mset (\<lambda>r. rc_key r \<notin> (\<lambda>k. (k, h)) ` fst ` set rcMap) (mset docs) + mset ?rows"
    using assms(2) by (simp add: puts_eq last_writes_distinct)
  then have "set_mset (mset docs') = set_mset (filter_mset (\<lambda>r. rc_key r \<notin> (\<lambda>k. (k, h)) ` fst ` set rcMap) (mset docs) + mset ?rows)"
    by simp
  then show ?thesis by auto
qed

lemma frozen_now: "0 \<le> sint amt \<Longrightarrow> CalculateFrozenBal h h amt = amt"
  using sint_inj [of amt 0] by (auto simp: CalculateFrozenBal_def)

lemma slot_frozen_nonneg: "0 \<le> sint (slot_frozen sys docs h bal k v)"
  by (simp add: slot_frozen_def Let_def)

context rc_collection
begin

lemma slot_rows_read:
  assumes "rs_RcDb sys = R" "rc_keyed docs" "rc_keyed docs'" "distinct (map fst rcMap)"
    and "mset docs' = puts rc_key (slot_rows sys docs h bal rcMap) (mset docs)"
  shows "(k, v) \<in> set rcMap \<Longrightarrow> frozen_at sys docs' k h = slot_frozen sys docs h (bal k) k v"
    and "a \<notin> fst ` set rcMap \<Longrightarrow> frozen_at sys docs' a h' = frozen_at sys docs a h'"
proof -
  note set = slot_rows_puts [OF assms(4,5)]
  let ?r = "RcRecord_zero\<lparr>rc_Account := k, rc_BlockHeight := h, rc_Amount := slot_frozen sys docs h (bal k) k v\<rparr>"
  assume "(k, v) \<in> set rcMap"
  then have "?r \<in> set docs'" unfolding set by (force simp: slot_rows_def)
  moreover have "rc_BlockHeight y \<le> h" if "rc_query k h y" for y using that by (simp add: rc_query_def)
  ultimately have "FindOne R (rc_query k h) newest_rc docs' = Some ?r"
    by (simp add: newest_rc_iff [OF assms(3)] rc_query_def)
  then show "frozen_at sys docs' k h = slot_frozen sys docs h (bal k) k v"
    by (simp add: frozen_at_def newest_rc_record_def assms(1) frozen_now slot_frozen_nonneg)
next
  assume a: "a \<notin> fst ` set rcMap"
  have "{r \<in> set docs'. rc_query a h' r} = {r \<in> set docs. rc_query a h' r}"
    unfolding slot_rows_puts [OF assms(4,5)] using a
    by (force simp: slot_rows_def rc_query_def rc_key_def RcRecord_zero_def)
  from newest_rc_cong [OF assms(3,2) this] show "frozen_at sys docs' a h' = frozen_at sys docs a h'"
    by (simp add: frozen_at_def assms(1))
qed

lemma flush_rows:
  assumes "rc_keyed (contents rs)"
  shows "\<exists>rs'. blockingRetry (SetRecords R rows) rs = Some ((), rs') \<and> rc_keyed (contents rs') \<and>
    mset (contents rs') = puts rc_key rows (mset (contents rs))"
proof -
  have "SetRecords R rows = each_call (upsert_rc R) rows"
    by (cases rows) (simp_all add: SetRecords_def fun_eq_iff)
  then show ?thesis using credits.retry_batch [OF assms, of baseDelay rows] by (simp add: blockingRetry_def)
qed

end

text \<open>
  C37. The end of a slot freezes what the slot consumed. If the reads of the credit records succeed,
  the flush returns whatever happens to its writes, and afterwards every account of the map has
  frozen exactly what was still frozen plus what it consumed, capped at its balance plus its free
  allowance and at zero from below. What any other account has frozen is unchanged at every height.
\<close>

theorem slot_freezes_consumption:
  assumes "ledger_collection L" "sy_LedgerDb (rs_LedgerSystem sys) = Some L" "sy_BalanceDb (rs_LedgerSystem sys) = Some B"
    and "mongo_collection (rs_RcDb sys)" "rc_keyed (contents rs)" "distinct (map fst rcMap)"
    and "faults rs = replicate (length rcMap) CallOk @ fs"
    and "\<forall>(k, v) \<in> set rcMap. 0 \<le> sint v \<and> fits_int64 (sint (still_frozen sys (contents rs) h k) + sint v) \<and>
      fits_int64 (allowance sys k (balance_of B (contents s) k h ''hbd''))"
  shows "\<exists>s' rs'. UpdateRcMap sys rcMap h s rs = Some (s', rs') \<and> contents s' = contents s \<and> rc_keyed (contents rs') \<and>
    (\<forall>(k, v) \<in> set rcMap. sint (frozen_at sys (contents rs') k h) =
      max 0 (min (sint (still_frozen sys (contents rs) h k) + sint v) (allowance sys k (balance_of B (contents s) k h ''hbd'')))) \<and>
    (\<forall>a h'. a \<notin> fst ` set rcMap \<longrightarrow> frozen_at sys (contents rs') a h' = frozen_at sys (contents rs) a h')"
proof -
  let ?bal = "\<lambda>k. balance_of B (contents s) k h ''hbd''"
  let ?rows = "slot_rows sys (contents rs) h ?bal rcMap"
  have rc: "rc_collection (rs_RcDb sys)" using assms(4) by (simp add: rc_collection_def)
  have cn: "credit_node L sys B" using assms(1,2,3) by (simp add: credit_node_def credit_node_axioms_def)
  obtain gs where 1: "slot_rc_records sys h rcMap s rs = Some (?rows, s\<lparr>faults := gs\<rparr>, rs\<lparr>faults := fs\<rparr>)"
    using credit_node.slot_records [OF cn assms(7), of h s] by (auto simp: slot_rows_def)
  obtain rs' where 2: "blockingRetry (SetRecords (rs_RcDb sys) ?rows) (rs\<lparr>faults := fs\<rparr>) = Some ((), rs')"
    "rc_keyed (contents rs')" "mset (contents rs') = puts rc_key ?rows (mset (contents rs))"
    using rc_collection.flush_rows [OF rc, of "rs\<lparr>faults := fs\<rparr>" ?rows] assms(5) by auto
  note read = rc_collection.slot_rows_read [OF rc refl assms(5) 2(2) assms(6) 2(3)]
  show ?thesis
    using 1 2(1,2) read assms(8)
    by (intro exI [of _ "s\<lparr>faults := gs\<rparr>"] exI [of _ rs']) (auto simp: UpdateRcMap_def slot_frozen_bounds)
qed

definition frozen_doc :: RcRecord where
  "frozen_doc = \<lparr>rc_Account = ''hive:alice'', rc_Amount = 5000, rc_BlockHeight = 10, rc_MaxRcs = 0\<rparr>"

lemma frozen_doc_read: "sint (still_frozen credit_system [frozen_doc] 20 ''hive:alice'') = 5000"
  by (simp add: still_frozen_def newest_rc_record_def credit_system_def list_collection_def sort_by_def frozen_doc_def
      rc_query_def CalculateFrozenBal_def RC_RETURN_PERIOD_def Let_def)

lemma alice_allowance: "allowance credit_system ''hive:alice'' 0 = 10000"
  by (simp add: allowance_def credit_system_def HasPrefix_def)

theorem slot_freezes_consumption_witness:
  "\<exists>s' rs'. UpdateRcMap credit_system [(''hive:alice'', 100)] 20 \<lparr>contents = no_ledger, faults = [RequestLost]\<rparr>
      \<lparr>contents = [frozen_doc], faults = [CallOk, RequestLost, ReplyLost]\<rparr> = Some (s', rs') \<and>
    sint (frozen_at credit_system (contents rs') ''hive:alice'' 20) = 5100"
proof -
  have k: "rc_keyed (contents \<lparr>contents = [frozen_doc], faults = [CallOk, RequestLost, ReplyLost]\<rparr>)"
    by (simp add: rc_keyed_def)
  have m: "mongo_collection (rs_RcDb credit_system)"
    using list_coll.mongo_collection_axioms by (simp add: credit_system_def)
  show ?thesis
    using slot_freezes_consumption [OF list_ledger.ledger_collection_axioms list_credits.handles
        m, of "\<lparr>contents = [frozen_doc], faults = [CallOk, RequestLost, ReplyLost]\<rparr>"
        "[(''hive:alice'', 100)]" "[RequestLost, ReplyLost]" 20 "\<lparr>contents = no_ledger, faults = [RequestLost]\<rparr>"] k
    by (auto simp: frozen_doc_read no_ledger_balance alice_allowance fits_int64_def i64_min_def i64_max_def)
qed

text \<open>
  A read of a credit record whose call fails counts as no record: a slot that ends while that one
  call fails stores the consumption of the slot alone, and what the account had frozen is gone, while
  a node on which the call succeeds keeps it.
\<close>

theorem failed_read_forgets_frozen:
  "\<exists>p q. UpdateRcMap credit_system [(''hive:alice'', 100)] 20 \<lparr>contents = no_ledger, faults = []\<rparr>
      \<lparr>contents = [frozen_doc], faults = [RequestLost]\<rparr> = Some p \<and>
    UpdateRcMap credit_system [(''hive:alice'', 100)] 20 \<lparr>contents = no_ledger, faults = []\<rparr>
      \<lparr>contents = [frozen_doc], faults = []\<rparr> = Some q \<and>
    sint (frozen_at credit_system (contents (snd p)) ''hive:alice'' 20) = 100 \<and>
    sint (frozen_at credit_system (contents (snd q)) ''hive:alice'' 20) = 5100"
proof -
  have b: "system_GetBalance (rs_LedgerSystem credit_system) ''hive:alice'' 20 ''hbd'' \<lparr>contents = no_ledger, faults = []\<rparr> =
      Some (0, \<lparr>contents = no_ledger, faults = []\<rparr>)"
    by (simp add: system_GetBalance_def credit_system_def list_system_def NewEmptyState_def GetBalance_def assetTypes_def
        transferableAssetTypes_def AssetDelegation_def AssetDelegationTotal_def GetBalanceRecord_def ledgerRangeOrBlock_def
        GetLedgerRange_def no_ledger_def list_collection_def sort_by_def record_or_zero_def zero_records snapshot_base_def
        non_nil_def blockingLedgerRead_def retry_loop.simps db_call_def)
  show ?thesis
    by (simp add: UpdateRcMap_def slot_rc_record_def b GetRecord_def db_call_def)
      (simp add: credit_system_def list_collection_def sort_by_def frozen_doc_def rc_query_def RcRecord_zero_def
        with_free_amount_def HasPrefix_def CalculateFrozenBal_def RC_RETURN_PERIOD_def blockingRetry_def retry_loop.simps
        SetRecords_def upsert_rc_def rc_key_def db_call_def frozen_at_def newest_rc_record_def newest_rc_def Let_def)
qed

end
