(* ===== verification/Pendulum.thy ===== *)
theory Pendulum
  imports Prelude
begin

text \<open>
  The economic curve of the incentive pendulum (lib/intmath and the top package of
  modules/incentive-pendulum): the derivation of the cliff and of the band edges from the target
  ratio, the split of a pot between nodes and liquidity providers, the classification of the
  collateral ratio, and the fee primitives with the stabilizer multiplier.

  A \<open>*big.Int\<close> is an \<open>int\<close>, or an \<open>int option\<close> where the code tests it for nil. A division by zero
  panics and is \<open>None\<close>.
\<close>

section \<open>Integer primitives\<close>

definition BpsScale :: int64 where
  "BpsScale = 10000"

definition MulDivFloor :: "int \<Rightarrow> int \<Rightarrow> int \<Rightarrow> int option" where
  "MulDivFloor a b c = (if c = 0 then None else Some (quo (a * b) c))"

text \<open>The inner option is the second result: \<open>None\<close> for a quotient that does not fit.\<close>

definition MulDivFloorI64 :: "int64 \<Rightarrow> int64 \<Rightarrow> int64 \<Rightarrow> int64 option option" where
  "MulDivFloorI64 a b c =
     (if c = 0 then None
      else let out = quo (sint a * sint b) (sint c) in
        Some (if fits_int64 out then Some (word_of_int out) else None))"

text \<open>\<open>big.Int.Sqrt\<close>: the floor of the square root; a panic on a negative argument.\<close>

fun isqrt :: "nat \<Rightarrow> nat" where
  "isqrt n = (if n = 0 then 0 else let r = 2 * isqrt (n div 4) in if (r + 1) * (r + 1) \<le> n then r + 1 else r)"

declare isqrt.simps [simp del]

definition big_Sqrt :: "int \<Rightarrow> int option" where
  "big_Sqrt x = (if x < 0 then None else Some (int (isqrt (nat x))))"

section \<open>The curve\<close>

definition TargetSBps :: int64 where
  "TargetSBps = BpsScale"

definition idealRatioLoBps :: int64 where "idealRatioLoBps = 7364"
definition idealRatioHiBps :: int64 where "idealRatioHiBps = 13444"
definition safeRatioLoBps :: int64 where "safeRatioLoBps = 2571"
definition safeRatioHiBps :: int64 where "safeRatioHiBps = 32667"
definition warnRatioLoBps :: int64 where "warnRatioLoBps = 1667"
definition warnRatioHiBps :: int64 where "warnRatioHiBps = 45000"
definition extremeRatioLoBps :: int64 where "extremeRatioLoBps = 1000"
definition extremeRatioHiBps :: int64 where "extremeRatioHiBps = 100000"

definition deriveCliffSBps :: "int64 \<Rightarrow> int64" where
  "deriveCliffSBps targetSBps =
     word_of_int (quo (sint targetSBps * sint targetSBps * 2) (sint BpsScale)) + targetSBps"

definition CliffSBps :: int64 where
  "CliffSBps = deriveCliffSBps TargetSBps"

definition sEdgeForRatio :: "int64 \<Rightarrow> int64 \<Rightarrow> int64 option" where
  "sEdgeForRatio ratioBps cliffSBps = do {
     let rho = sint ratioBps;
     let disc = rho * rho + rho * sint cliffSBps * 8;
     root \<leftarrow> big_Sqrt disc;
     Some (word_of_int (quo (root - rho) 4))
   }"

text \<open>The package variables; their initialisation does not panic.\<close>

definition edge :: "int64 \<Rightarrow> int64" where
  "edge ratioBps = the (sEdgeForRatio ratioBps CliffSBps)"

definition idealLoEdgeBps :: int64 where "idealLoEdgeBps = edge idealRatioLoBps"
definition idealHiEdgeBps :: int64 where "idealHiEdgeBps = edge idealRatioHiBps"
definition safeLoEdgeBps :: int64 where "safeLoEdgeBps = edge safeRatioLoBps"
definition safeHiEdgeBps :: int64 where "safeHiEdgeBps = edge safeRatioHiBps"
definition warnLoEdgeBps :: int64 where "warnLoEdgeBps = edge warnRatioLoBps"
definition warnHiEdgeBps :: int64 where "warnHiEdgeBps = edge warnRatioHiBps"
definition extremeLoEdgeBps :: int64 where "extremeLoEdgeBps = edge extremeRatioLoBps"
definition extremeHiEdgeBps :: int64 where "extremeHiEdgeBps = edge extremeRatioHiBps"

definition RedirectLoBps :: int64 where "RedirectLoBps = safeLoEdgeBps"
definition RedirectHiBps :: int64 where "RedirectHiBps = safeHiEdgeBps"

definition CliffTimesE :: "int \<Rightarrow> int option" where
  "CliffTimesE E = MulDivFloor E (sint CliffSBps) (sint BpsScale)"

definition YieldRatioBps :: "int64 \<Rightarrow> int64" where
  "YieldRatioBps sBps =
     (if sint sBps \<le> 0 \<or> sint CliffSBps \<le> sint sBps then 0
      else word_of_int (quo (sint sBps * sint sBps * 2) (sint (CliffSBps - sBps))))"

section \<open>The split of a pot\<close>

record SplitInputsInt =
  in_R :: "int option"
  in_E :: "int option"
  in_T :: "int option"
  in_V :: "int option"
  in_P :: "int option"

record SplitOutputsInt =
  FinalNodeShare :: int
  FinalPoolShare :: int
  out_UnderSecured :: bool

text \<open>\<open>Some None\<close> is the result \<open>ok = false\<close>.\<close>

definition SplitInt :: "SplitInputsInt \<Rightarrow> SplitOutputsInt option option" where
  "SplitInt i =
     (case (in_R i, in_E i, in_T i, in_V i, in_P i) of
        (Some R, Some E, Some T, Some V, Some P) \<Rightarrow>
          if E \<le> 0 \<or> T \<le> 0 then Some None
          else if R < 0 \<or> V < 0 \<or> P < 0 then Some None
          else do {
            cE \<leftarrow> CliffTimesE E;
            if cE \<le> V then Some (Some \<lparr>FinalNodeShare = R, FinalPoolShare = 0, out_UnderSecured = True\<rparr>)
            else if V = 0 then Some (Some \<lparr>FinalNodeShare = R, FinalPoolShare = 0, out_UnderSecured = False\<rparr>)
            else do {
              let tvSquared = V * V * T;
              let cEMinusV = cE - V;
              let peTerm = P * E * cEMinusV;
              let denom = tvSquared + peTerm;
              if denom = 0 then Some (Some \<lparr>FinalNodeShare = R, FinalPoolShare = 0, out_UnderSecured = False\<rparr>)
              else do {
                poolShare \<leftarrow> MulDivFloor R peTerm denom;
                Some (Some \<lparr>FinalNodeShare = R - poolShare, FinalPoolShare = poolShare, out_UnderSecured = False\<rparr>)
              }
            }
          }
      | _ \<Rightarrow> Some None)"

section \<open>The collateral ratio\<close>

definition RatioSVBps :: "int option \<Rightarrow> int option \<Rightarrow> int64" where
  "RatioSVBps V E =
     (case (V, E) of
        (Some V, Some E) \<Rightarrow>
          if E \<le> 0 \<or> V < 0 then 0
          else let num = quo (V * sint BpsScale) E in
            if \<not> fits_int64 num then word_of_int i64_max else word_of_int num
      | _ \<Rightarrow> 0)"

definition EffectiveBondHBDInt :: "int option \<Rightarrow> int64 \<Rightarrow> int64 \<Rightarrow> int option" where
  "EffectiveBondHBDInt hiveStake hivePriceHBDBps effectiveFractionBps =
     (case hiveStake of
        None \<Rightarrow> Some 0
      | Some stake \<Rightarrow>
          if stake \<le> 0 \<or> sint hivePriceHBDBps \<le> 0 \<or> sint effectiveFractionBps \<le> 0 then Some 0
          else let frac = if sint BpsScale < sint effectiveFractionBps then BpsScale else effectiveFractionBps in
            MulDivFloor stake (sint hivePriceHBDBps * sint frac) (sint BpsScale * sint BpsScale))"

record CollateralReportBps =
  cr_SBps :: int64
  UnderSecured :: bool
  IdealZone :: bool
  SafeGrowth :: bool
  WarningZone :: bool
  ExtremeLow :: bool
  ExtremeHigh :: bool
  ProtocolRedirectRecommended :: bool
  ProtocolRedirectToNodes :: bool

definition ProtocolFeeRedirectRecommendedBps :: "int64 \<Rightarrow> bool" where
  "ProtocolFeeRedirectRecommendedBps sBps \<longleftrightarrow> sint sBps < sint RedirectLoBps \<or> sint RedirectHiBps < sint sBps"

definition ProtocolFeeRedirectToNodesBps :: "int64 \<Rightarrow> bool" where
  "ProtocolFeeRedirectToNodesBps sBps \<longleftrightarrow> sint RedirectHiBps < sint sBps"

definition CollateralFromSVBps :: "int64 \<Rightarrow> CollateralReportBps" where
  "CollateralFromSVBps sBps =
     (let s = sint sBps; recommended = ProtocolFeeRedirectRecommendedBps sBps in
      \<lparr>cr_SBps = sBps,
       UnderSecured = sint CliffSBps \<le> s,
       IdealZone = sint idealLoEdgeBps \<le> s \<and> s \<le> sint idealHiEdgeBps,
       SafeGrowth = sint safeLoEdgeBps \<le> s \<and> s \<le> sint safeHiEdgeBps,
       WarningZone = sint warnHiEdgeBps < s \<or> s < sint warnLoEdgeBps,
       ExtremeLow = s < sint extremeLoEdgeBps,
       ExtremeHigh = sint extremeHiEdgeBps < s,
       ProtocolRedirectRecommended = recommended,
       ProtocolRedirectToNodes = (if recommended then ProtocolFeeRedirectToNodesBps sBps else False)\<rparr>)"

section \<open>Fees\<close>

definition ProtocolFeeRateBps :: int64 where
  "ProtocolFeeRateBps = 8"

definition CLPFeeInt :: "int option \<Rightarrow> int option \<Rightarrow> int option \<Rightarrow> int option" where
  "CLPFeeInt x X Y =
     (case (x, X, Y) of
        (Some x, Some X, Some Y) \<Rightarrow>
          if x \<le> 0 \<or> X \<le> 0 \<or> Y \<le> 0 then Some 0
          else MulDivFloor (x * x) Y ((x + X) * (x + X))
      | _ \<Rightarrow> Some 0)"

record StabilizerParamsBps =
  sp_KBps :: int64
  sp_R0Bps :: int64
  sp_CapBps :: int64
  sp_PushBps :: int64

definition DefaultStabilizerParamsBps :: StabilizerParamsBps where
  "DefaultStabilizerParamsBps = \<lparr>sp_KBps = BpsScale, sp_R0Bps = word_of_int (quo (sint BpsScale) 100),
     sp_CapBps = BpsScale * 2, sp_PushBps = BpsScale\<rparr>"

datatype pendulum_error = ErrStabilizerOverflow | errNotConfigured | errNotWhitelisted | errSnapshotUnavailable
  | errInvalidArgument | errInsufficientReserves | errAccrualFailed string | errArithmeticOverflow

text \<open>
  The chained products of the multiplier: a quotient that does not fit is an overflow error. A sum
  with the scale is tested for overflow before it is made.
\<close>

definition or_overflow ::
  "int64 option option \<Rightarrow> (int64 \<Rightarrow> (pendulum_error + int64) option) \<Rightarrow> (pendulum_error + int64) option" where
  "or_overflow q k =
     (case q of None \<Rightarrow> None | Some None \<Rightarrow> Some (Inl ErrStabilizerOverflow) | Some (Some v) \<Rightarrow> k v)"

definition StabilizerMultiplierBps :: "int64 \<Rightarrow> int64 \<Rightarrow> StabilizerParamsBps \<Rightarrow> (pendulum_error + int64) option" where
  "StabilizerMultiplierBps sBps rBps p =
     (let
        r0 = (if sint (sp_R0Bps p) \<le> 0 then 1 else sp_R0Bps p);
        diff = sBps - TargetSBps;
        diff = (if sint diff < 0 then - diff else diff)
      in or_overflow (MulDivFloorI64 rBps BpsScale r0) (\<lambda>rOverR0.
         if i64_max - sint BpsScale < sint rOverR0 then Some (Inl ErrStabilizerOverflow)
         else let inner = BpsScale + rOverR0 in
           or_overflow (MulDivFloorI64 (sp_KBps p) diff BpsScale) (\<lambda>tail.
           or_overflow (MulDivFloorI64 tail inner BpsScale) (\<lambda>tail.
           or_overflow (MulDivFloorI64 tail (sp_PushBps p) BpsScale) (\<lambda>tail.
             if i64_max - sint BpsScale < sint tail then Some (Inl ErrStabilizerOverflow)
             else let m = BpsScale + tail in
               Some (Inr (if 0 < sint (sp_CapBps p) \<and> sint (sp_CapBps p) < sint m then sp_CapBps p else m)))))))"

definition ApplyMultiplierBps :: "int option \<Rightarrow> int64 \<Rightarrow> int option" where
  "ApplyMultiplierBps fee mBps =
     (case fee of
        None \<Rightarrow> Some 0
      | Some fee \<Rightarrow> if fee = 0 \<or> mBps = 0 then Some 0 else MulDivFloor fee (sint mBps) (sint BpsScale))"

section \<open>The floor of the liquidity providers\<close>

definition DefaultLPFloorBps :: int64 where
  "DefaultLPFloorBps = 2500"

definition MaxNodeShareBps :: "int64 \<Rightarrow> int64" where
  "MaxNodeShareBps minFractionBps =
     (if sint minFractionBps \<le> 0 then BpsScale
      else BpsScale - (if sint BpsScale < sint minFractionBps then BpsScale else minFractionBps))"

section \<open>Properties of the primitives\<close>

lemma isqrt_spec: "isqrt n * isqrt n \<le> n \<and> n < (isqrt n + 1) * (isqrt n + 1)"
proof (induction n rule: isqrt.induct)
  case (1 n)
  show ?case
  proof (cases "n = 0")
    case True
    then show ?thesis by (simp add: isqrt.simps)
  next
    case False
    let ?q = "isqrt (n div 4)"
    from 1 [OF False] have q: "?q * ?q \<le> n div 4" "n div 4 < (?q + 1) * (?q + 1)" by simp_all
    from q(1) have lo: "2 * ?q * (2 * ?q) \<le> n" by simp
    have "n < 4 * (n div 4 + 1)" by simp
    also have "\<dots> \<le> 4 * ((?q + 1) * (?q + 1))" using q(2) by (intro mult_le_mono2) simp
    also have "\<dots> = (2 * ?q + 2) * (2 * ?q + 2)" by (simp add: algebra_simps)
    finally have hi: "n < (2 * ?q + 2) * (2 * ?q + 2)" .
    have "isqrt n = (if (2 * ?q + 1) * (2 * ?q + 1) \<le> n then 2 * ?q + 1 else 2 * ?q)"
      using False by (subst isqrt.simps) (simp add: Let_def)
    then show ?thesis
      using lo hi by (cases "(2 * ?q + 1) * (2 * ?q + 1) \<le> n") simp_all
  qed
qed

lemma big_Sqrt_spec:
  assumes "0 \<le> x"
  obtains r where "big_Sqrt x = Some r" "0 \<le> r" "r * r \<le> x" "x < (r + 1) * (r + 1)"
proof
  show "big_Sqrt x = Some (int (isqrt (nat x)))" using assms by (simp add: big_Sqrt_def)
  show "0 \<le> int (isqrt (nat x))" by simp
  have "int (isqrt (nat x) * isqrt (nat x)) \<le> int (nat x)"
    "int (nat x) < int ((isqrt (nat x) + 1) * (isqrt (nat x) + 1))"
    using isqrt_spec [of "nat x"] by presburger+
  with assms show "int (isqrt (nat x)) * int (isqrt (nat x)) \<le> x"
    "x < (int (isqrt (nat x)) + 1) * (int (isqrt (nat x)) + 1)" by (simp_all add: algebra_simps)
qed

lemma big_Sqrt_eq:
  assumes "0 \<le> r" "r * r \<le> x" "x < (r + 1) * (r + 1)"
  shows "big_Sqrt x = Some r"
proof -
  have "0 \<le> x" using assms(2) zero_le_square [of r] by linarith
  then obtain q where q: "big_Sqrt x = Some q" "0 \<le> q" "q * q \<le> x" "x < (q + 1) * (q + 1)" by (rule big_Sqrt_spec)
  have "q < r + 1" "r < q + 1"
    using mult_mono [of "r + 1" q "r + 1" q] mult_mono [of "q + 1" r "q + 1" r] q(2-4) assms by (force simp: not_less)+
  with q(1) show ?thesis by simp
qed

lemma constants [simp]:
  "sint BpsScale = 10000" "sint TargetSBps = 10000" "sint CliffSBps = 30000" "BpsScale \<noteq> 0"
  by (simp_all add: BpsScale_def TargetSBps_def CliffSBps_def deriveCliffSBps_def)

lemma MulDivFloor_nonneg: "0 \<le> a \<Longrightarrow> 0 \<le> b \<Longrightarrow> 0 < c \<Longrightarrow> MulDivFloor a b c = Some (a * b div c)"
  by (simp add: MulDivFloor_def)

lemma CliffTimesE_nonneg: "0 \<le> E \<Longrightarrow> CliffTimesE E = Some (3 * E)"
  by (simp add: CliffTimesE_def MulDivFloor_nonneg)

text \<open>A smaller fraction of the same pot has a smaller floor.\<close>

lemma floor_fraction_mono:
  assumes "a' * d \<le> a * (d' :: int)" "0 < d" "0 < d'" "0 \<le> R"
  shows "R * a' div d' \<le> R * a div d"
proof -
  let ?q = "R * a' div d'"
  have "?q * d' \<le> R * a'"
    using pos_mod_sign [OF assms(3), of "R * a'"] div_mult_mod_eq [of "R * a'" d'] by linarith
  then have "?q * d' * d \<le> R * a' * d" using assms(2) by (intro mult_right_mono) simp_all
  also have "\<dots> \<le> R * (a * d')" using assms(1,4) by (simp add: mult.assoc mult_left_mono)
  finally have "?q * d * d' \<le> R * a * d'" by (simp add: mult_ac)
  then have "?q * d \<le> R * a" using assms(3) by simp
  then show ?thesis using assms(2) zdiv_mono1 [of "?q * d" "R * a" d] by simp
qed

section \<open>The band edges invert the yield curve\<close>

lemma edge_root:
  assumes "0 < (\<rho> :: int)" "0 < c" "0 \<le> r" "r * r \<le> \<rho> * \<rho> + \<rho> * c * 8" "\<rho> * \<rho> + \<rho> * c * 8 < (r + 1) * (r + 1)"
  shows "0 \<le> (r - \<rho>) div 4" "2 * ((r - \<rho>) div 4) * ((r - \<rho>) div 4) + \<rho> * ((r - \<rho>) div 4) \<le> \<rho> * c"
    and "\<rho> * c < 2 * ((r - \<rho>) div 4 + 1) * ((r - \<rho>) div 4 + 1) + \<rho> * ((r - \<rho>) div 4 + 1)"
proof -
  let ?s = "(r - \<rho>) div 4"
  have "\<rho> * \<rho> < (r + 1) * (r + 1)"
    using assms(5) mult_pos_pos [OF assms(1,2)] by linarith
  then have "\<rho> < r + 1" using assms(1,3) by (metis linorder_not_less mult_mono' zle_add1_eq_le add_nonneg_nonneg zero_le_one)
  then have "0 \<le> r - \<rho>" by simp
  then show s0: "0 \<le> ?s" by simp
  have lo: "4 * ?s \<le> r - \<rho>" and hi: "r - \<rho> + 1 \<le> 4 * (?s + 1)" by simp_all
  have "(4 * ?s + \<rho>) * (4 * ?s + \<rho>) \<le> r * r"
    using lo s0 assms(1) by (intro mult_mono) simp_all
  with assms(4) have "(4 * ?s + \<rho>) * (4 * ?s + \<rho>) \<le> \<rho> * \<rho> + \<rho> * c * 8" by simp
  then show "2 * ?s * ?s + \<rho> * ?s \<le> \<rho> * c" by (simp add: algebra_simps)
  have "(r + 1) * (r + 1) \<le> (4 * (?s + 1) + \<rho>) * (4 * (?s + 1) + \<rho>)"
    using hi assms(1,3) s0 by (intro mult_mono) simp_all
  with assms(5) have "\<rho> * \<rho> + \<rho> * c * 8 < (4 * (?s + 1) + \<rho>) * (4 * (?s + 1) + \<rho>)" by simp
  then show "\<rho> * c < 2 * (?s + 1) * (?s + 1) + \<rho> * (?s + 1)" by (simp add: algebra_simps)
qed

lemma sEdge_spec:
  assumes "0 < sint ratio" "0 < sint cliff"
  obtains s where "sEdgeForRatio ratio cliff = Some s" "0 \<le> sint s" "sint s < sint cliff"
    "2 * sint s * sint s + sint ratio * sint s \<le> sint ratio * sint cliff"
    "sint ratio * sint cliff < 2 * (sint s + 1) * (sint s + 1) + sint ratio * (sint s + 1)"
proof -
  let ?\<rho> = "sint ratio" and ?c = "sint cliff"
  have "0 \<le> ?\<rho> * ?\<rho> + ?\<rho> * ?c * 8" using assms by simp
  then obtain r where r: "big_Sqrt (?\<rho> * ?\<rho> + ?\<rho> * ?c * 8) = Some r" "0 \<le> r"
    "r * r \<le> ?\<rho> * ?\<rho> + ?\<rho> * ?c * 8" "?\<rho> * ?\<rho> + ?\<rho> * ?c * 8 < (r + 1) * (r + 1)"
    by (rule big_Sqrt_spec)
  note e = edge_root [OF assms r(2-4)]
  let ?s = "(r - ?\<rho>) div 4"
  have "?\<rho> * ?s \<le> ?\<rho> * ?c" using e(1,2) by (smt (verit) mult_nonneg_nonneg)
  then have "?s \<le> ?c" using assms(1) by simp
  moreover have "?s \<noteq> ?c" using e(2) assms by (auto simp: mult_le_0_iff)
  ultimately have lt: "?s < ?c" by simp
  then have "fits_int64 ?s" using e(1) sint_bounds(2) [of cliff] by (simp add: fits_int64_def i64_min_def)
  then have s: "sint (word_of_int ?s :: int64) = ?s" by (rule sint_of_fits)
  have "0 \<le> r - ?\<rho>" using e(1) by simp
  then have "sEdgeForRatio ratio cliff = Some (word_of_int ?s)" by (simp add: sEdgeForRatio_def r(1))
  then show thesis using that [of "word_of_int ?s"] s e lt by simp
qed

lemma yield_value:
  assumes "0 < sint s" "sint s < sint CliffSBps"
  shows "sint (YieldRatioBps s) = 2 * sint s * sint s div (sint CliffSBps - sint s)"
proof -
  let ?s = "sint s"
  have d: "sint (CliffSBps - s) = 30000 - ?s" using assms by (subst sint_debit) simp_all
  have "0 \<le> 2 * ?s * ?s div (30000 - ?s)" using assms by (simp add: pos_imp_zdiv_nonneg_iff)
  moreover have "2 * ?s * ?s div (30000 - ?s) \<le> 2 * ?s * ?s"
    using assms quo_bounds(2) [of "2 * ?s * ?s" "30000 - ?s"] by simp
  moreover have "?s * ?s \<le> 30000 * 30000" using assms by (intro mult_mono) simp_all
  ultimately have "fits_int64 (2 * ?s * ?s div (30000 - ?s))" by (simp add: fits_int64_def i64_min_def i64_max_def)
  then show ?thesis using assms d by (simp add: YieldRatioBps_def mult_ac sint_of_fits)
qed

text \<open>
  A band edge inverts the yield curve to the basis point: for every positive threshold the
  derived edge exists, lies between zero and the cliff, the yield ratio at the edge does not exceed
  the threshold, and one basis point further it reaches it.
\<close>

theorem edge_inverts_yield:
  assumes "0 < sint ratio"
  shows "\<exists>s. sEdgeForRatio ratio CliffSBps = Some s \<and> 0 \<le> sint s \<and> sint s < sint CliffSBps \<and>
    sint (YieldRatioBps s) \<le> sint ratio \<and>
    (sint s + 1 < sint CliffSBps \<longrightarrow> sint ratio \<le> sint (YieldRatioBps (s + 1)))"
proof -
  obtain s where s: "sEdgeForRatio ratio CliffSBps = Some s" "0 \<le> sint s" "sint s < sint CliffSBps"
    "2 * sint s * sint s + sint ratio * sint s \<le> sint ratio * sint CliffSBps"
    "sint ratio * sint CliffSBps < 2 * (sint s + 1) * (sint s + 1) + sint ratio * (sint s + 1)"
    using sEdge_spec [OF assms, of CliffSBps] by auto
  have lo: "sint (YieldRatioBps s) \<le> sint ratio"
  proof (cases "sint s = 0")
    case True
    then show ?thesis using assms by (simp add: YieldRatioBps_def)
  next
    case False
    have "2 * sint s * sint s \<le> sint ratio * (sint CliffSBps - sint s)" using s(4) by (simp add: algebra_simps)
    then have "2 * sint s * sint s div (sint CliffSBps - sint s) \<le> sint ratio"
      using s(3) zdiv_mono1 [of _ "sint ratio * (sint CliffSBps - sint s)" "sint CliffSBps - sint s"] by fastforce
    then show ?thesis using False s(2,3) by (simp add: yield_value)
  qed
  have hi: "sint ratio \<le> sint (YieldRatioBps (s + 1))" if "sint s + 1 < sint CliffSBps"
  proof -
    have s1: "sint (s + 1) = sint s + 1"
      using s(2) that by (subst sint_add_fits) (simp_all add: fits_int64_def i64_min_def i64_max_def)
    have "sint ratio * (sint CliffSBps - (sint s + 1)) \<le> 2 * (sint s + 1) * (sint s + 1)"
      using s(5) by (simp add: algebra_simps)
    then have "sint ratio \<le> 2 * (sint s + 1) * (sint s + 1) div (sint CliffSBps - (sint s + 1))"
      using that zdiv_mono1 [of "sint ratio * (sint CliffSBps - (sint s + 1))" _ "sint CliffSBps - (sint s + 1)"] by fastforce
    then show ?thesis using s(2) that by (simp add: yield_value s1)
  qed
  from s(1-3) lo hi show ?thesis by blast
qed

theorem edge_inverts_yield_witness:
  "\<exists>s. sEdgeForRatio safeRatioHiBps CliffSBps = Some s \<and> sint (YieldRatioBps s) \<le> 32667 \<and>
    32667 \<le> sint (YieldRatioBps (s + 1))"
proof -
  have "sEdgeForRatio safeRatioHiBps CliffSBps = Some 15427"
    by (simp add: sEdgeForRatio_def safeRatioHiBps_def big_Sqrt_eq [of 94378])
  then show ?thesis
    using edge_inverts_yield [of safeRatioHiBps] by (auto simp: safeRatioHiBps_def)
qed

lemma redirect_edges [simp]: "sint RedirectLoBps = 5600" "sint RedirectHiBps = 15427"
  by (simp_all add: RedirectLoBps_def RedirectHiBps_def safeLoEdgeBps_def safeHiEdgeBps_def edge_def sEdgeForRatio_def
      safeRatioLoBps_def safeRatioHiBps_def big_Sqrt_eq [of 94378] big_Sqrt_eq [of 24972])

section \<open>The split swings with the vault\<close>

definition split_inputs :: "int \<Rightarrow> int \<Rightarrow> int \<Rightarrow> int \<Rightarrow> int \<Rightarrow> SplitInputsInt" where
  "split_inputs R E T V P = \<lparr>in_R = Some R, in_E = Some E, in_T = Some T, in_V = Some V, in_P = Some P\<rparr>"

definition pool_share :: "int \<Rightarrow> int \<Rightarrow> int \<Rightarrow> int \<Rightarrow> int \<Rightarrow> int" where
  "pool_share R E T V P =
     (if 3 * E \<le> V \<or> V = 0 then 0 else R * (P * E * (3 * E - V)) div (V * V * T + P * E * (3 * E - V)))"

lemma pe_term_nonneg: "0 < E \<Longrightarrow> 0 \<le> P \<Longrightarrow> V \<le> 3 * E \<Longrightarrow> 0 \<le> P * E * (3 * E - (V :: int))"
  by simp

lemma pool_share_bounds:
  assumes "0 \<le> R" "0 < E" "0 < T" "0 \<le> V" "0 \<le> P"
  shows "0 \<le> pool_share R E T V P" "pool_share R E T V P \<le> R"
proof -
  have "0 \<le> pool_share R E T V P \<and> pool_share R E T V P \<le> R"
  proof (cases "3 * E \<le> V \<or> V = 0")
    case True
    then show ?thesis using assms by (auto simp: pool_share_def)
  next
    case False
    let ?p = "P * E * (3 * E - V)" and ?t = "V * V * T"
    have p: "0 \<le> ?p" using False assms by (intro pe_term_nonneg) simp_all
    moreover have t: "0 < ?t" using False assms by simp
    ultimately have d: "0 < ?t + ?p" "?p \<le> ?t + ?p" by simp_all
    then have "0 \<le> R * ?p div (?t + ?p)" using p assms(1) by (simp add: pos_imp_zdiv_nonneg_iff)
    moreover have "R * ?p div (?t + ?p) \<le> R" using quo_mult_le [OF assms(1) p d(2,1)] p d(1) assms(1) by simp
    ultimately show ?thesis using False by (simp add: pool_share_def)
  qed
  then show "0 \<le> pool_share R E T V P" "pool_share R E T V P \<le> R" by simp_all
qed

lemma SplitInt_value:
  assumes "0 \<le> R" "0 < E" "0 < T" "0 \<le> V" "0 \<le> P"
  shows "SplitInt (split_inputs R E T V P) = Some (Some \<lparr>FinalNodeShare = R - pool_share R E T V P,
    FinalPoolShare = pool_share R E T V P, out_UnderSecured = (3 * E \<le> V)\<rparr>)"
proof -
  have "V * V * T + P * E * (3 * E - V) \<noteq> 0 \<and> 0 < V * V * T + P * E * (3 * E - V)" if "\<not> 3 * E \<le> V" "V \<noteq> 0"
    using that assms pe_term_nonneg [of E P V] by (smt (verit) mult_pos_pos)
  then show ?thesis
    using assms pe_term_nonneg [of E P V]
    by (auto simp: SplitInt_def split_inputs_def CliffTimesE_nonneg pool_share_def MulDivFloor_nonneg Let_def)
qed

lemma pool_share_antimono:
  assumes "0 \<le> R" "0 < E" "0 < T" "0 < V" "V \<le> V'" "0 \<le> P"
  shows "pool_share R E T V' P \<le> pool_share R E T V P"
proof (cases "3 * E \<le> V'")
  case True
  then show ?thesis using pool_share_bounds(1) [of R E T V P] assms by (simp add: pool_share_def)
next
  case False
  let ?p = "P * E * (3 * E - V)" and ?p' = "P * E * (3 * E - V')" and ?t = "V * V * T" and ?t' = "V' * V' * T"
  have p: "0 \<le> ?p'" "?p' \<le> ?p" using False assms by (simp_all add: mult_left_mono)
  have t: "0 < ?t" "?t \<le> ?t'" using assms by (simp_all add: mult_mono)
  have "?p' * ?t \<le> ?p * ?t'" using mult_mono [OF p(2) t(2)] p t by linarith
  then have "?p' * (?t + ?p) \<le> ?p * (?t' + ?p')" by (simp add: algebra_simps)
  then have "R * ?p' div (?t' + ?p') \<le> R * ?p div (?t + ?p)"
    using p t assms(1) by (intro floor_fraction_mono) linarith+
  then show ?thesis using False assms by (simp add: pool_share_def)
qed

text \<open>
  The split of a pot conserves it exactly, gives neither side a negative share, and swings with
  the vault: the more liquidity the same bond has to secure, the larger the share of the nodes, up to
  the whole pot at the cliff of three times the bond.
\<close>

theorem split_swings_to_nodes:
  assumes "0 \<le> R" "0 < E" "0 < T" "0 < V" "V \<le> V'" "0 \<le> P"
  shows "\<exists>a b. SplitInt (split_inputs R E T V P) = Some (Some a) \<and> SplitInt (split_inputs R E T V' P) = Some (Some b) \<and>
    FinalNodeShare a + FinalPoolShare a = R \<and> 0 \<le> FinalNodeShare a \<and> 0 \<le> FinalPoolShare a \<and>
    FinalNodeShare a \<le> FinalNodeShare b \<and> FinalPoolShare b \<le> FinalPoolShare a \<and>
    (out_UnderSecured a \<longleftrightarrow> 3 * E \<le> V) \<and> (out_UnderSecured a \<longrightarrow> FinalNodeShare a = R)"
  using assms SplitInt_value [of R E T V P] SplitInt_value [of R E T V' P] pool_share_bounds [of R E T V P]
    pool_share_antimono [of R E T V V' P]
  by (simp add: pool_share_def [of R E T V P])

theorem split_swings_to_nodes_witness:
  "\<exists>a b. SplitInt (split_inputs 1000 600 900 500 250) = Some (Some a) \<and>
    SplitInt (split_inputs 1000 600 900 1500 250) = Some (Some b) \<and>
    FinalNodeShare a + FinalPoolShare a = 1000 \<and> FinalNodeShare a \<le> FinalNodeShare b"
  using split_swings_to_nodes [of 1000 600 900 500 1500 250] by auto

section \<open>The stabilizer multiplier\<close>

lemma MulDivFloorI64_nonneg:
  "MulDivFloorI64 a b c = Some (Some v) \<Longrightarrow> 0 \<le> sint a \<Longrightarrow> 0 \<le> sint b \<Longrightarrow> 0 < sint c \<Longrightarrow> 0 \<le> sint v"
  by (auto simp: MulDivFloorI64_def Let_def sint_of_fits pos_imp_zdiv_nonneg_iff split: if_splits)

lemma sint_scale_add:
  "0 \<le> sint v \<Longrightarrow> sint v \<le> i64_max - sint BpsScale \<Longrightarrow> sint (BpsScale + v) = 10000 + sint v"
  by (subst sint_add_fits) (simp_all add: fits_int64_def i64_min_def)

lemma or_overflow_returns:
  "q \<noteq> None \<Longrightarrow> (\<And>v. \<exists>r. k v = Some r) \<Longrightarrow> \<exists>r. or_overflow q k = Some r"
  by (auto simp: or_overflow_def split: option.split)

lemma or_overflow_Inr: "or_overflow q k = Some (Inr m) \<longleftrightarrow> (\<exists>v. q = Some (Some v) \<and> k v = Some (Inr m))"
  by (auto simp: or_overflow_def split: option.splits)

lemma MulDivFloorI64_returns: "c \<noteq> 0 \<Longrightarrow> MulDivFloorI64 a b c \<noteq> None"
  by (simp add: MulDivFloorI64_def Let_def)

lemma multiplier_returns: "\<exists>r. StabilizerMultiplierBps s r0 p = Some r"
proof -
  have "(if sint (sp_R0Bps p) \<le> 0 then 1 else sp_R0Bps p) \<noteq> 0" by auto
  then show ?thesis
    unfolding StabilizerMultiplierBps_def Let_def
    by (auto intro!: or_overflow_returns MulDivFloorI64_returns)
qed

lemma multiplier_bounds:
  assumes "StabilizerMultiplierBps s r p = Some (Inr m)" "0 \<le> sint s" "0 \<le> sint r"
    and "0 \<le> sint (sp_KBps p)" "0 \<le> sint (sp_PushBps p)" "sint BpsScale \<le> sint (sp_CapBps p)"
  shows "sint BpsScale \<le> sint m" "sint m \<le> sint (sp_CapBps p)"
proof -
  let ?d = "if sint (s - TargetSBps) < 0 then - (s - TargetSBps) else s - TargetSBps"
  let ?r0 = "if sint (sp_R0Bps p) \<le> 0 then 1 else sp_R0Bps p"
  have sd: "sint (s - TargetSBps) = sint s - 10000"
    using assms(2) sint_bounds(2) [of s] by (subst sint_diff_fits) (simp_all add: fits_int64_def i64_min_def i64_max_def)
  then have d: "0 \<le> sint ?d"
    using assms(2) sint_minus_fits [of "s - TargetSBps"] by (auto simp: fits_int64_def i64_min_def i64_max_def)
  have r0: "0 < sint ?r0" by simp
  obtain a b c e where v: "MulDivFloorI64 r BpsScale ?r0 = Some (Some a)" "\<not> i64_max - sint BpsScale < sint a"
    "MulDivFloorI64 (sp_KBps p) ?d BpsScale = Some (Some b)" "MulDivFloorI64 b (BpsScale + a) BpsScale = Some (Some c)"
    "MulDivFloorI64 c (sp_PushBps p) BpsScale = Some (Some e)" "\<not> i64_max - sint BpsScale < sint e"
    "m = (if 0 < sint (sp_CapBps p) \<and> sint (sp_CapBps p) < sint (BpsScale + e) then sp_CapBps p else BpsScale + e)"
    using assms(1) unfolding StabilizerMultiplierBps_def Let_def or_overflow_Inr
    by (auto simp: or_overflow_Inr split: if_split_asm)
  have a: "0 \<le> sint a" using MulDivFloorI64_nonneg [OF v(1)] assms(3) r0 by simp
  have b: "0 \<le> sint b" using MulDivFloorI64_nonneg [OF v(3)] assms(4) d by simp
  have c: "0 \<le> sint c" using MulDivFloorI64_nonneg [OF v(4) b] sint_scale_add [OF a] v(2) a by simp
  have e: "0 \<le> sint e" using MulDivFloorI64_nonneg [OF v(5) c assms(5)] by simp
  have "sint (BpsScale + e) = 10000 + sint e" using sint_scale_add [OF e] v(6) by simp
  with e v(7) assms(6) show "sint BpsScale \<le> sint m" "sint m \<le> sint (sp_CapBps p)" by auto
qed

end
