(* ===== verification/Swap.thy ===== *)
theory Swap
  imports Pendulum ConsensusVersion Session_Spec Slash
begin

text \<open>
  The fees of a swap (modules/incentive-pendulum/wasm/applier.go): the gross output of the constant
  product, the two fee legs, the cut of the network, the split of the rest between liquidity
  providers and nodes, the reserves after the swap, and the accrual of the nodes' share; and the
  binding of the accrual to the ledger session of the running contract
  (modules/contract/execution-context). The geometry of the pools and the pool whitelist are read
  through interfaces of the applier and are arguments. The applier and the accrual function a caller passes
  are never nil here, so the two tests for that have no counterpart.
\<close>

record GeometryOutputs =
  geo_OK :: bool
  geo_V :: int64
  geo_P :: int64
  geo_E :: int64
  geo_T :: int64
  geo_SBps :: int64

record Config =
  cf_Stabilizer :: StabilizerParamsBps
  cf_NetworkShareNum :: int64
  cf_NetworkShareDen :: int64
  cf_MinFractionBps :: int64
  cf_CLPScaleBps :: int64
  cf_MaxFeeBps :: int64
  cf_ActivationHeight :: uint64

definition DefaultConfig :: Config where
  "DefaultConfig = \<lparr>cf_Stabilizer = DefaultStabilizerParamsBps, cf_NetworkShareNum = 1, cf_NetworkShareDen = 4,
     cf_MinFractionBps = DefaultLPFloorBps, cf_CLPScaleBps = 625, cf_MaxFeeBps = 100, cf_ActivationHeight = 0\<rparr>"

text \<open>A dependency that is not wired is \<open>None\<close>.\<close>

record Applier =
  ap_geometry :: "(uint64 \<Rightarrow> GeometryOutputs \<times> bool) option"
  ap_whitelist :: "(uint64 \<Rightarrow> string list) option"
  ap_consensusAt :: "(uint64 \<Rightarrow> Version) option"
  ap_cfg :: Config

record PendulumSwapFeeArgs =
  pa_AssetIn :: string
  pa_AssetOut :: string
  pa_X :: int64
  pa_XReserve :: int64
  pa_YReserve :: int64

record PendulumSwapFeeResult =
  UserOutput :: int64
  NewXReserve :: int64
  NewYReserve :: int64
  NetworkCreditOutput :: int64
  NodeBucketCreditedHBD :: int64
  LpShareOutput :: int64
  NodeShareOutput :: int64
  MultiplierBps :: int64
  SAfterBps :: int64

definition LPFloorActivation :: Version where
  "LPFloorActivation = Version 0 2 0"

section \<open>Helpers\<close>

definition contractWhitelisted :: "string \<Rightarrow> string list \<Rightarrow> bool" where
  "contractWhitelisted contractID whitelist \<longleftrightarrow> contractID \<noteq> [] \<and> contractID \<in> set whitelist"

definition lower_byte :: "char \<Rightarrow> char" where
  "lower_byte c = (if CHR ''A'' \<le> c \<and> c \<le> CHR ''Z'' then char_of (of_char c + 32 :: nat) else c)"

definition normalizeAsset :: "string \<Rightarrow> string" where
  "normalizeAsset a = map lower_byte a"

definition tradeRatioBps :: "int64 \<Rightarrow> int64 \<Rightarrow> (pendulum_error + int64) option" where
  "tradeRatioBps x X =
     (if sint X \<le> 0 then Some (Inr 0)
      else case MulDivFloorI64 x BpsScale X of
        None \<Rightarrow> None
      | Some None \<Rightarrow> Some (Inl errArithmeticOverflow)
      | Some (Some v) \<Rightarrow> Some (Inr v))"

definition exacerbatesFromSnapshot :: "int64 \<Rightarrow> bool \<Rightarrow> bool" where
  "exacerbatesFromSnapshot sBps hbdIn =
     (if sBps = TargetSBps then True
      else if sint sBps < sint TargetSBps then \<not> hbdIn
      else hbdIn)"

definition splitFractionsBps :: "int \<Rightarrow> int \<Rightarrow> int \<Rightarrow> int \<Rightarrow> int64 \<Rightarrow> int64 \<Rightarrow> (int64 \<times> int64) option" where
  "splitFractionsBps T V E P sBps maxNodeBps = do {
     cE \<leftarrow> CliffTimesE E;
     if cE \<le> V then Some (maxNodeBps, maxNodeBps)
     else do {
       let tvSquared = V * V * T;
       let cEMinusV = cE - V;
       let peTerm = P * E * cEMinusV;
       let denom = tvSquared + peTerm;
       if denom = 0 then Some (maxNodeBps, maxNodeBps)
       else do {
         fNodeBig \<leftarrow> MulDivFloor tvSquared (sint BpsScale) denom;
         if \<not> fits_int64 fNodeBig then Some (maxNodeBps, maxNodeBps)
         else do {
           let fNode = (word_of_int fNodeBig :: int64);
           let fNode = (if sint maxNodeBps < sint fNode then maxNodeBps else fNode);
           let fNodeProtocol = (if sint sBps < sint RedirectLoBps then 0
             else if sint RedirectHiBps < sint sBps then maxNodeBps else fNode);
           Some (fNode, fNodeProtocol)
         }
       }
     }
   }"

section \<open>The amounts of a swap\<close>

definition feeFixActive :: "Config \<Rightarrow> uint64 \<Rightarrow> bool" where
  "feeFixActive cfg blockHeight \<longleftrightarrow> cf_ActivationHeight cfg = 0 \<or> cf_ActivationHeight cfg \<le> blockHeight"

text \<open>The leg of the liquidity fee: scaled and capped once the fix is active, multiplied before.\<close>

definition clp_leg :: "Config \<Rightarrow> uint64 \<Rightarrow> int \<Rightarrow> int \<Rightarrow> int \<Rightarrow> int64 \<Rightarrow> int option" where
  "clp_leg cfg blockHeight grossOut baseCLP totalProtocol multiplierBps =
     (if feeFixActive cfg blockHeight then do {
        totalCLP \<leftarrow> ApplyMultiplierBps (Some baseCLP) (cf_CLPScaleBps cfg);
        if 0 < sint (cf_MaxFeeBps cfg) then do {
          feeCap \<leftarrow> MulDivFloor grossOut (sint (cf_MaxFeeBps cfg)) (sint BpsScale);
          Some (if feeCap < totalCLP + totalProtocol then max 0 (feeCap - totalProtocol) else totalCLP)
        } else Some totalCLP
      } else do {
        totalCLP \<leftarrow> ApplyMultiplierBps (Some baseCLP) multiplierBps;
        Some (if totalCLP < baseCLP then baseCLP else totalCLP)
      })"

definition network_share :: "Config \<Rightarrow> int \<times> int" where
  "network_share cfg =
     (if sint (cf_NetworkShareDen cfg) \<le> 0 then (1, 4)
      else (sint (cf_NetworkShareNum cfg), sint (cf_NetworkShareDen cfg)))"

definition max_node_bps :: "Applier \<Rightarrow> uint64 \<Rightarrow> int64" where
  "max_node_bps a blockHeight =
     (case ap_consensusAt a of
        None \<Rightarrow> BpsScale
      | Some consensusAt \<Rightarrow>
          if 0 < sint (cf_MinFractionBps (ap_cfg a)) \<and> MeetsConsensusMin (consensusAt blockHeight) LPFloorActivation
          then MaxNodeShareBps (cf_MinFractionBps (ap_cfg a)) else BpsScale)"

record swap_amounts =
  sw_grossOut :: int
  sw_totalCLP :: int
  sw_totalProtocol :: int
  sw_userOutput :: int
  sw_networkCredit :: int
  sw_lpFee :: int
  sw_nodeShare :: int
  sw_multiplier :: int64

text \<open>Steps 4 to 11: the two legs, the network's cut, the split of the pots.\<close>

definition fee_legs ::
  "Applier \<Rightarrow> uint64 \<Rightarrow> GeometryOutputs \<Rightarrow> int \<Rightarrow> int \<Rightarrow> int \<Rightarrow> int64 \<Rightarrow> (pendulum_error + swap_amounts) option" where
  "fee_legs a blockHeight geo grossOut baseCLP baseProtocol multiplierBps = do {
     let cfg = ap_cfg a;
     chargedProtocol \<leftarrow> ApplyMultiplierBps (Some baseProtocol) multiplierBps;
     let totalProtocol = (if chargedProtocol < baseProtocol then baseProtocol else chargedProtocol);
     totalCLP \<leftarrow> clp_leg cfg blockHeight grossOut baseCLP totalProtocol multiplierBps;
     let totalFee = totalCLP + totalProtocol;
     let userOutput = grossOut - totalFee;
     if userOutput < 0 then Some (Inl errInsufficientReserves)
     else do {
       let (num, den) = network_share cfg;
       networkCLP \<leftarrow> MulDivFloor totalCLP num den;
       networkProtocol \<leftarrow> MulDivFloor totalProtocol num den;
       let pendulumCLP = totalCLP - networkCLP;
       let pendulumProtocol = totalProtocol - networkProtocol;
       (fNodeBps, fNodeProtocolBps) \<leftarrow> splitFractionsBps (sint (geo_T geo)) (sint (geo_V geo)) (sint (geo_E geo))
         (sint (geo_P geo)) (geo_SBps geo) (max_node_bps a blockHeight);
       lpCLPKept \<leftarrow> MulDivFloor pendulumCLP (sint (BpsScale - fNodeBps)) (sint BpsScale);
       let nodeCLPNative = pendulumCLP - lpCLPKept;
       lpProtocolKept \<leftarrow> MulDivFloor pendulumProtocol (sint (BpsScale - fNodeProtocolBps)) (sint BpsScale);
       let nodeProtocolNative = pendulumProtocol - lpProtocolKept;
       Some (Inr \<lparr>sw_grossOut = grossOut, sw_totalCLP = totalCLP, sw_totalProtocol = totalProtocol,
         sw_userOutput = userOutput, sw_networkCredit = networkCLP + networkProtocol,
         sw_lpFee = lpCLPKept + lpProtocolKept, sw_nodeShare = nodeCLPNative + nodeProtocolNative,
         sw_multiplier = multiplierBps\<rparr>)
     }
   }"

definition swap_fees ::
  "Applier \<Rightarrow> uint64 \<Rightarrow> GeometryOutputs \<Rightarrow> string \<Rightarrow> PendulumSwapFeeArgs \<Rightarrow> (pendulum_error + swap_amounts) option" where
  "swap_fees a blockHeight geo assetIn args = do {
     let x = sint (pa_X args);
     let X = sint (pa_XReserve args);
     let Y = sint (pa_YReserve args);
     let xPlusReserve = X + x;
     if xPlusReserve = 0 then Some (Inl errInvalidArgument)
     else do {
       grossOut \<leftarrow> MulDivFloor x Y xPlusReserve;
       if grossOut \<le> 0 then Some (Inl errInsufficientReserves)
       else if Y < grossOut then Some (Inl errInsufficientReserves)
       else do {
         baseCLP \<leftarrow> MulDivFloor (x * x) Y (xPlusReserve * xPlusReserve);
         baseProtocol \<leftarrow> MulDivFloor grossOut (sint ProtocolFeeRateBps) (sint BpsScale);
         rTradeBps \<leftarrow> tradeRatioBps (pa_X args) (pa_XReserve args);
         case rTradeBps of Inl e \<Rightarrow> Some (Inl e) | Inr rTradeBps \<Rightarrow> do {
           let stab = cf_Stabilizer (ap_cfg a);
           let stab = (if \<not> exacerbatesFromSnapshot (geo_SBps geo) (assetIn = ''hbd'')
             then stab\<lparr>sp_PushBps := word_of_int (quo (sint (BpsScale * 70)) 100)\<rparr> else stab);
           multiplierBps \<leftarrow> StabilizerMultiplierBps (geo_SBps geo) rTradeBps stab;
           case multiplierBps of Inl e \<Rightarrow> Some (Inl e)
           | Inr multiplierBps \<Rightarrow> fee_legs a blockHeight geo grossOut baseCLP baseProtocol multiplierBps
         }
       }
     }
   }"

text \<open>Step 12: the reserves after the swap and the HBD that leaves the pool for the nodes.\<close>

definition new_reserves :: "string \<Rightarrow> int \<Rightarrow> int \<Rightarrow> int \<Rightarrow> int \<Rightarrow> int \<Rightarrow> (pendulum_error + int \<times> int \<times> int) option" where
  "new_reserves assetOut x X Y userOutput nodeShareOutput = do {
     let newX = X + x;
     let newY = Y - userOutput;
     if assetOut = ''hbd'' then
       Some (if newY < nodeShareOutput then Inl errInsufficientReserves
         else Inr (newX, newY - nodeShareOutput, nodeShareOutput))
     else do {
       let denom = newY + nodeShareOutput;
       if denom \<le> 0 then Some (Inl errInsufficientReserves)
       else do {
         hbdOut \<leftarrow> MulDivFloor nodeShareOutput newX denom;
         Some (if newX < hbdOut then Inl errInsufficientReserves else Inr (newX - hbdOut, newY, hbdOut))
       }
     }
   }"

section \<open>The applier\<close>

type_synonym 's accrue = "int64 \<Rightarrow> 's \<Rightarrow> (string option \<times> 's) option"

definition validate_swap :: "PendulumSwapFeeArgs \<Rightarrow> (pendulum_error + string \<times> string)" where
  "validate_swap args =
     (if sint (pa_X args) \<le> 0 \<or> sint (pa_XReserve args) \<le> 0 \<or> sint (pa_YReserve args) \<le> 0 then Inl errInvalidArgument
      else let assetIn = normalizeAsset (pa_AssetIn args); assetOut = normalizeAsset (pa_AssetOut args) in
        if assetIn = [] \<or> assetOut = [] \<or> assetIn = assetOut then Inl errInvalidArgument
        else if assetIn \<noteq> ''hbd'' \<and> assetOut \<noteq> ''hbd'' then Inl errInvalidArgument
        else Inr (assetIn, assetOut))"

text \<open>Step 13: the values must fit, the nodes' share is accrued, and the result is returned.\<close>

definition finish_swap ::
  "GeometryOutputs \<Rightarrow> swap_amounts \<Rightarrow> int \<Rightarrow> int \<Rightarrow> int \<Rightarrow> 's accrue \<Rightarrow> 's \<Rightarrow>
     ((pendulum_error + PendulumSwapFeeResult) \<times> 's) option" where
  "finish_swap geo w newX newY nodeBucketHBD accrueNodeBucket st =
     (if newX < 0 \<or> newY < 0 then Some (Inl errInsufficientReserves, st)
      else if \<not> fits_int64 newX \<or> \<not> fits_int64 newY \<or> \<not> fits_int64 (sw_userOutput w) \<or> \<not> fits_int64 nodeBucketHBD \<or>
        \<not> fits_int64 (sw_networkCredit w) \<or> \<not> fits_int64 (sw_lpFee w) \<or> \<not> fits_int64 (sw_nodeShare w)
      then Some (Inl errInsufficientReserves, st)
      else do {
        (err, st) \<leftarrow> (if 0 < nodeBucketHBD then accrueNodeBucket (word_of_int nodeBucketHBD) st else Some (None, st));
        case err of Some msg \<Rightarrow> Some (Inl (errAccrualFailed msg), st)
        | None \<Rightarrow> Some (Inr \<lparr>UserOutput = word_of_int (sw_userOutput w), NewXReserve = word_of_int newX,
            NewYReserve = word_of_int newY, NetworkCreditOutput = word_of_int (sw_networkCredit w),
            NodeBucketCreditedHBD = word_of_int nodeBucketHBD, LpShareOutput = word_of_int (sw_lpFee w),
            NodeShareOutput = word_of_int (sw_nodeShare w), MultiplierBps = sw_multiplier w,
            SAfterBps = geo_SBps geo\<rparr>, st)
      })"

definition ApplySwapFees ::
  "Applier \<Rightarrow> string \<Rightarrow> uint64 \<Rightarrow> PendulumSwapFeeArgs \<Rightarrow> 's accrue \<Rightarrow> 's \<Rightarrow>
     ((pendulum_error + PendulumSwapFeeResult) \<times> 's) option" where
  "ApplySwapFees a contractID blockHeight args accrueNodeBucket st =
     (case (ap_geometry a, ap_whitelist a) of
        (Some geometry, Some whitelist) \<Rightarrow>
          if \<not> contractWhitelisted contractID (whitelist blockHeight) then Some (Inl errNotWhitelisted, st)
          else (case validate_swap args of Inl e \<Rightarrow> Some (Inl e, st) | Inr (assetIn, assetOut) \<Rightarrow>
            let (geo, ok) = geometry blockHeight in
            if \<not> ok \<or> \<not> geo_OK geo then Some (Inl errSnapshotUnavailable, st)
            else if sint (geo_E geo) \<le> 0 \<or> sint (geo_T geo) \<le> 0 then Some (Inl errSnapshotUnavailable, st)
            else do {
              fees \<leftarrow> swap_fees a blockHeight geo assetIn args;
              case fees of Inl e \<Rightarrow> Some (Inl e, st) | Inr w \<Rightarrow> do {
                reserves \<leftarrow> new_reserves assetOut (sint (pa_X args)) (sint (pa_XReserve args)) (sint (pa_YReserve args))
                  (sw_userOutput w) (sw_nodeShare w);
                case reserves of Inl e \<Rightarrow> Some (Inl e, st)
                | Inr (newX, newY, nodeBucketHBD) \<Rightarrow> finish_swap geo w newX newY nodeBucketHBD accrueNodeBucket st
              }
            })
      | _ \<Rightarrow> Some (Inl errNotConfigured, st))"

section \<open>The fee split\<close>

definition sane_config :: "Config \<Rightarrow> bool" where
  "sane_config cfg \<longleftrightarrow> 0 \<le> sint (cf_NetworkShareNum cfg) \<and> sint (cf_NetworkShareNum cfg) \<le> sint (cf_NetworkShareDen cfg) \<and>
     0 \<le> sint (cf_CLPScaleBps cfg)"

definition sane_geometry :: "GeometryOutputs \<Rightarrow> bool" where
  "sane_geometry geo \<longleftrightarrow> 0 \<le> sint (geo_V geo) \<and> 0 \<le> sint (geo_P geo)"

lemma network_share_sane: "sane_config cfg \<Longrightarrow> network_share cfg = (num, den) \<Longrightarrow> 0 \<le> num \<and> num \<le> den \<and> 0 < den"
  by (auto simp: sane_config_def network_share_def split: if_splits)

lemma max_node_bounds: "0 \<le> sint (max_node_bps a h)" "sint (max_node_bps a h) \<le> 10000"
proof -
  have "0 \<le> sint (MaxNodeShareBps f) \<and> sint (MaxNodeShareBps f) \<le> 10000" for f
  proof (cases "sint f \<le> 0 \<or> 10000 < sint f")
    case True
    then show ?thesis by (auto simp: MaxNodeShareBps_def)
  next
    case False
    then have "sint (BpsScale - f) = 10000 - sint f" by (subst sint_debit) simp_all
    with False show ?thesis by (simp add: MaxNodeShareBps_def)
  qed
  then show "0 \<le> sint (max_node_bps a h)" "sint (max_node_bps a h) \<le> 10000"
    by (auto simp: max_node_bps_def split: option.split)
qed

lemma fractions_bounded:
  assumes "0 < T" "0 < E" "0 \<le> V" "0 \<le> P" "0 \<le> sint m" "sint m \<le> 10000"
  obtains f fp where "splitFractionsBps T V E P s m = Some (f, fp)" "0 \<le> sint f" "sint f \<le> sint m" "0 \<le> sint fp" "sint fp \<le> sint m"
proof (cases "3 * E \<le> V \<or> V * V * T + P * E * (3 * E - V) = 0")
  case True
  then have "splitFractionsBps T V E P s m = Some (m, m)" using assms by (auto simp: splitFractionsBps_def CliffTimesE_nonneg)
  then show ?thesis using that assms by simp
next
  case False
  let ?t = "V * V * T" and ?d = "V * V * T + P * E * (3 * E - V)"
  have t: "0 \<le> ?t" "?t \<le> ?d" "0 < ?d" using assms False pe_term_nonneg [of E P V] by (auto simp: less_le)
  let ?f = "?t * 10000 div ?d"
  have f: "0 \<le> ?f" "?f \<le> 10000"
    using t quo_mult_le [of 10000 ?t ?d] by (simp_all add: pos_imp_zdiv_nonneg_iff mult.commute)
  then have fits: "fits_int64 ?f" by (simp add: fits_int64_def i64_min_def i64_max_def)
  let ?fn = "if sint m < sint (word_of_int ?f :: int64) then m else word_of_int ?f"
  have fn: "0 \<le> sint ?fn" "sint ?fn \<le> sint m" using f fits assms by (auto simp: sint_of_fits)
  have "splitFractionsBps T V E P s m = Some (?fn, if sint s < sint RedirectLoBps then 0
      else if sint RedirectHiBps < sint s then m else ?fn)"
    using assms False t fits by (simp add: splitFractionsBps_def CliffTimesE_nonneg MulDivFloor_nonneg Let_def)
  then show ?thesis using that fn assms by auto
qed

lemma multiplied_nonneg:
  assumes "0 \<le> fee" "0 \<le> sint m"
  shows "ApplyMultiplierBps (Some fee) m = Some (fee * sint m div 10000)" "0 \<le> fee * sint m div 10000"
  using assms by (auto simp: ApplyMultiplierBps_def MulDivFloor_nonneg pos_imp_zdiv_nonneg_iff)

lemma multiplied_returns: "\<exists>v. ApplyMultiplierBps (Some fee) m = Some v"
  by (simp add: ApplyMultiplierBps_def MulDivFloor_def)

lemma clp_leg_nonneg:
  assumes "sane_config cfg" "0 \<le> baseCLP"
  obtains v where "clp_leg cfg h gross baseCLP prot m = Some v" "0 \<le> v"
    "feeFixActive cfg h \<Longrightarrow> 0 < sint (cf_MaxFeeBps cfg) \<Longrightarrow> v + prot \<le> max (quo (gross * sint (cf_MaxFeeBps cfg)) 10000) prot"
proof (cases "feeFixActive cfg h")
  case True
  let ?c = "baseCLP * sint (cf_CLPScaleBps cfg) div 10000" and ?cap = "quo (gross * sint (cf_MaxFeeBps cfg)) 10000"
  have c: "ApplyMultiplierBps (Some baseCLP) (cf_CLPScaleBps cfg) = Some ?c" "0 \<le> ?c"
    using assms by (simp_all add: multiplied_nonneg sane_config_def)
  let ?v = "if 0 < sint (cf_MaxFeeBps cfg) \<and> ?cap < ?c + prot then max 0 (?cap - prot) else ?c"
  show ?thesis
  proof (rule that)
    show "clp_leg cfg h gross baseCLP prot m = Some ?v" using True c(1) by (simp add: clp_leg_def MulDivFloor_def)
    show "0 \<le> ?v" using c(2) by simp
    show "?v + prot \<le> max ?cap prot" if "0 < sint (cf_MaxFeeBps cfg)" using that by auto
  qed
next
  case False
  obtain v where v: "ApplyMultiplierBps (Some baseCLP) m = Some v" using multiplied_returns by blast
  show ?thesis using that [of "if v < baseCLP then baseCLP else v"] False v assms(2) by (auto simp: clp_leg_def)
qed

lemma cut_bounds:
  assumes "0 \<le> (t :: int)" "0 \<le> num" "num \<le> den" "0 < den"
  shows "MulDivFloor t num den = Some (t * num div den)" "0 \<le> t * num div den" "t * num div den \<le> t"
  using assms quo_mult_le [of t num den] by (simp_all add: MulDivFloor_nonneg pos_imp_zdiv_nonneg_iff)

lemma kept_bounds:
  assumes "0 \<le> p" "0 \<le> sint f" "sint f \<le> m" "m \<le> 10000"
  obtains k where "MulDivFloor p (sint (BpsScale - f)) (sint BpsScale) = Some k" "0 \<le> k" "k \<le> p" "p * (10000 - m) < 10000 * k + 10000"
proof -
  have f: "sint (BpsScale - f) = 10000 - sint f" using assms by (subst sint_debit) simp_all
  let ?k = "p * (10000 - sint f) div 10000"
  have "p * (10000 - m) \<le> p * (10000 - sint f)" using assms by (intro mult_left_mono) simp_all
  also have "\<dots> < 10000 * ?k + 10000" using pos_mod_bound [of 10000 "p * (10000 - sint f)"] by (simp add: minus_mod_eq_mult_div [symmetric])
  finally show ?thesis
    using that [of ?k] f cut_bounds [of p "10000 - sint f" 10000] assms by simp
qed

text \<open>
  What the fee computation returns: the gross output is divided without remainder between the user,
  the network, the liquidity providers and the nodes.
\<close>

definition legs_ok :: "Applier \<Rightarrow> uint64 \<Rightarrow> int \<Rightarrow> int \<Rightarrow> swap_amounts \<Rightarrow> bool" where
  "legs_ok a h gross prot w \<longleftrightarrow>
     sw_userOutput w + sw_networkCredit w + sw_lpFee w + sw_nodeShare w = gross \<and>
     0 \<le> sw_userOutput w \<and> 0 \<le> sw_networkCredit w \<and> 0 \<le> sw_lpFee w \<and> 0 \<le> sw_nodeShare w \<and>
     (sw_lpFee w + sw_nodeShare w) * (10000 - sint (max_node_bps a h)) < 10000 * (sw_lpFee w + 2) \<and>
     (feeFixActive (ap_cfg a) h \<longrightarrow> 0 < sint (cf_MaxFeeBps (ap_cfg a)) \<longrightarrow>
       gross - sw_userOutput w \<le> max (quo (gross * sint (cf_MaxFeeBps (ap_cfg a))) 10000) prot)"

lemma fee_legs_ok:
  assumes cfg: "sane_config (ap_cfg a)" and geo: "sane_geometry geo" "0 < sint (geo_E geo)" "0 < sint (geo_T geo)"
    and base: "0 \<le> baseCLP" "0 \<le> baseProtocol"
  obtains r prot where "fee_legs a h geo gross baseCLP baseProtocol m = Some r" "baseProtocol \<le> prot"
    "0 \<le> sint m \<Longrightarrow> prot = max baseProtocol (baseProtocol * sint m div 10000)"
    "\<And>w. r = Inr w \<Longrightarrow> legs_ok a h gross prot w"
proof -
  obtain c where c: "ApplyMultiplierBps (Some baseProtocol) m = Some c" using multiplied_returns by blast
  let ?prot = "if c < baseProtocol then baseProtocol else c"
  have pm: "?prot = max baseProtocol (baseProtocol * sint m div 10000)" if "0 \<le> sint m"
    using c multiplied_nonneg(1) [OF base(2) that] by auto
  obtain clp where clp: "clp_leg (ap_cfg a) h gross baseCLP ?prot m = Some clp" "0 \<le> clp"
    "feeFixActive (ap_cfg a) h \<Longrightarrow> 0 < sint (cf_MaxFeeBps (ap_cfg a)) \<Longrightarrow>
      clp + ?prot \<le> max (quo (gross * sint (cf_MaxFeeBps (ap_cfg a))) 10000) ?prot"
    using clp_leg_nonneg [OF cfg base(1)] by blast
  obtain num den where n: "network_share (ap_cfg a) = (num, den)" by force
  note nd = network_share_sane [OF cfg n]
  have prot: "0 \<le> ?prot" using base(2) by simp
  note cut1 = cut_bounds [OF clp(2), of num den] and cut2 = cut_bounds [OF prot, of num den]
  obtain f fp where f: "splitFractionsBps (sint (geo_T geo)) (sint (geo_V geo)) (sint (geo_E geo)) (sint (geo_P geo)) (geo_SBps geo)
      (max_node_bps a h) = Some (f, fp)" "0 \<le> sint f" "sint f \<le> sint (max_node_bps a h)" "0 \<le> sint fp" "sint fp \<le> sint (max_node_bps a h)"
    using fractions_bounded [OF geo(3,2) _ _ max_node_bounds] geo(1) unfolding sane_geometry_def by blast
  let ?nc = "clp * num div den" and ?np = "?prot * num div den"
  obtain k1 where k1: "MulDivFloor (clp - ?nc) (sint (BpsScale - f)) (sint BpsScale) = Some k1" "0 \<le> k1" "k1 \<le> clp - ?nc"
    "(clp - ?nc) * (10000 - sint (max_node_bps a h)) < 10000 * k1 + 10000"
    using kept_bounds [OF _ f(2,3) max_node_bounds(2), of "clp - ?nc"] cut1 nd by auto
  obtain k2 where k2: "MulDivFloor (?prot - ?np) (sint (BpsScale - fp)) (sint BpsScale) = Some k2" "0 \<le> k2" "k2 \<le> ?prot - ?np"
    "(?prot - ?np) * (10000 - sint (max_node_bps a h)) < 10000 * k2 + 10000"
    using kept_bounds [OF _ f(4,5) max_node_bounds(2), of "?prot - ?np"] cut2 nd by auto
  let ?w = "\<lparr>sw_grossOut = gross, sw_totalCLP = clp, sw_totalProtocol = ?prot, sw_userOutput = gross - (clp + ?prot),
    sw_networkCredit = ?nc + ?np, sw_lpFee = k1 + k2, sw_nodeShare = clp - ?nc - k1 + (?prot - ?np - k2), sw_multiplier = m\<rparr>"
  have e: "fee_legs a h geo gross baseCLP baseProtocol m =
      Some (if gross - (clp + ?prot) < 0 then Inl errInsufficientReserves else Inr ?w)"
    using c clp(1) n cut1(1) cut2(1) f(1) k1(1) k2(1) nd by (simp add: fee_legs_def Let_def)
  have "(k1 + k2 + (clp - ?nc - k1 + (?prot - ?np - k2))) * (10000 - sint (max_node_bps a h)) < 10000 * (k1 + k2 + 2)"
    using k1(4) k2(4) by (simp add: algebra_simps)
  then have "legs_ok a h gross ?prot ?w" if "\<not> gross - (clp + ?prot) < 0"
    using that clp(3) cut1(2,3) cut2(2,3) k1(2,3) k2(2,3) nd unfolding legs_ok_def by simp
  then show ?thesis by (intro that [OF e _ pm]) (simp_all split: if_splits)
qed

lemma trade_ratio_returns: "\<exists>r. tradeRatioBps x X = Some r"
  by (auto simp: tradeRatioBps_def MulDivFloorI64_def Let_def)

lemma trade_ratio_nonneg: "0 < sint x \<Longrightarrow> tradeRatioBps x X = Some (Inr r) \<Longrightarrow> 0 \<le> sint r"
  by (auto simp: tradeRatioBps_def split: if_splits option.splits dest: MulDivFloorI64_nonneg)

lemma default_multiplier:
  assumes "StabilizerMultiplierBps s r (DefaultStabilizerParamsBps\<lparr>sp_PushBps := push\<rparr>) = Some (Inr m)"
    and "0 \<le> sint s" "0 \<le> sint r" "0 \<le> sint push"
  shows "10000 \<le> sint m" "sint m \<le> 20000"
  using multiplier_bounds [OF assms(1,2,3)] assms(4)
  by (simp_all add: DefaultStabilizerParamsBps_def BpsScale_def)

definition push_of :: "Applier \<Rightarrow> GeometryOutputs \<Rightarrow> string \<Rightarrow> StabilizerParamsBps" where
  "push_of a geo assetIn = (cf_Stabilizer (ap_cfg a))\<lparr>sp_PushBps :=
     if exacerbatesFromSnapshot (geo_SBps geo) (assetIn = ''hbd'') then sp_PushBps (cf_Stabilizer (ap_cfg a)) else 7000\<rparr>"

lemma gross_bounds:
  assumes "0 < x" "0 < X" "0 < (Y :: int)"
  shows "0 \<le> x * Y div (X + x)" "x * Y div (X + x) \<le> Y" "(X + x) * (x * Y div (X + x)) \<le> x * Y"
  using assms quo_mult_le [of Y x "X + x"] pos_mod_sign [of "X + x" "x * Y"]
  by (simp_all add: pos_imp_zdiv_nonneg_iff mult.commute minus_mod_eq_mult_div [symmetric])

lemma swap_fees_unfold:
  assumes "0 < sint (pa_X args)" "0 < sint (pa_XReserve args)" "0 < sint (pa_YReserve args)"
  defines "x \<equiv> sint (pa_X args)" and "X \<equiv> sint (pa_XReserve args)" and "Y \<equiv> sint (pa_YReserve args)"
  shows "swap_fees a h geo assetIn args =
    (if x * Y div (X + x) \<le> 0 then Some (Inl errInsufficientReserves)
     else case the (tradeRatioBps (pa_X args) (pa_XReserve args)) of Inl e \<Rightarrow> Some (Inl e) | Inr r \<Rightarrow>
       (case the (StabilizerMultiplierBps (geo_SBps geo) r (push_of a geo assetIn)) of Inl e \<Rightarrow> Some (Inl e)
        | Inr m \<Rightarrow> fee_legs a h geo (x * Y div (X + x)) (x * x * Y div ((X + x) * (X + x)))
            (x * Y div (X + x) div 1250) m))"
proof -
  obtain tr where tr: "tradeRatioBps (pa_X args) (pa_XReserve args) = Some tr" using trade_ratio_returns by blast
  note g = gross_bounds [OF assms(1-3)]
  have push: "(if \<not> exacerbatesFromSnapshot (geo_SBps geo) (assetIn = ''hbd'')
      then (cf_Stabilizer (ap_cfg a))\<lparr>sp_PushBps := word_of_int (quo (sint (BpsScale * 70)) 100)\<rparr>
      else cf_Stabilizer (ap_cfg a)) = push_of a geo assetIn"
    by (simp add: push_of_def BpsScale_def)
  have mult: "StabilizerMultiplierBps (geo_SBps geo) r p \<bind> k = k (the (StabilizerMultiplierBps (geo_SBps geo) r p))" for r p k
    using multiplier_returns [of "geo_SBps geo" r p] by auto
  show ?thesis
    using assms(1-3) g(1,2) unfolding swap_fees_def Let_def push mult tr x_def X_def Y_def
    by (simp add: MulDivFloor_nonneg ProtocolFeeRateBps_def not_less)
qed

lemma swap_fees_ok:
  assumes "sane_config (ap_cfg a)" "sane_geometry geo" "0 < sint (geo_E geo)" "0 < sint (geo_T geo)"
    and args: "0 < sint (pa_X args)" "0 < sint (pa_XReserve args)" "0 < sint (pa_YReserve args)"
  defines "gross \<equiv> sint (pa_X args) * sint (pa_YReserve args) div (sint (pa_XReserve args) + sint (pa_X args))"
  obtains r where "swap_fees a h geo assetIn args = Some r"
    "\<And>w. r = Inr w \<Longrightarrow> \<exists>prot. legs_ok a h gross prot w \<and>
      (cf_Stabilizer (ap_cfg a) = DefaultStabilizerParamsBps \<longrightarrow> 0 \<le> sint (geo_SBps geo) \<longrightarrow> prot \<le> 2 * (gross div 1250))"
proof -
  let ?x = "sint (pa_X args)" and ?X = "sint (pa_XReserve args)" and ?Y = "sint (pa_YReserve args)"
  note u = swap_fees_unfold [OF args, of a h geo assetIn, folded gross_def]
  have g: "0 \<le> gross div 1250" using gross_bounds(1) [OF args] by (simp add: gross_def)
  have clp: "0 \<le> ?x * ?x * ?Y div ((?X + ?x) * (?X + ?x))" using args by (simp add: pos_imp_zdiv_nonneg_iff)
  obtain tr where tr: "tradeRatioBps (pa_X args) (pa_XReserve args) = Some tr" using trade_ratio_returns by blast
  show ?thesis
  proof (cases "gross \<le> 0 \<or> isl tr \<or> isl (the (StabilizerMultiplierBps (geo_SBps geo) (projr tr) (push_of a geo assetIn)))")
    case True
    then have "\<exists>e. swap_fees a h geo assetIn args = Some (Inl e)"
      unfolding u tr by (auto simp: isl_def split: sum.split)
    then show ?thesis using that by auto
  next
    case False
    then obtain r m where rm: "tr = Inr r" "the (StabilizerMultiplierBps (geo_SBps geo) r (push_of a geo assetIn)) = Inr m"
      by (cases tr; cases "the (StabilizerMultiplierBps (geo_SBps geo) (projr tr) (push_of a geo assetIn))") auto
    then have m: "StabilizerMultiplierBps (geo_SBps geo) r (push_of a geo assetIn) = Some (Inr m)"
      using multiplier_returns [of "geo_SBps geo" r "push_of a geo assetIn"] by auto
    obtain res prot where legs: "fee_legs a h geo gross (?x * ?x * ?Y div ((?X + ?x) * (?X + ?x))) (gross div 1250) m = Some res"
      "0 \<le> sint m \<Longrightarrow> prot = max (gross div 1250) (gross div 1250 * sint m div 10000)"
      "\<And>w. res = Inr w \<Longrightarrow> legs_ok a h gross prot w"
      using fee_legs_ok [OF assms(1-4) clp g, of h gross m] by blast
    have "prot \<le> 2 * (gross div 1250)" if d: "cf_Stabilizer (ap_cfg a) = DefaultStabilizerParamsBps" "0 \<le> sint (geo_SBps geo)"
    proof -
      have "0 \<le> sint r" using trade_ratio_nonneg [OF args(1)] tr rm(1) by simp
      then have b: "10000 \<le> sint m" "sint m \<le> 20000"
        using default_multiplier [of "geo_SBps geo" r "sp_PushBps (push_of a geo assetIn)" m] m d
        by (auto simp: push_of_def DefaultStabilizerParamsBps_def BpsScale_def split: if_splits)
      have "gross div 1250 * sint m div 10000 \<le> gross div 1250 * 20000 div 10000"
        using b g by (intro zdiv_mono1 mult_left_mono) simp_all
      then show ?thesis using legs(2) b g by simp
    qed
    moreover have "swap_fees a h geo assetIn args = Some res" using False legs(1) unfolding u tr by (simp add: rm)
    ultimately show ?thesis using that legs(3) by blast
  qed
qed

section \<open>The reserves\<close>

lemma product_kept:
  assumes "0 < x" "0 < X" "0 < (Y :: int)" "0 \<le> n" "0 \<le> u" "u + n \<le> x * Y div (X + x)"
  shows "X * Y \<le> (X + x) * (Y - u - n)"
    and "X * Y \<le> (X + x - n * (X + x) div (Y - u + n)) * (Y - u)"
proof -
  let ?g = "x * Y div (X + x)" and ?N = "X + x"
  note g = gross_bounds [OF assms(1-3)]
  have "X * Y = ?N * Y - x * Y" by (simp add: algebra_simps)
  also have "\<dots> \<le> ?N * Y - ?N * ?g" using g(3) by simp
  finally have A: "X * Y \<le> ?N * (Y - ?g)" by (simp add: algebra_simps)
  also have "\<dots> \<le> ?N * (Y - u - n)" using assms by (intro mult_left_mono) simp_all
  finally show "X * Y \<le> ?N * (Y - u - n)" .
  let ?y = "Y - u" and ?a = "Y - ?g"
  let ?k = "?N - n * ?N div (?y + n)"
  have N: "0 < ?N" using assms by simp
  have "0 < X * Y" using assms by simp
  with A have "0 < ?N * ?a" by linarith
  then have a: "0 < ?a" using N by (simp add: zero_less_mult_iff)
  have an: "?a \<le> ?y - n" using assms(6) by simp
  have yn: "0 < ?y + n" using a an assms(4) by linarith
  have "(?y + n) * (n * ?N div (?y + n)) \<le> n * ?N"
    using pos_mod_sign [OF yn, of "n * ?N"] by (simp add: minus_mod_eq_mult_div [symmetric])
  then have k: "?N * ?y \<le> ?k * (?y + n)" by (simp add: algebra_simps)
  have "?a * (?y + n) \<le> (?y - n) * (?y + n)" using an yn by (intro mult_right_mono) simp_all
  also have "\<dots> \<le> ?y * ?y" by (simp add: algebra_simps)
  finally have "?N * (?a * (?y + n)) \<le> ?N * (?y * ?y)" using N by simp
  also have "\<dots> \<le> ?k * (?y + n) * ?y" using k a an assms(4) by (simp add: mult_right_mono flip: mult.assoc)
  finally have "?N * ?a * (?y + n) \<le> ?k * ?y * (?y + n)" by (simp add: mult_ac)
  then have "?N * ?a \<le> ?k * ?y" using yn by simp
  with A show "X * Y \<le> ?k * ?y" by linarith
qed

definition swapped :: "Applier \<Rightarrow> uint64 \<Rightarrow> GeometryOutputs \<Rightarrow> PendulumSwapFeeArgs \<Rightarrow> swap_amounts \<Rightarrow> int \<Rightarrow> int \<Rightarrow> int \<Rightarrow> bool" where
  "swapped a h geo args w newX newY bucket \<longleftrightarrow>
     0 < sint (pa_X args) \<and> 0 < sint (pa_XReserve args) \<and> 0 < sint (pa_YReserve args) \<and>
     (\<exists>prot. legs_ok a h (sint (pa_X args) * sint (pa_YReserve args) div (sint (pa_XReserve args) + sint (pa_X args))) prot w \<and>
       (cf_Stabilizer (ap_cfg a) = DefaultStabilizerParamsBps \<longrightarrow> 0 \<le> sint (geo_SBps geo) \<longrightarrow>
         prot \<le> 2 * (sint (pa_X args) * sint (pa_YReserve args) div (sint (pa_XReserve args) + sint (pa_X args)) div 1250))) \<and>
     new_reserves (normalizeAsset (pa_AssetOut args)) (sint (pa_X args)) (sint (pa_XReserve args)) (sint (pa_YReserve args))
       (sw_userOutput w) (sw_nodeShare w) = Some (Inr (newX, newY, bucket)) \<and>
     0 \<le> newX \<and> 0 \<le> newY"

definition swap_result :: "GeometryOutputs \<Rightarrow> swap_amounts \<Rightarrow> int \<Rightarrow> int \<Rightarrow> int \<Rightarrow> PendulumSwapFeeResult \<Rightarrow> bool" where
  "swap_result geo w newX newY bucket r \<longleftrightarrow>
     sint (UserOutput r) = sw_userOutput w \<and> sint (NewXReserve r) = newX \<and> sint (NewYReserve r) = newY \<and>
     sint (NetworkCreditOutput r) = sw_networkCredit w \<and> sint (NodeBucketCreditedHBD r) = bucket \<and>
     sint (LpShareOutput r) = sw_lpFee w \<and> sint (NodeShareOutput r) = sw_nodeShare w"

definition accrues :: "'s accrue \<Rightarrow> 's \<Rightarrow> bool" where
  "accrues accrue st \<longleftrightarrow> (\<forall>n. accrue n st \<noteq> None)"

lemma finish_cases:
  assumes "accrues accrue st"
  obtains e st' where "finish_swap geo w newX newY bucket accrue st = Some (Inl e, st')"
  | r st' where "finish_swap geo w newX newY bucket accrue st = Some (Inr r, st')" "0 \<le> newX" "0 \<le> newY"
      "swap_result geo w newX newY bucket r"
      "if 0 < bucket then accrue (NodeBucketCreditedHBD r) st = Some (None, st') else st' = st"
proof -
  obtain err st' where acc: "(if 0 < bucket then accrue (word_of_int bucket) st else Some (None, st)) = Some (err, st')"
    using assms [unfolded accrues_def, rule_format, of "word_of_int bucket"] by (cases "0 < bucket") auto
  show thesis
  proof (cases "err = None \<and> 0 \<le> newX \<and> 0 \<le> newY \<and> fits_int64 newX \<and> fits_int64 newY \<and> fits_int64 (sw_userOutput w) \<and>
      fits_int64 bucket \<and> fits_int64 (sw_networkCredit w) \<and> fits_int64 (sw_lpFee w) \<and> fits_int64 (sw_nodeShare w)")
    case True
    then show thesis
      using that(2) [of _ st'] acc by (simp add: finish_swap_def swap_result_def sint_of_fits split: if_splits)
  next
    case False
    then have "\<exists>e st''. finish_swap geo w newX newY bucket accrue st = Some (Inl e, st'')"
      unfolding finish_swap_def acc by (auto split: option.split)
    then show thesis using that(1) by blast
  qed
qed

lemma reserves_return: "0 \<le> n \<Longrightarrow> \<exists>r. new_reserves assetOut x X Y u n = Some r"
  by (auto simp: new_reserves_def MulDivFloor_def Let_def)

lemma apply_cases:
  assumes "sane_config (ap_cfg a)" "ap_geometry a = Some geometry" "sane_geometry (fst (geometry h))" "accrues accrue st"
  obtains e st' where "ApplySwapFees a cid h args accrue st = Some (Inl e, st')"
  | r st' w newX newY bucket where "ApplySwapFees a cid h args accrue st = Some (Inr r, st')"
      "swapped a h (fst (geometry h)) args w newX newY bucket" "swap_result (fst (geometry h)) w newX newY bucket r"
      "if 0 < bucket then accrue (NodeBucketCreditedHBD r) st = Some (None, st') else st' = st"
proof -
  let ?out = "ApplySwapFees a cid h args accrue st" and ?geo = "fst (geometry h)"
  show thesis
  proof (cases "\<exists>e st'. ?out = Some (Inl e, st')")
    case True
    then show thesis using that(1) by blast
  next
    case False
    then obtain whitelist assetIn assetOut where pre: "ap_whitelist a = Some whitelist" "contractWhitelisted cid (whitelist h)"
      "validate_swap args = Inr (assetIn, assetOut)" "snd (geometry h)" "geo_OK ?geo" "0 < sint (geo_E ?geo)" "0 < sint (geo_T ?geo)"
      using assms(2) by (auto simp: ApplySwapFees_def case_prod_beta not_le split: option.splits sum.splits if_splits)
    then have v: "0 < sint (pa_X args)" "0 < sint (pa_XReserve args)" "0 < sint (pa_YReserve args)"
      "assetOut = normalizeAsset (pa_AssetOut args)"
      by (auto simp: validate_swap_def Let_def split: if_splits)
    obtain f where f: "swap_fees a h ?geo assetIn args = Some f" "\<And>w. f = Inr w \<Longrightarrow>
      \<exists>prot. legs_ok a h (sint (pa_X args) * sint (pa_YReserve args) div (sint (pa_XReserve args) + sint (pa_X args))) prot w \<and>
       (cf_Stabilizer (ap_cfg a) = DefaultStabilizerParamsBps \<longrightarrow> 0 \<le> sint (geo_SBps ?geo) \<longrightarrow>
         prot \<le> 2 * (sint (pa_X args) * sint (pa_YReserve args) div (sint (pa_XReserve args) + sint (pa_X args)) div 1250))"
      using swap_fees_ok [OF assms(1,3) pre(6,7) v(1-3)] by metis
    have out: "?out = (case f of Inl e \<Rightarrow> Some (Inl e, st) | Inr w \<Rightarrow> do {
        reserves \<leftarrow> new_reserves assetOut (sint (pa_X args)) (sint (pa_XReserve args)) (sint (pa_YReserve args))
          (sw_userOutput w) (sw_nodeShare w);
        case reserves of Inl e \<Rightarrow> Some (Inl e, st)
        | Inr (newX, newY, nodeBucketHBD) \<Rightarrow> finish_swap ?geo w newX newY nodeBucketHBD accrue st })"
      using assms(2) pre f(1) by (simp add: ApplySwapFees_def case_prod_beta)
    from False out obtain w where w: "f = Inr w" by (cases f) auto
    then have n: "0 \<le> sw_nodeShare w" using f(2) by (auto simp: legs_ok_def)
    obtain rs where rs: "new_reserves assetOut (sint (pa_X args)) (sint (pa_XReserve args)) (sint (pa_YReserve args))
        (sw_userOutput w) (sw_nodeShare w) = Some rs" using reserves_return [OF n] by blast
    from False out w rs obtain newX newY bucket where rs': "rs = Inr (newX, newY, bucket)"
      by (cases rs) auto
    from out w rs rs' have fin: "?out = finish_swap ?geo w newX newY bucket accrue st" by simp
    from False fin show thesis
      using that(2) f(2) [OF w] rs rs' v by (cases rule: finish_cases [OF assms(4), of ?geo w newX newY bucket]) (auto simp: swapped_def)
  qed
qed

lemma hundredth: "u \<le> g div 100 \<Longrightarrow> 100 * u \<le> (g :: int)"
  by linarith

lemma swapped_reserves:
  assumes "swapped a h geo args w newX newY bucket"
  shows "sint (pa_XReserve args) * sint (pa_YReserve args) \<le> newX * newY"
    and "if normalizeAsset (pa_AssetOut args) = ''hbd''
      then newX = sint (pa_XReserve args) + sint (pa_X args) \<and> newY + sw_userOutput w + bucket = sint (pa_YReserve args) \<and> bucket = sw_nodeShare w
      else newX + bucket = sint (pa_XReserve args) + sint (pa_X args) \<and> newY + sw_userOutput w = sint (pa_YReserve args)"
    and "0 \<le> bucket"
proof -
  let ?x = "sint (pa_X args)" and ?X = "sint (pa_XReserve args)" and ?Y = "sint (pa_YReserve args)"
  let ?u = "sw_userOutput w" and ?n = "sw_nodeShare w"
  have pos: "0 < ?x" "0 < ?X" "0 < ?Y" and r: "new_reserves (normalizeAsset (pa_AssetOut args)) ?x ?X ?Y ?u ?n = Some (Inr (newX, newY, bucket))"
    and l: "0 \<le> ?n" "0 \<le> ?u" "?u + ?n \<le> ?x * ?Y div (?X + ?x)"
    using assms by (auto simp: swapped_def legs_ok_def)
  note k = product_kept [OF pos l]
  have b: "0 \<le> ?n * (?X + ?x) div (?Y - ?u + ?n)" if "0 < ?Y - ?u + ?n"
    using that l pos by (simp add: pos_imp_zdiv_nonneg_iff)
  show "?X * ?Y \<le> newX * newY"
    using r k l pos by (auto simp: new_reserves_def MulDivFloor_nonneg Let_def split: if_splits)
  show "if normalizeAsset (pa_AssetOut args) = ''hbd''
      then newX = ?X + ?x \<and> newY + ?u + bucket = ?Y \<and> bucket = ?n
      else newX + bucket = ?X + ?x \<and> newY + ?u = ?Y"
    using r by (auto simp: new_reserves_def Let_def split: if_splits bind_splits)
  show "0 \<le> bucket"
    using r l pos b by (auto simp: new_reserves_def MulDivFloor_nonneg Let_def split: if_splits)
qed

text \<open>
  C9. A swap conserves value. With a sane configuration and geometry the applier returns, and when it
  accepts, the gross output of the constant product is divided without remainder between the user,
  the network, the liquidity providers and the nodes, none of them negative; the reserves account for
  every unit that entered, was paid to the user or left for the nodes, and what left for the nodes is
  what was accrued.
\<close>

theorem swap_conserves_value:
  assumes "sane_config (ap_cfg a)" "ap_geometry a = Some geometry" "sane_geometry (fst (geometry h))" "accrues accrue st"
  shows "\<exists>out st'. ApplySwapFees a cid h args accrue st = Some (out, st') \<and> (\<forall>r. out = Inr r \<longrightarrow>
    sint (UserOutput r) + sint (NetworkCreditOutput r) + sint (LpShareOutput r) + sint (NodeShareOutput r) =
      sint (pa_X args) * sint (pa_YReserve args) div (sint (pa_XReserve args) + sint (pa_X args)) \<and>
    0 \<le> sint (UserOutput r) \<and> 0 \<le> sint (NetworkCreditOutput r) \<and> 0 \<le> sint (LpShareOutput r) \<and> 0 \<le> sint (NodeShareOutput r) \<and>
    (if normalizeAsset (pa_AssetOut args) = ''hbd''
     then sint (NewXReserve r) = sint (pa_XReserve args) + sint (pa_X args) \<and>
       sint (NewYReserve r) + sint (UserOutput r) + sint (NodeBucketCreditedHBD r) = sint (pa_YReserve args)
     else sint (NewXReserve r) + sint (NodeBucketCreditedHBD r) = sint (pa_XReserve args) + sint (pa_X args) \<and>
       sint (NewYReserve r) + sint (UserOutput r) = sint (pa_YReserve args)) \<and>
    (if 0 < sint (NodeBucketCreditedHBD r) then accrue (NodeBucketCreditedHBD r) st = Some (None, st') else st' = st))"
proof (cases rule: apply_cases [OF assms, of cid args])
  case (1 e st')
  then show ?thesis by simp
next
  case (2 r st' w newX newY bucket)
  obtain prot where l: "legs_ok a h (sint (pa_X args) * sint (pa_YReserve args) div (sint (pa_XReserve args) + sint (pa_X args))) prot w"
    using 2(2) by (auto simp: swapped_def)
  show ?thesis
    using 2(1,3,4) l swapped_reserves(2) [OF 2(2)] by (auto simp: swap_result_def legs_ok_def)
qed

text \<open>
  C11. A swap never drains the pool: the product of the reserves after an accepted swap is at least
  the product before it, also when the nodes' share is first converted to HBD by a second hop
  through the pool.
\<close>

theorem swap_never_drains_pool:
  assumes "sane_config (ap_cfg a)" "ap_geometry a = Some geometry" "sane_geometry (fst (geometry h))" "accrues accrue st"
    and "ApplySwapFees a cid h args accrue st = Some (Inr r, st')"
  shows "sint (pa_XReserve args) * sint (pa_YReserve args) \<le> sint (NewXReserve r) * sint (NewYReserve r)"
  using assms(5) swapped_reserves(1)
  by (cases rule: apply_cases [OF assms(1-4), of cid args]) (auto simp: swap_result_def)

text \<open>
  With the default configuration a swap pays at most one percent of its gross output in fees,
  and once the floor of the liquidity providers is in force they keep at least the configured quarter
  of what the network leaves, up to one unit for each of the two pots.
\<close>

theorem default_swap_fees_bounded:
  assumes "ap_cfg a = DefaultConfig" "ap_geometry a = Some geometry" "sane_geometry (fst (geometry h))" "accrues accrue st"
    and "0 \<le> sint (geo_SBps (fst (geometry h)))"
    and "ap_consensusAt a = Some consensusAt" "MeetsConsensusMin (consensusAt h) LPFloorActivation"
    and "ApplySwapFees a cid h args accrue st = Some (Inr r, st')"
  shows "100 * (sint (NetworkCreditOutput r) + sint (LpShareOutput r) + sint (NodeShareOutput r)) \<le>
      sint (pa_X args) * sint (pa_YReserve args) div (sint (pa_XReserve args) + sint (pa_X args)) \<and>
    sint (LpShareOutput r) + sint (NodeShareOutput r) < 4 * (sint (LpShareOutput r) + 2)"
proof -
  have cfg: "sane_config (ap_cfg a)" by (simp add: assms(1) DefaultConfig_def sane_config_def)
  have max: "sint (max_node_bps a h) = 7500"
    using assms(1,6,7) by (simp add: max_node_bps_def DefaultConfig_def DefaultLPFloorBps_def MaxNodeShareBps_def BpsScale_def)
  have act: "feeFixActive (ap_cfg a) h" "cf_Stabilizer (ap_cfg a) = DefaultStabilizerParamsBps" "cf_MaxFeeBps (ap_cfg a) = 100"
    by (simp_all add: assms(1) DefaultConfig_def feeFixActive_def)
  from assms(8) show ?thesis
  proof (cases rule: apply_cases [OF cfg assms(2-4), of cid args])
    case (1 e st'')
    with assms(8) show ?thesis by simp
  next
    case (2 r' st'' w newX newY bucket)
    let ?g = "sint (pa_X args) * sint (pa_YReserve args) div (sint (pa_XReserve args) + sint (pa_X args))"
    have r: "r' = r" using 2(1) assms(8) by simp
    obtain prot where l: "legs_ok a h ?g prot w" "prot \<le> 2 * (?g div 1250)"
      using 2(2) act(2) assms(5) by (auto simp: swapped_def)
    have g: "0 \<le> ?g" using 2(2) by (intro gross_bounds(1)) (simp_all add: swapped_def)
    have "2 * (?g div 1250) \<le> ?g div 100" using g by linarith
    then have "?g - sw_userOutput w \<le> ?g div 100"
      using l act g by (auto simp: legs_ok_def)
    then have "100 * (?g - sw_userOutput w) \<le> ?g" by (rule hundredth)
    then show ?thesis using l(1) 2(3) max unfolding r by (simp add: swap_result_def legs_ok_def)
  qed
qed

section \<open>Accrual in the session of the contract\<close>



definition accrue_event :: "string \<Rightarrow> string \<Rightarrow> uint64 \<Rightarrow> int64 \<Rightarrow> OpLogEvent" where
  "accrue_event contractId txId blockHeight amountHBD = OpLogEvent_zero\<lparr>ev_From := ''contract:'' @ contractId,
     ev_To := PendulumNodesHBDBucket, ev_Amount := amountHBD, ev_Asset := ''hbd'', ev_Type := ''transfer'',
     ev_Id := txId, ev_BlockHeight := blockHeight\<rparr>"

definition accrue_transfer :: "LedgerState \<Rightarrow> string \<Rightarrow> string \<Rightarrow> uint64 \<Rightarrow> (ledgerSession \<times> dbs) accrue" where
  "accrue_transfer state contractId txId blockHeight amountHBD st =
     (if sint amountHBD \<le> 0 then Some (None, st)
      else do {
        (res, session, s) \<leftarrow> ExecuteTransfer state (accrue_event contractId txId blockHeight amountHBD) [] (fst st) (snd st);
        Some (if Ok res then None else Some (Msg res), (session, s))
      })"

definition PendulumApplySwapFees ::
  "Applier option \<Rightarrow> LedgerState \<Rightarrow> string \<Rightarrow> string \<Rightarrow> uint64 \<Rightarrow> PendulumSwapFeeArgs \<Rightarrow> ledgerSession \<times> dbs \<Rightarrow>
     ((pendulum_error + PendulumSwapFeeResult) \<times> ledgerSession \<times> dbs) option" where
  "PendulumApplySwapFees pendulumApplier state contractId txId blockHeight args st =
     (case pendulumApplier of
        None \<Rightarrow> Some (Inl errNotConfigured, st)
      | Some a \<Rightarrow> ApplySwapFees a contractId blockHeight args (accrue_transfer state contractId txId blockHeight) st)"

definition example_geometry :: GeometryOutputs where
  "example_geometry = \<lparr>geo_OK = True, geo_V = 1000000, geo_P = 500000, geo_E = 900000, geo_T = 1500000, geo_SBps = 11111\<rparr>"

definition example_applier :: Applier where
  "example_applier = \<lparr>ap_geometry = Some (\<lambda>_. (example_geometry, True)), ap_whitelist = Some (\<lambda>_. [''pool'']),
     ap_consensusAt = Some (\<lambda>_. Version 0 12 0), ap_cfg = DefaultConfig\<rparr>"

definition example_swap :: PendulumSwapFeeArgs where
  "example_swap = \<lparr>pa_AssetIn = ''HIVE'', pa_AssetOut = ''hbd'', pa_X = 100000, pa_XReserve = 1000000, pa_YReserve = 2000000\<rparr>"

definition count_accrual :: "int accrue" where
  "count_accrual n acc = Some (None, acc + sint n)"

lemma normalize_example: "normalizeAsset ''HIVE'' = ''hive''" "normalizeAsset ''hbd'' = ''hbd''"
  by code_simp+

definition example_result :: PendulumSwapFeeResult where
  "example_result = \<lparr>UserOutput = 180516, NewXReserve = 1100000, NewYReserve = 1818836, NetworkCreditOutput = 325,
     NodeBucketCreditedHBD = 648, LpShareOutput = 329, NodeShareOutput = 648, MultiplierBps = 18554, SAfterBps = 11111\<rparr>"

lemma example_accepted:
  assumes "accrue 648 st = Some (None, st')"
  shows "ApplySwapFees example_applier ''pool'' 7 example_swap accrue st = Some (Inr example_result, st')"
  using assms
  by (simp add: ApplySwapFees_def example_result_def example_applier_def example_swap_def example_geometry_def contractWhitelisted_def
      validate_swap_def normalize_example swap_fees_def fee_legs_def tradeRatioBps_def MulDivFloor_def MulDivFloorI64_def
      StabilizerMultiplierBps_def or_overflow_def exacerbatesFromSnapshot_def DefaultConfig_def DefaultStabilizerParamsBps_def
      DefaultLPFloorBps_def MaxNodeShareBps_def max_node_bps_def LPFloorActivation_def MeetsConsensusMin_def clp_leg_def
      feeFixActive_def ApplyMultiplierBps_def network_share_def splitFractionsBps_def CliffTimesE_def new_reserves_def
      finish_swap_def fits_int64_def i64_max_def i64_min_def ProtocolFeeRateBps_def BpsScale_def TargetSBps_def Let_def)

lemma example_runs: "ApplySwapFees example_applier ''pool'' 7 example_swap count_accrual 0 = Some (Inr example_result, 648)"
  by (rule example_accepted) (simp add: count_accrual_def)

lemma example_values:
  "sint (pa_X example_swap) = 100000" "sint (pa_XReserve example_swap) = 1000000" "sint (pa_YReserve example_swap) = 2000000"
  "ap_cfg example_applier = DefaultConfig" "ap_consensusAt example_applier = Some (\<lambda>_. Version 0 12 0)"
  by (simp_all add: example_swap_def example_applier_def)

lemma example_sane:
  "sane_config (ap_cfg example_applier)" "ap_geometry example_applier = Some (\<lambda>_. (example_geometry, True))"
  "sane_geometry (fst (example_geometry, True))" "accrues count_accrual 0"
  by (simp_all add: example_applier_def example_geometry_def sane_config_def sane_geometry_def DefaultConfig_def accrues_def count_accrual_def)

theorem swap_conserves_value_witness:
  "\<exists>r. ApplySwapFees example_applier ''pool'' 7 example_swap count_accrual 0 = Some (Inr r, 648) \<and>
    sint (UserOutput r) + sint (NetworkCreditOutput r) + sint (LpShareOutput r) + sint (NodeShareOutput r) = 181818"
  using swap_conserves_value [OF example_sane, of "''pool''" 7 example_swap]
  by (auto simp: example_runs example_values)

theorem swap_never_drains_pool_witness:
  "\<exists>r. ApplySwapFees example_applier ''pool'' 7 example_swap count_accrual 0 = Some (Inr r, 648) \<and>
    2000000000000 \<le> sint (NewXReserve r) * sint (NewYReserve r)"
  using swap_never_drains_pool [OF example_sane example_runs] by (auto simp: example_runs example_values)

theorem default_swap_fees_bounded_witness:
  "\<exists>r. ApplySwapFees example_applier ''pool'' 7 example_swap count_accrual 0 = Some (Inr r, 648) \<and>
    100 * (sint (NetworkCreditOutput r) + sint (LpShareOutput r) + sint (NodeShareOutput r)) \<le> 181818"
  using default_swap_fees_bounded [OF example_values(4) example_sane(2-4) _ example_values(5) _ example_runs]
  by (auto simp: example_runs example_values example_geometry_def LPFloorActivation_def MeetsConsensusMin_def)

section \<open>The accrual is backed\<close>

definition pay_nodes :: "string \<Rightarrow> int64 \<Rightarrow> view \<Rightarrow> view" where
  "pay_nodes account amt bal owner asset =
     (if asset \<noteq> ''hbd'' then bal owner asset
      else bal owner asset - (if owner = account then amt else 0) + (if owner = PendulumNodesHBDBucket then amt else 0))"

context wired
begin

lemma accrual_transfers:
  assumes "coherent st B (contents s) h sess" "0 < sint amt"
  obtains msg sess' fs where "accrue_transfer st cid txId h amt (sess, s) = Some (Some msg, sess', s\<lparr>faults := fs\<rparr>)"
      "sint (session_view st B (contents s) h sess (''contract:'' @ cid) ''hbd'') < sint amt"
  | sess' fs where "accrue_transfer st cid txId h amt (sess, s) = Some (None, sess', s\<lparr>faults := fs\<rparr>)"
      "coherent st B (contents s) h sess'"
      "session_view st B (contents s) h sess' = pay_nodes (''contract:'' @ cid) amt (session_view st B (contents s) h sess)"
      "sint amt \<le> sint (session_view st B (contents s) h sess (''contract:'' @ cid) ''hbd'')"
proof -
  let ?e = "accrue_event cid txId h amt" and ?v = "session_view st B (contents s) h sess"
  have "refines st B h sess s (ExecuteTransfer st ?e [] sess s) (transfer_outcome ?e [] ?v)"
    by (rule transfer_refines [OF assms(1)]) (simp add: accrue_event_def)
  then obtain sess' fs where r: "ExecuteTransfer st ?e [] sess s = Some (result_of (transfer_outcome ?e [] ?v), sess', s\<lparr>faults := fs\<rparr>)"
    "coherent st B (contents s) h sess'" "session_view st B (contents s) h sess' = moved (transfer_outcome ?e [] ?v) ?v"
    unfolding refines_def by blast
  show thesis
  proof (cases "transfer_outcome ?e [] ?v")
    case (Inl m)
    then have "sint (?v (''contract:'' @ cid) ''hbd'') < sint amt"
      using assms(2) by (auto simp: transfer_outcome_def accrue_event_def exclusion_of_def PendulumNodesHBDBucket_def HasPrefix_def
          transferableAssetTypes_def split: if_splits)
    then show thesis using that(1) r(1) assms(2) Inl by (simp add: accrue_transfer_def result_of_def)
  next
    case (Inr ev)
    then have ev: "ev = ?e\<lparr>ev_Type := ''transfer''\<rparr>" "sint amt \<le> sint (?v (''contract:'' @ cid) ''hbd'')"
      by (auto simp: transfer_outcome_def accrue_event_def exclusion_of_def split: if_splits)
    have "moved (Inr ev) ?v = pay_nodes (''contract:'' @ cid) amt ?v"
      unfolding ev(1) by (auto simp: fun_eq_iff move_simps accrue_event_def pay_nodes_def PendulumNodesHBDBucket_def)
    then show thesis
      using that(2) r Inr ev(2) assms(2) by (simp add: accrue_transfer_def result_of_def)
  qed
qed

lemma accrual_returns: "coherent st B (contents s) h sess \<Longrightarrow> accrue_transfer st cid txId h n (sess, s) \<noteq> None"
  by (cases "0 < sint n") (auto simp: accrue_transfer_def elim: accrual_transfers [of s h sess n cid txId])

end

text \<open>
  C22. What the nodes are credited for a swap is backed: an accepted swap moves exactly the credited
  amount of HBD from the contract of the pool to the bucket of the nodes in the session of the
  contract, the contract's balance covers it, and no other balance changes.
\<close>

theorem swap_accrual_backed:
  assumes "ledger_collection L" "ls_LedgerDb st = Some L" "ls_ActionDb st = Some A" "ls_BalanceDb st = Some B"
    and "coherent st B (contents s) h sess"
    and "sane_config (ap_cfg a)" "ap_geometry a = Some geometry" "sane_geometry (fst (geometry h))"
    and "PendulumApplySwapFees (Some a) st cid txId h args (sess, s) = Some (Inr r, sess', s')"
  shows "contents s' = contents s \<and> coherent st B (contents s) h sess' \<and>
    session_view st B (contents s) h sess' =
      pay_nodes (''contract:'' @ cid) (NodeBucketCreditedHBD r) (session_view st B (contents s) h sess) \<and>
    (0 < sint (NodeBucketCreditedHBD r) \<longrightarrow>
      sint (NodeBucketCreditedHBD r) \<le> sint (session_view st B (contents s) h sess (''contract:'' @ cid) ''hbd''))"
proof -
  have w: "wired L st A B"
    by (rule wired.intro [OF assms(1)]) (simp add: wired_axioms_def assms(2-4))
  have ret: "accrues (accrue_transfer st cid txId h) (sess, s)"
    unfolding accrues_def using wired.accrual_returns [OF w assms(5)] by blast
  have out: "ApplySwapFees a cid h args (accrue_transfer st cid txId h) (sess, s) = Some (Inr r, (sess', s'))"
    using assms(9) by (simp add: PendulumApplySwapFees_def)
  show ?thesis
  proof (cases rule: apply_cases [OF assms(6-8) ret, of cid args])
    case (1 e st')
    with out show ?thesis by simp
  next
    case (2 r' st' x newX newY bucket)
    have r: "r' = r" "st' = (sess', s')" using 2(1) out by simp_all
    have b: "sint (NodeBucketCreditedHBD r) = bucket" "0 \<le> bucket"
      using 2(3) swapped_reserves(3) [OF 2(2)] by (simp_all add: r swap_result_def)
    show ?thesis
    proof (cases "0 < bucket")
      case True
      with 2(4) have acc: "accrue_transfer st cid txId h (NodeBucketCreditedHBD r) (sess, s) = Some (None, sess', s')" by (simp add: r)
      show ?thesis
        using acc by (cases rule: wired.accrual_transfers [OF w assms(5), of "NodeBucketCreditedHBD r" cid txId]) (use True b in auto)
    next
      case False
      with b have "NodeBucketCreditedHBD r = 0" using sint_inj [of "NodeBucketCreditedHBD r" 0] by simp
      then show ?thesis using False 2(4) assms(5) by (auto simp: r pay_nodes_def fun_eq_iff)
    qed
  qed
qed

definition pool_dbs :: ledger_dbs where
  "pool_dbs = \<lparr>ledger_c = [LedgerRecord_zero\<lparr>lr_Id := ''d'', lr_Amount := 100000, lr_BlockHeight := 5, lr_Owner := ''contract:pool'',
     lr_Type := ''deposit'', lr_Asset := ''hbd''\<rparr>], balances_c = [], actions_c = [], claims_c = []\<rparr>"

lemma pool_view: "state_view example_state list_collection pool_dbs 7 ''contract:pool'' ''hbd'' = 100000"
  by (simp add: state_view_def example_state_def NewEmptyState_def asset_rows_def balance_of_def
      newest_snapshot_def list_collection_def sort_by_def pool_dbs_def zero_records
      assetTypes_def transferableAssetTypes_def AssetDelegation_def
      AssetDelegationTotal_def Let_def snapshot_base_def record_or_zero_def record_height_def net_rows_def
      counted_def IsProtocolMetaLedgerType_def ledger_types)

theorem swap_accrual_backed_witness:
  "\<exists>sess' s'. PendulumApplySwapFees (Some example_applier) example_state ''pool'' ''t'' 7 example_swap
      (NewEmptySession 7, \<lparr>contents = pool_dbs, faults = [RequestLost]\<rparr>) = Some (Inr example_result, sess', s') \<and>
    session_view example_state list_collection pool_dbs 7 sess' ''contract:pool'' ''hbd'' = 99352"
proof -
  let ?s = "\<lparr>contents = pool_dbs, faults = [RequestLost]\<rparr>"
  have coh: "coherent example_state list_collection (contents ?s) 7 (NewEmptySession 7)" by (rule fresh_coherent)
  have v: "session_view example_state list_collection (contents ?s) 7 (NewEmptySession 7) ''contract:pool'' ''hbd'' = 100000"
    using pool_view by (simp add: fresh_view)
  obtain sess' fs where acc: "accrue_transfer example_state ''pool'' ''t'' 7 648 (NewEmptySession 7, ?s) = Some (None, sess', ?s\<lparr>faults := fs\<rparr>)"
    by (cases rule: empty_state.accrual_transfers [folded example_state_def, OF coh, of 648 "''pool''" "''t''"]) (use v in simp_all)
  have run: "PendulumApplySwapFees (Some example_applier) example_state ''pool'' ''t'' 7 example_swap (NewEmptySession 7, ?s) =
      Some (Inr example_result, sess', ?s\<lparr>faults := fs\<rparr>)"
    using example_accepted [of "accrue_transfer example_state ''pool'' ''t'' 7", OF acc] by (simp add: PendulumApplySwapFees_def)
  have "session_view example_state list_collection pool_dbs 7 sess' ''contract:pool'' ''hbd'' = 99352"
    using swap_accrual_backed [OF list_ledger.ledger_collection_axioms example_handles(1-3) coh example_sane(1-3) run] v
    by (simp add: pay_nodes_def PendulumNodesHBDBucket_def example_result_def)
  with run show ?thesis by blast
qed

end
