(* ===== verification/Rewards.thy ===== *)
theory Rewards
  imports Actions
begin

text \<open>
  Liveness scoring of the committee (modules/incentive-pendulum/rewards): the signals of one tick, their
  consolidation per witness, and the reductions of an epoch. A map from witnesses to basis points that
  is only read by key is a function that is zero off its keys; the map of the totals, whose entries are
  visited, is a list of its entries. The evidence of a tick comes from a provider, an argument.
\<close>

section \<open>Weights\<close>

definition BlockProductionMissBps :: int64 where "BlockProductionMissBps = 200"
definition BlockAttestationMissBps :: int64 where "BlockAttestationMissBps = 25"
definition TssReshareExclusionBps :: int64 where "TssReshareExclusionBps = 1000"
definition TssKeygenExclusionBps :: int64 where "TssKeygenExclusionBps = 1000"
definition TssBlameBps :: int64 where "TssBlameBps = 150"
definition TssSignNonParticipationBps :: int64 where "TssSignNonParticipationBps = 30"
definition OracleQuoteDivergenceBps :: int64 where "OracleQuoteDivergenceBps = 150"
definition PerTickCapBps :: int64 where "PerTickCapBps = 1000"
definition PerEpochCapBps :: int64 where "PerEpochCapBps = 10000"
definition PerEpochForgivenessBps :: int64 where "PerEpochForgivenessBps = 250"

section \<open>Signals of a tick\<close>

type_synonym scores = "string \<Rightarrow> int64"

definition no_scores :: scores where
  "no_scores = (\<lambda>_. 0)"

record SlotProposer =
  sp_SlotHeight :: uint64
  sp_Account :: string

text \<open>The two bit sets of a commitment that scoring reads, with the committee they are encoded against.\<close>

record TssCommitment =
  tc_Commitment :: string
  tc_BitSet :: string

record CommitmentWithCommittee =
  wc_Commitment :: TssCommitment
  wc_Committee :: "string list"

definition committeeFromMembers :: "string list \<Rightarrow> string set" where
  "committeeFromMembers committee = set (filter (\<lambda>m. m \<noteq> []) committee)"

text \<open>A string is well-formed unpadded base64 when every byte is a digit and no single digit is left over.\<close>

definition b64_valid :: "string \<Rightarrow> bool" where
  "b64_valid s =
     (let t = filter (\<lambda>c. c \<noteq> CHR 0x0A \<and> c \<noteq> CHR 0x0D) s in
      list_all (\<lambda>c. b64_digit c \<noteq> None) t \<and> length t mod 4 \<noteq> 1)"

definition decodeBitset :: "string \<Rightarrow> nat option" where
  "decodeBitset s =
     (if s = [] then None else if \<not> b64_valid s then None else Some (SetBytes (DecodeString s)))"

definition score_slot :: "uint64 set \<Rightarrow> string set \<Rightarrow> SlotProposer \<Rightarrow> scores \<Rightarrow> scores" where
  "score_slot produced cm s out =
     (if sp_Account s \<notin> cm then out
      else if sp_SlotHeight s \<in> produced then out
      else out(sp_Account s := out (sp_Account s) + BlockProductionMissBps))"

definition ScoreBlockProduction :: "SlotProposer list \<Rightarrow> uint64 set \<Rightarrow> string list \<Rightarrow> scores" where
  "ScoreBlockProduction slots producedSlotHeights committee =
     (let cm = committeeFromMembers committee in
      if slots = [] \<or> cm = {} then no_scores else fold (score_slot producedSlotHeights cm) slots no_scores)"

definition score_signers :: "string set \<Rightarrow> string list \<Rightarrow> scores \<Rightarrow> scores" where
  "score_signers cm signers out =
     (\<lambda>member. if member \<in> cm \<and> member \<notin> set signers then out member + BlockAttestationMissBps else out member)"

text \<open>A block is its list of signers, all of a header that scoring reads.\<close>

definition ScoreBlockAttestation :: "string list list \<Rightarrow> string list \<Rightarrow> scores" where
  "ScoreBlockAttestation blocks committee =
     (let cm = committeeFromMembers committee in
      if blocks = [] \<or> cm = {} then no_scores else fold (score_signers cm) blocks no_scores)"

definition scoreAttestationFromHeaders :: "string list list \<Rightarrow> string list \<Rightarrow> scores" where
  "scoreAttestationFromHeaders blocks committee =
     (let cm = committeeFromMembers committee in
      if blocks = [] \<or> cm = {} then no_scores else fold (score_signers cm) blocks no_scores)"

text \<open>The members of a committee in elected order whose bit has the value that is charged.\<close>

fun score_bits :: "nat \<Rightarrow> bool \<Rightarrow> int64 \<Rightarrow> nat \<Rightarrow> string list \<Rightarrow> scores \<Rightarrow> scores" where
  "score_bits bs charged bps idx [] out = out"
| "score_bits bs charged bps idx (member # members) out =
     score_bits bs charged bps (idx + 1) members
       (if member = [] then out
        else if Bit bs idx = charged then out(member := out member + bps) else out)"

definition score_commitment :: "(TssCommitment \<Rightarrow> string) \<Rightarrow> bool \<Rightarrow> int64 \<Rightarrow> CommitmentWithCommittee \<Rightarrow> scores \<Rightarrow> scores" where
  "score_commitment field charged bps r out =
     (case decodeBitset (field (wc_Commitment r)) of
        None \<Rightarrow> out
      | Some bs \<Rightarrow> score_bits bs charged bps 0 (wc_Committee r) out)"

definition ScoreTssReshareExclusion :: "CommitmentWithCommittee list \<Rightarrow> scores" where
  "ScoreTssReshareExclusion reshares =
     fold (score_commitment tc_Commitment False TssReshareExclusionBps) reshares no_scores"

definition ScoreTssKeygenExclusion :: "CommitmentWithCommittee list \<Rightarrow> scores" where
  "ScoreTssKeygenExclusion keygens =
     fold (score_commitment tc_Commitment False TssKeygenExclusionBps) keygens no_scores"

definition ScoreTssBlame :: "CommitmentWithCommittee list \<Rightarrow> scores" where
  "ScoreTssBlame blames = fold (score_commitment tc_Commitment True TssBlameBps) blames no_scores"

definition ScoreTssSignNonParticipation :: "CommitmentWithCommittee list \<Rightarrow> scores" where
  "ScoreTssSignNonParticipation signs =
     fold (score_commitment tc_BitSet False TssSignNonParticipationBps) signs no_scores"

fun divergence_loop :: "string set \<Rightarrow> string set \<Rightarrow> string list \<Rightarrow> scores \<Rightarrow> scores" where
  "divergence_loop cm seen [] out = out"
| "divergence_loop cm seen (w # ws) out =
     (if w = [] then divergence_loop cm seen ws out
      else if w \<notin> cm then divergence_loop cm seen ws out
      else if w \<in> seen then divergence_loop cm seen ws out
      else divergence_loop cm (insert w seen) ws (out(w := out w + OracleQuoteDivergenceBps)))"

definition ScoreOracleQuoteDivergence :: "string list \<Rightarrow> string list \<Rightarrow> scores" where
  "ScoreOracleQuoteDivergence divergingWitnesses committee =
     (let cm = committeeFromMembers committee in
      if divergingWitnesses = [] \<or> cm = {} then no_scores
      else divergence_loop cm {} divergingWitnesses no_scores)"

section \<open>Consolidation\<close>

record TickInputs =
  ti_Committee :: "string list"
  ti_Slots :: "SlotProposer list"
  ti_ProducedSlotHeights :: "uint64 set"
  ti_BlocksInWindow :: "string list list"
  ti_Reshares :: "CommitmentWithCommittee list"
  ti_Keygens :: "CommitmentWithCommittee list"
  ti_Blames :: "CommitmentWithCommittee list"
  ti_Signs :: "CommitmentWithCommittee list"
  ti_DivergingOracleWitnesses :: "string list"

record WitnessLivenessEvidence =
  we_BlockProductionBps :: int64
  we_BlockAttestationBps :: int64
  we_TssReshareExclusionBps :: int64
  we_TssKeygenExclusionBps :: int64
  we_TssBlameBps :: int64
  we_TssSignNonParticipationBps :: int64
  we_OracleQuoteDivergenceBps :: int64

record WitnessRewardReductionRecord =
  wr_Witness :: string
  wr_Bps :: int64
  wr_Evidence :: WitnessLivenessEvidence

definition clampPerTick :: "int64 \<Rightarrow> int64" where
  "clampPerTick v = (if sint v < 0 then 0 else if sint PerTickCapBps < sint v then PerTickCapBps else v)"

fun maxOfMany :: "int64 list \<Rightarrow> int64" where
  "maxOfMany [] = 0"
| "maxOfMany (v # vs) = fold (\<lambda>v m. if sint m < sint v then v else m) vs v"

definition tick_evidence :: "TickInputs \<Rightarrow> string \<Rightarrow> WitnessLivenessEvidence" where
  "tick_evidence i w = \<lparr>
     we_BlockProductionBps = clampPerTick (ScoreBlockProduction (ti_Slots i) (ti_ProducedSlotHeights i) (ti_Committee i) w),
     we_BlockAttestationBps = clampPerTick (scoreAttestationFromHeaders (ti_BlocksInWindow i) (ti_Committee i) w),
     we_TssReshareExclusionBps = clampPerTick (ScoreTssReshareExclusion (ti_Reshares i) w),
     we_TssKeygenExclusionBps = clampPerTick (ScoreTssKeygenExclusion (ti_Keygens i) w),
     we_TssBlameBps = clampPerTick (ScoreTssBlame (ti_Blames i) w),
     we_TssSignNonParticipationBps = clampPerTick (ScoreTssSignNonParticipation (ti_Signs i) w),
     we_OracleQuoteDivergenceBps = clampPerTick (ScoreOracleQuoteDivergence (ti_DivergingOracleWitnesses i) (ti_Committee i) w)\<rparr>"

definition evidence_signals :: "WitnessLivenessEvidence \<Rightarrow> int64 list" where
  "evidence_signals ev =
     [we_BlockProductionBps ev, we_BlockAttestationBps ev, we_TssReshareExclusionBps ev, we_TssKeygenExclusionBps ev,
      we_TssBlameBps ev, we_TssSignNonParticipationBps ev, we_OracleQuoteDivergenceBps ev]"

definition AggregateTick :: "TickInputs \<Rightarrow> WitnessRewardReductionRecord list" where
  "AggregateTick i =
     map (\<lambda>w. let ev = tick_evidence i w; bps = maxOfMany (evidence_signals ev)
       in \<lparr>wr_Witness = w, wr_Bps = clampPerTick bps, wr_Evidence = ev\<rparr>) (sort (ti_Committee i))"

section \<open>The reductions of an epoch\<close>

type_synonym amounts = "(string \<times> int64) list"

text \<open>\<open>m[k] += v\<close> on a map given by its entries, and reading a key.\<close>

fun bump :: "string \<Rightarrow> int64 \<Rightarrow> amounts \<Rightarrow> amounts" where
  "bump k v [] = [(k, v)]"
| "bump k v ((k', w) # m) = (if k' = k then (k', w + v) # m else (k', w) # bump k v m)"

definition amount_at :: "amounts \<Rightarrow> string \<Rightarrow> int64" where
  "amount_at m k = (case map_of m k of None \<Rightarrow> 0 | Some v \<Rightarrow> v)"

definition add_tick :: "WitnessRewardReductionRecord list \<Rightarrow> amounts \<Rightarrow> amounts" where
  "add_tick records totals = fold (\<lambda>r m. if sint (wr_Bps r) \<le> 0 then m else bump (wr_Witness r) (wr_Bps r) m) records totals"

text \<open>The loop over the ticks. Its counter wraps around, so it need not end.\<close>

partial_function (option) tick_loop ::
  "(uint64 \<Rightarrow> TickInputs option) \<Rightarrow> uint64 \<Rightarrow> uint64 \<Rightarrow> uint64 \<Rightarrow> amounts \<Rightarrow> amounts option" where
  "tick_loop provider tickInterval toBh tickHeight totals =
     (if tickHeight \<le> toBh then
        tick_loop provider tickInterval toBh (tickHeight + tickInterval)
          (case provider tickHeight of None \<Rightarrow> totals | Some i \<Rightarrow> add_tick (AggregateTick i) totals)
      else Some totals)"

definition SortedAccountsFromMap :: "amounts \<Rightarrow> string list" where
  "SortedAccountsFromMap m = sort (map fst m)"

definition effective_reductions :: "amounts \<Rightarrow> amounts" where
  "effective_reductions totals =
     List.map_filter (\<lambda>(w, raw). let eff = raw - PerEpochForgivenessBps in
       if sint eff \<le> 0 then None
       else Some (w, if sint PerEpochCapBps < sint eff then PerEpochCapBps else eff)) totals"

definition ComputeReductionsForEpoch ::
  "(uint64 \<Rightarrow> TickInputs option) option \<Rightarrow> uint64 \<Rightarrow> uint64 \<Rightarrow> uint64 \<Rightarrow> amounts option" where
  "ComputeReductionsForEpoch provider fromBh toBh tickInterval =
     (case provider of
        None \<Rightarrow> Some []
      | Some p \<Rightarrow>
          if tickInterval = 0 \<or> toBh \<le> fromBh then Some []
          else do {
            let firstTick = fromBh + tickInterval - fromBh mod tickInterval;
            totals \<leftarrow> tick_loop p tickInterval toBh firstTick [];
            Some (effective_reductions totals)
          })"

section \<open>Laws\<close>

lemma divergence_loop_eq:
  "w \<in> cm \<Longrightarrow> w \<noteq> [] \<Longrightarrow> divergence_loop cm seen ws out w =
    (if w \<in> set ws \<and> w \<notin> seen then out w + OracleQuoteDivergenceBps else out w)"
  "\<not> (w \<in> cm \<and> w \<noteq> []) \<Longrightarrow> divergence_loop cm seen ws out w = out w"
  by (induction cm seen ws out rule: divergence_loop.induct) auto

lemma map_of_bump:
  "map_of (bump k v m) x = (if x = k then Some (amount_at m k + v) else map_of m x)"
  by (induction k v m rule: bump.induct) (auto simp: amount_at_def)

lemma fst_bump: "map fst (bump k v m) = map fst m @ (if k \<in> fst ` set m then [] else [k])"
  by (induction k v m rule: bump.induct) auto

lemma distinct_bump: "distinct (map fst (bump k v m)) = distinct (map fst m)"
  by (auto simp: fst_bump)

lemma amount_at_bump: "amount_at (bump k v m) x = amount_at m x + (if x = k then v else 0)"
  by (auto simp: amount_at_def map_of_bump)

lemma distinct_add_tick: "distinct (map fst (add_tick rs m)) = distinct (map fst m)"
  by (induction rs arbitrary: m) (auto simp: add_tick_def distinct_bump)

lemma clampPerTick_bounds: "0 \<le> sint (clampPerTick v) \<and> sint (clampPerTick v) \<le> 1000"
  by (auto simp: clampPerTick_def PerTickCapBps_def)

lemma fold_max_ge:
  "sint (fold (\<lambda>v m. if sint m < sint v then v else m) vs v) = Max (sint ` set (v # vs))" for v :: int64
proof (induction vs arbitrary: v)
  case Nil
  then show ?case by simp
next
  case (Cons w vs)
  have "Max (sint ` set (v # w # vs)) = max (max (sint v) (sint w)) (Max (insert (max (sint v) (sint w)) (sint ` set vs)))"
    by (cases "vs = []") (auto simp: max.assoc max.left_commute max.commute)
  then show ?case using Cons[of "if sint v < sint w then w else v"] by (auto simp: max_def split: if_splits)
qed

lemma maxOfMany_Max: "vs \<noteq> [] \<Longrightarrow> sint (maxOfMany vs) = Max (sint ` set vs)"
  by (cases vs) (simp_all only: maxOfMany.simps fold_max_ge list.distinct)

lemma AggregateTick_bounds:
  "r \<in> set (AggregateTick i) \<Longrightarrow> 0 \<le> sint (wr_Bps r) \<and> sint (wr_Bps r) \<le> 1000"
  using clampPerTick_bounds by (auto simp: AggregateTick_def Let_def)

section \<open>The ticks of an epoch\<close>

text \<open>The heights that are scored: the multiples of the interval after the first block of the range, up to the last.\<close>

definition epoch_ticks :: "uint64 \<Rightarrow> uint64 \<Rightarrow> uint64 \<Rightarrow> uint64 list" where
  "epoch_ticks fromBh toBh n =
     map of_nat (filter (\<lambda>h. unat n dvd h) [unat fromBh + 1 ..< unat toBh + 1])"

definition score_tick :: "(uint64 \<Rightarrow> TickInputs option) \<Rightarrow> uint64 \<Rightarrow> amounts \<Rightarrow> amounts" where
  "score_tick p h totals = (case p h of None \<Rightarrow> totals | Some i \<Rightarrow> add_tick (AggregateTick i) totals)"

lemma filter_dvd_none:
  assumes "n dvd h"
  shows "filter ((dvd) n) [Suc h ..< min m (h + n)] = []"
proof -
  have "\<not> n dvd x" if "h < x" "x < h + n" for x
  proof
    assume "n dvd x"
    with assms have "n dvd x - h" by (simp add: dvd_diff_nat)
    with that show False by (auto dest: dvd_imp_le)
  qed
  then show ?thesis by (auto simp: filter_empty_conv)
qed

lemma filter_dvd_step:
  assumes "n dvd h" "h < m" "0 < n"
  shows "filter ((dvd) n) [h ..< m] = h # filter ((dvd) n) [h + n ..< m]"
proof -
  have "[Suc h ..< m] = [Suc h ..< min m (h + n)] @ [h + n ..< m]"
  proof (cases "h + n \<le> m")
    case True
    then have "m = h + n + (m - (h + n))" by simp
    then show ?thesis using True assms upt_add_eq_append[of "Suc h" "h + n" "m - (h + n)"] by (simp add: min_def)
  qed (simp add: min_def)
  then show ?thesis using assms filter_dvd_none[OF assms(1), of m] by (simp add: upt_rec[of h])
qed

lemma first_tick:
  assumes "0 < n"
  shows "filter ((dvd) n) [f + 1 ..< m] = filter ((dvd) n) [f + n - f mod n ..< m]"
proof -
  define h where "h = f - f mod n"
  have h: "n dvd h" "h \<le> f" "f < h + n" "f + n - f mod n = h + n"
    using mod_less_divisor[OF assms, of f] mod_less_eq_dividend[of f n] by (auto simp: h_def dvd_minus_mod)
  show ?thesis
  proof (cases "h + n \<le> m")
    case True
    have "[f + 1 ..< m] = [f + 1 ..< h + n] @ [h + n ..< m]"
      using h True upt_add_eq_append[of "f + 1" "h + n" "m - (h + n)"] by simp
    moreover have "filter ((dvd) n) [f + 1 ..< h + n] = []"
      using filter_dvd_none[OF h(1), of "h + n"] h(2) by (auto simp: filter_empty_conv)
    ultimately show ?thesis using h(4) by simp
  next
    case False
    then show ?thesis using filter_dvd_none[OF h(1), of m] h by (auto simp: filter_empty_conv)
  qed
qed

lemma unat_tick_step:
  fixes h n t :: uint64
  assumes "h \<le> t" "unat t + unat n < 2 ^ 64"
  shows "unat (h + n) = unat h + unat n"
  using assms by (intro unat_add_lem[THEN iffD1]) (simp add: word_le_nat_alt)

lemma tick_loop_eq:
  assumes "0 < n" "unat t + unat n < 2 ^ 64" "unat n dvd unat h"
  shows "tick_loop p n t h m =
    Some (fold (score_tick p) (map of_nat (filter ((dvd) (unat n)) [unat h ..< unat t + 1])) m)"
  using assms(3)
proof (induction "unat t + 1 - unat h" arbitrary: h m rule: less_induct)
  case less
  show ?case
  proof (cases "h \<le> t")
    case True
    have n: "0 < unat n" using assms(1) by (simp add: unat_gt_0 word_gt_0)
    have step: "unat (h + n) = unat h + unat n" by (rule unat_tick_step[OF True assms(2)])
    have "tick_loop p n t (h + n) (score_tick p h m) =
      Some (fold (score_tick p) (map of_nat (filter ((dvd) (unat n)) [unat h + unat n ..< unat t + 1])) (score_tick p h m))"
      using less True n step by (simp add: word_le_nat_alt)
    then show ?thesis
      using True filter_dvd_step[OF less.prems, of "unat t + 1"] n
      by (subst tick_loop.simps) (simp add: score_tick_def word_le_nat_alt del: upt_Suc)
  next
    case False
    then show ?thesis by (subst tick_loop.simps) (simp add: word_le_nat_alt)
  qed
qed

lemma ComputeReductionsForEpoch_eq:
  assumes "0 < n" "f < t" "unat t + unat n < 2 ^ 64"
  shows "ComputeReductionsForEpoch (Some p) f t n = Some (effective_reductions (fold (score_tick p) (epoch_ticks f t n) []))"
proof -
  have n: "0 < unat n" using assms(1) by (simp add: unat_gt_0 word_gt_0)
  have le: "unat f mod unat n \<le> unat f + unat n" by (meson le_trans mod_less_eq_dividend le_add1)
  have "unat f \<le> unat t" using assms(2) by (simp add: word_less_nat_alt)
  then have h: "unat (f + n - f mod n) = unat f + unat n - unat f mod unat n"
    using le assms(3) unat_tick_step[of f t n] assms(2)
    by (subst unat_sub) (auto simp: word_le_nat_alt unat_mod)
  have dvd: "unat n dvd unat f + unat n - unat f mod unat n"
    by (metis Nat.add_diff_assoc2 dvd_add_triv_right_iff dvd_minus_mod mod_less_eq_dividend)
  show ?thesis
    using assms tick_loop_eq[OF assms(1,3), of "f + n - f mod n" p "[]"] first_tick[OF n, of "unat f" "unat t + 1"] h dvd
    by (auto simp: ComputeReductionsForEpoch_def epoch_ticks_def simp del: upt_Suc)
qed

text \<open>What a witness is charged over a list of ticks, as an integer.\<close>

definition tick_charge :: "(uint64 \<Rightarrow> TickInputs option) \<Rightarrow> string \<Rightarrow> uint64 \<Rightarrow> int" where
  "tick_charge p w h =
     (case p h of
        None \<Rightarrow> 0
      | Some i \<Rightarrow> (\<Sum>r \<leftarrow> AggregateTick i. if wr_Witness r = w then sint (wr_Bps r) else 0))"

definition epoch_charge :: "(uint64 \<Rightarrow> TickInputs option) \<Rightarrow> string \<Rightarrow> uint64 list \<Rightarrow> int" where
  "epoch_charge p w ticks = (\<Sum>h \<leftarrow> ticks. tick_charge p w h)"

lemma add_tick_amount:
  "\<forall>r \<in> set rs. 0 \<le> sint (wr_Bps r) \<Longrightarrow>
   amount_at (add_tick rs m) w = amount_at m w + of_int (\<Sum>r \<leftarrow> rs. if wr_Witness r = w then sint (wr_Bps r) else 0)"
proof (induction rs arbitrary: m)
  case (Cons r rs)
  have "wr_Bps r = 0" if "sint (wr_Bps r) \<le> 0" using that Cons.prems sint_inj[of "wr_Bps r" 0] by fastforce
  then show ?case using Cons.IH Cons.prems by (simp add: add_tick_def amount_at_bump algebra_simps)
qed (simp add: add_tick_def)

lemma fold_tick_amount:
  "amount_at (fold (score_tick p) ticks m) w = amount_at m w + of_int (epoch_charge p w ticks)"
proof (induction ticks arbitrary: m)
  case (Cons h ticks)
  have "amount_at (score_tick p h m) w = amount_at m w + of_int (tick_charge p w h)"
    using AggregateTick_bounds
    by (auto simp: score_tick_def tick_charge_def split: option.split intro!: add_tick_amount)
  then show ?case using Cons.IH by (simp add: epoch_charge_def)
qed (simp add: epoch_charge_def)

lemma distinct_fold_tick: "distinct (map fst m) \<Longrightarrow> distinct (map fst (fold (score_tick p) ticks m))"
  by (induction ticks arbitrary: m) (auto simp: score_tick_def distinct_add_tick split: option.split)

lemma charge_nonneg: "0 \<le> epoch_charge p w ticks"
  using AggregateTick_bounds
  by (auto simp: epoch_charge_def tick_charge_def intro!: sum_list_nonneg split: option.splits)

lemma effective_reductions_lookup:
  assumes "distinct (map fst m)"
  shows "map_of (effective_reductions m) w =
    (let eff = amount_at m w - PerEpochForgivenessBps in
     if map_of m w = None \<or> sint eff \<le> 0 then None
     else Some (if sint PerEpochCapBps < sint eff then PerEpochCapBps else eff))"
  using assms
proof (induction m)
  case (Cons e m)
  then show ?case
    by (cases e) (auto simp: effective_reductions_def amount_at_def List.map_filter_simps Let_def split: option.splits if_splits dest: map_of_SomeD rev_image_eqI[of _ _ _ fst])
qed (simp add: effective_reductions_def List.map_filter_simps)

lemma distinct_effective: "distinct (map fst m) \<Longrightarrow> distinct (map fst (effective_reductions m))"
proof (induction m)
  case (Cons e m)
  have "fst ` set (effective_reductions m) \<subseteq> fst ` set m"
    by (force simp: effective_reductions_def List.map_filter_def Let_def split: if_splits)
  with Cons show ?case
    by (cases e) (auto simp: effective_reductions_def List.map_filter_simps Let_def)
qed (simp add: effective_reductions_def List.map_filter_simps)

section \<open>Properties\<close>

text \<open>
  C23. The scoring of an epoch ends whenever the last height plus the interval does not wrap around, and it
  charges every witness exactly: the sum of the per-tick reductions over the multiples of the interval in
  the range, less the forgiveness, capped at the whole share, and absent when nothing is left.
\<close>

theorem epoch_reductions_exact:
  assumes "0 < tickInterval" "fromBh < toBh" "unat toBh + unat tickInterval < 2 ^ 64"
    and "\<forall>w. epoch_charge provider w (epoch_ticks fromBh toBh tickInterval) < 2 ^ 63"
  shows "\<exists>reductions. ComputeReductionsForEpoch (Some provider) fromBh toBh tickInterval = Some reductions
    \<and> distinct (map fst reductions)
    \<and> (\<forall>w. map_option sint (map_of reductions w) =
         (let charge = epoch_charge provider w (epoch_ticks fromBh toBh tickInterval) in
          if charge \<le> 250 then None else Some (min 10000 (charge - 250))))"
proof (intro exI conjI allI)
  let ?ticks = "epoch_ticks fromBh toBh tickInterval"
  let ?m = "fold (score_tick provider) ?ticks []"
  show "ComputeReductionsForEpoch (Some provider) fromBh toBh tickInterval = Some (effective_reductions ?m)"
    by (rule ComputeReductionsForEpoch_eq[OF assms(1,2,3)])
  have d: "distinct (map fst ?m)" by (rule distinct_fold_tick) simp
  then show "distinct (map fst (effective_reductions ?m))" by (rule distinct_effective)
  fix w
  let ?c = "epoch_charge provider w ?ticks"
  have at: "amount_at ?m w = of_int ?c" using fold_tick_amount[of provider ?ticks "[]" w] by (simp add: amount_at_def)
  have b: "0 \<le> ?c" "?c < 2 ^ 63" using charge_nonneg assms(4) by auto
  then have "sint (of_int ?c - 250 :: int64) = ?c - 250"
    using sint_of_fits[of "?c - 250"] by (simp add: fits_int64_def i64_min_def i64_max_def)
  moreover have "?c = 0" if "map_of ?m w = None"
    using at that sint_of_fits[of ?c] b by (simp add: amount_at_def fits_int64_def i64_min_def i64_max_def)
  ultimately show "map_option sint (map_of (effective_reductions ?m) w) =
      (let charge = ?c in if charge \<le> 250 then None else Some (min 10000 (charge - 250)))"
    by (auto simp: effective_reductions_lookup[OF d] at PerEpochForgivenessBps_def PerEpochCapBps_def Let_def min_def)
qed

text \<open>Two witnesses; the first misses five slots in every tick, the second none.\<close>

definition example_tick :: TickInputs where
  "example_tick = \<lparr>ti_Committee = [''w2'', ''w1''],
     ti_Slots = map (\<lambda>h. \<lparr>sp_SlotHeight = h, sp_Account = ''w1''\<rparr>) [10, 20, 30, 40, 50, 60],
     ti_ProducedSlotHeights = {60}, ti_BlocksInWindow = [], ti_Reshares = [], ti_Keygens = [], ti_Blames = [],
     ti_Signs = [], ti_DivergingOracleWitnesses = []\<rparr>"

lemma example_tick_records:
  "map (\<lambda>r. (wr_Witness r, wr_Bps r)) (AggregateTick example_tick) = [(''w1'', 1000), (''w2'', 0)]"
proof -
  have "sort [''w2'', ''w1''] = [''w1'', ''w2'']" by simp
  then show ?thesis
    by (simp add: AggregateTick_def evidence_signals_def tick_evidence_def example_tick_def Let_def ScoreBlockProduction_def
        committeeFromMembers_def score_slot_def no_scores_def scoreAttestationFromHeaders_def
        ScoreTssReshareExclusion_def ScoreTssKeygenExclusion_def ScoreTssBlame_def ScoreTssSignNonParticipation_def
        ScoreOracleQuoteDivergence_def clampPerTick_def PerTickCapBps_def BlockProductionMissBps_def)
qed

lemma example_charge:
  "epoch_charge (\<lambda>h. Some example_tick) w (epoch_ticks 150 300 100) = (if w = ''w1'' then 2000 else 0)"
proof -
  have t: "epoch_ticks 150 300 100 = [200, 300]" by code_simp
  have "AggregateTick example_tick = map id (AggregateTick example_tick)" by simp
  have c: "(\<Sum>r \<leftarrow> rs. if wr_Witness r = w then sint (wr_Bps r) else 0) =
      (\<Sum>(x, b) \<leftarrow> map (\<lambda>r. (wr_Witness r, wr_Bps r)) rs. if x = w then sint b else 0)" for rs
    by (induction rs) auto
  show ?thesis unfolding epoch_charge_def tick_charge_def t c option.case example_tick_records by auto
qed

theorem epoch_reductions_exact_witness:
  "\<exists>reductions. ComputeReductionsForEpoch (Some (\<lambda>h. Some example_tick)) 150 300 100 = Some reductions
    \<and> map_option sint (map_of reductions ''w1'') = Some 1750 \<and> map_of reductions ''w2'' = None"
proof -
  have b: "\<forall>w. epoch_charge (\<lambda>h. Some example_tick) w (epoch_ticks 150 300 100) < 2 ^ 63"
    by (simp add: example_charge)
  obtain rs where rs: "ComputeReductionsForEpoch (Some (\<lambda>h. Some example_tick)) 150 300 100 = Some rs"
    and all: "\<forall>w. map_option sint (map_of rs w) =
      (let charge = epoch_charge (\<lambda>h. Some example_tick) w (epoch_ticks 150 300 100) in
       if charge \<le> 250 then None else Some (min 10000 (charge - 250)))"
    using epoch_reductions_exact[of 100 150 300 "\<lambda>h. Some example_tick", OF _ _ _ b] by auto
  show ?thesis
    using all[rule_format, of "''w1''"] all[rule_format, of "''w2''"] rs by (simp add: example_charge)
qed


end
