(* ===== verification/Settlement.thy ===== *)
theory Settlement
  imports Rewards Pendulum Slash "HOL-Library.AList"
begin

text \<open>
  The settlement of an epoch (modules/incentive-pendulum/settlement): the bonds of the committee read
  across the epoch, the reductions applied to them, the node bucket divided in proportion to the
  effective bonds and further to the delegators of sharing nodes, and the record that states it all.

  A Go map is the list of its entries in the order a loop over the map visits them, with distinct keys;
  \<open>Settlement_Spec\<close> shows that this order does not matter. A slice is an option: encoding/json tells a
  nil slice, \<open>None\<close>, from an empty one. \<open>MulDivFloorI64\<close> panics on a zero divisor only, which no call
  below passes, so its panic is folded into the branch of an overflow.
\<close>

section \<open>Types\<close>

record SplitPreview =
  pv_R :: int64
  pv_T :: int64
  pv_E :: int64
  pv_V :: int64
  pv_P :: int64
  pv_FinalNodeShare :: int64
  pv_FinalPoolShare :: int64

record Distribution =
  ds_Account :: string
  ds_Amount :: int64

record RewardReductionApplied =
  ra_Account :: string
  ra_Bps :: int64
  ra_OriginalBond :: int64
  ra_ReductionAmount :: int64
  ra_EffectiveBond :: int64

record RewardReductionEntry =
  re_Account :: string
  re_Bps :: int64

record DistributionEntry =
  de_Account :: string
  de_HBDAmt :: int64

record SettlementRecord =
  sr_Epoch :: uint64
  sr_PrevEpoch :: uint64
  sr_SnapshotRangeFrom :: uint64
  sr_SnapshotRangeTo :: uint64
  sr_BucketBalanceHBD :: int64
  sr_TotalDistributedHBD :: int64
  sr_ResidualHBD :: int64
  sr_RewardReductions :: "RewardReductionEntry list option"
  sr_Distributions :: "DistributionEntry list option"

record ComposeInputs =
  ci_Epoch :: uint64
  ci_PrevEpoch :: uint64
  ci_EpochStartBh :: uint64
  ci_SlotHeight :: uint64
  ci_CommitteeBonds :: amounts
  ci_BucketBalanceHBD :: int64
  ci_ReductionsByAccount :: amounts
  ci_ShareDelegations :: "(string \<times> amounts) list"

text \<open>\<open>append([]T(nil), xs...)\<close>: nil when there is nothing to append. And the elements of a slice.\<close>

definition slice :: "'a list \<Rightarrow> 'a list option" where
  "slice xs = (if xs = [] then None else Some xs)"

definition elems :: "'a list option \<Rightarrow> 'a list" where
  "elems s = (case s of None \<Rightarrow> [] | Some xs \<Rightarrow> xs)"

section \<open>Distribution\<close>

definition CalculateSplitPreviewFixed ::
  "int64 \<Rightarrow> int64 \<Rightarrow> int64 \<Rightarrow> int64 \<Rightarrow> int64 \<Rightarrow> int64 \<Rightarrow> SplitPreview option" where
  "CalculateSplitPreviewFixed r t effectiveNumerator effectiveDenominator v p =
     (let out = \<lparr>pv_R = r, pv_T = t, pv_E = 0, pv_V = v, pv_P = p, pv_FinalNodeShare = 0, pv_FinalPoolShare = 0\<rparr> in
      if sint r \<le> 0 \<or> sint t \<le> 0 \<or> sint effectiveNumerator \<le> 0 \<or> sint effectiveDenominator \<le> 0 then Some out
      else let e = word_of_int (quo (sint (t * effectiveNumerator)) (sint effectiveDenominator)) in
      if sint e \<le> 0 then Some out
      else do {
        split \<leftarrow> SplitInt \<lparr>in_R = Some (sint r), in_E = Some (sint e), in_T = Some (sint t), in_V = Some (sint v), in_P = Some (sint p)\<rparr>;
        Some (case split of
            None \<Rightarrow> out\<lparr>pv_E := e\<rparr>
          | Some sp \<Rightarrow>
              let node = word_of_int (FinalNodeShare sp);
                  node = if sint node < 0 then 0 else node;
                  node = if sint r < sint node then r else node
              in out\<lparr>pv_E := e, pv_FinalNodeShare := node, pv_FinalPoolShare := r - node\<rparr>)
      })"

definition positive_total :: "amounts \<Rightarrow> int64" where
  "positive_total m = fold (\<lambda>(_, b) total. if 0 < sint b then total + b else total) m 0"

definition floor_share :: "int64 \<Rightarrow> int64 \<Rightarrow> int64 \<Rightarrow> int64 option" where
  "floor_share a b c = (case MulDivFloorI64 a b c of Some (Some v) \<Rightarrow> Some v | _ \<Rightarrow> None)"

definition ComputeNodeDistributions :: "int64 \<Rightarrow> amounts \<Rightarrow> Distribution list" where
  "ComputeNodeDistributions nodeShare bonds =
     (if sint nodeShare \<le> 0 \<or> bonds = [] then []
      else let total = positive_total bonds in
      if sint total \<le> 0 then []
      else List.map_filter (\<lambda>account. let stake = amount_at bonds account in
             if sint stake \<le> 0 then None
             else map_option (\<lambda>amount. \<lparr>ds_Account = account, ds_Amount = amount\<rparr>) (floor_share nodeShare stake total))
           (sort (map fst bonds)))"

definition add_share :: "string \<Rightarrow> int64 \<Rightarrow> amounts \<Rightarrow> amounts" where
  "add_share acct amt merged = (if amt \<noteq> 0 then bump acct amt merged else merged)"

text \<open>The split of one node's amount over its edges; the state is the merged map and what is distributed.\<close>

definition split_edge :: "int64 \<Rightarrow> amounts \<Rightarrow> int64 \<Rightarrow> string \<Rightarrow> amounts \<times> int64 \<Rightarrow> amounts \<times> int64" where
  "split_edge amount edges totalStake dlg st =
     (case floor_share amount (amount_at edges dlg) totalStake of
        None \<Rightarrow> st
      | Some share \<Rightarrow> if sint share \<le> 0 then st else (add_share dlg share (fst st), snd st + share))"

definition expand_node :: "(string \<times> amounts) list \<Rightarrow> Distribution \<Rightarrow> amounts \<Rightarrow> amounts" where
  "expand_node shareDelegations d merged =
     (let edges = (case map_of shareDelegations (ds_Account d) of None \<Rightarrow> [] | Some es \<Rightarrow> es) in
      if sint (ds_Amount d) \<le> 0 \<or> edges = [] then add_share (ds_Account d) (ds_Amount d) merged
      else let total = positive_total edges in
      if sint total \<le> 0 then add_share (ds_Account d) (ds_Amount d) merged
      else let delegators = sort (map fst (filter (\<lambda>(_, st). 0 < sint st) edges));
               (merged, distributed) = fold (split_edge (ds_Amount d) edges total) delegators (merged, 0)
           in add_share (ds_Account d) (ds_Amount d - distributed) merged)"

definition ExpandShareDistributions :: "Distribution list \<Rightarrow> (string \<times> amounts) list \<Rightarrow> Distribution list" where
  "ExpandShareDistributions dists shareDelegations =
     (let merged = fold (expand_node shareDelegations) dists [] in
      List.map_filter (\<lambda>a. if sint (amount_at merged a) \<le> 0 then None
          else Some \<lparr>ds_Account = a, ds_Amount = amount_at merged a\<rparr>) (sort (map fst merged)))"

definition normalizeHiveAccount :: "string \<Rightarrow> string" where
  "normalizeHiveAccount a =
     (let a = TrimSpace a in
      if a = [] then [] else if HasPrefix a ''hive:'' then a else ''hive:'' @ a)"

definition reduce_bond ::
  "amounts \<Rightarrow> string \<Rightarrow> amounts \<times> RewardReductionApplied list \<Rightarrow> amounts \<times> RewardReductionApplied list" where
  "reduce_bond reductionBps acc st =
     (let (out, applied) = st; key = normalizeHiveAccount acc; orig = amount_at out key in
      if sint orig \<le> 0 then st
      else let bps = amount_at reductionBps acc in
      if sint bps \<le> 0 then st
      else let bps = if sint PerEpochCapBps < sint bps then PerEpochCapBps else bps;
               reduction = (case floor_share orig bps BpsScale of None \<Rightarrow> 0 | Some r \<Rightarrow> r);
               eff = orig - reduction;
               eff = if sint eff < 0 then 0 else eff
           in (AList.update key eff out, applied @ [\<lparr>ra_Account = acc, ra_Bps = bps, ra_OriginalBond = orig,
                 ra_ReductionAmount = reduction, ra_EffectiveBond = eff\<rparr>]))"

definition ApplyRewardReductionsToBonds :: "amounts \<Rightarrow> amounts \<Rightarrow> amounts \<times> RewardReductionApplied list" where
  "ApplyRewardReductionsToBonds bonds reductionBps =
     fold (reduce_bond reductionBps) (sort (map fst reductionBps)) (bonds, [])"

section \<open>The record\<close>

definition BuildSettlementRecord ::
  "uint64 \<Rightarrow> uint64 \<Rightarrow> uint64 \<Rightarrow> uint64 \<Rightarrow> int64 \<Rightarrow> int64 \<Rightarrow> int64 \<Rightarrow> RewardReductionEntry list \<Rightarrow> DistributionEntry list
     \<Rightarrow> SettlementRecord" where
  "BuildSettlementRecord epoch prevEpoch from to bucket distributed residual reductions dists =
     \<lparr>sr_Epoch = epoch, sr_PrevEpoch = prevEpoch, sr_SnapshotRangeFrom = from, sr_SnapshotRangeTo = to,
      sr_BucketBalanceHBD = bucket, sr_TotalDistributedHBD = distributed, sr_ResidualHBD = residual,
      sr_RewardReductions = slice (sort_key re_Account reductions), sr_Distributions = slice (sort_key de_Account dists)\<rparr>"

datatype compose_error = ZeroEpoch | EmptyWindow | NegativeBucket | NoCommitteeBonds | DistributionOverspend

definition reduction_payload :: "RewardReductionApplied list \<Rightarrow> RewardReductionEntry list" where
  "reduction_payload applied = map (\<lambda>r. \<lparr>re_Account = ra_Account r, re_Bps = ra_Bps r\<rparr>) applied"

definition dist_payload :: "Distribution list \<Rightarrow> DistributionEntry list" where
  "dist_payload dists =
     map (\<lambda>d. \<lparr>de_Account = ds_Account d, de_HBDAmt = ds_Amount d\<rparr>) (filter (\<lambda>d. 0 < sint (ds_Amount d)) dists)"

definition ComposeRecord :: "ComposeInputs \<Rightarrow> compose_error + SettlementRecord" where
  "ComposeRecord i =
     (let build = BuildSettlementRecord (ci_Epoch i) (ci_PrevEpoch i) (ci_EpochStartBh i) (ci_SlotHeight i);
          bucket = ci_BucketBalanceHBD i in
      if ci_Epoch i = 0 then Inl ZeroEpoch
      else if ci_SlotHeight i \<le> ci_EpochStartBh i then Inl EmptyWindow
      else if sint bucket < 0 then Inl NegativeBucket
      else if bucket = 0 then Inr (build 0 0 0 [] [])
      else if ci_CommitteeBonds i = [] then Inl NoCommitteeBonds
      else let (effectiveBonds, applied) = ApplyRewardReductionsToBonds (ci_CommitteeBonds i) (ci_ReductionsByAccount i);
               totalEffectiveBond = sum_list (map snd effectiveBonds) in
      if sint totalEffectiveBond \<le> 0 then Inr (build bucket 0 bucket (reduction_payload applied) [])
      else let dists = ExpandShareDistributions (ComputeNodeDistributions bucket effectiveBonds) (ci_ShareDelegations i);
               distPayload = dist_payload dists;
               totalDistributed = sum_list (map de_HBDAmt distPayload);
               residual = bucket - totalDistributed in
      if sint residual < 0 then Inl DistributionOverspend
      else Inr (build bucket totalDistributed residual (reduction_payload applied) distPayload))"

section \<open>The bonds of the committee\<close>

definition bondSampleCount :: nat where
  "bondSampleCount = 8"

definition sample_point :: "uint64 \<Rightarrow> uint64 \<Rightarrow> uint64 \<Rightarrow> nat \<Rightarrow> uint64 list \<Rightarrow> uint64 list" where
  "sample_point start end step i out =
     (let bh = start + step * of_nat i;
          bh = if end < bh then end else bh;
          bh = if bh \<le> start then start + 1 else bh
      in if bh \<in> set out then out else out @ [bh])"

definition sampleBlocksAcrossWindow :: "uint64 \<Rightarrow> uint64 \<Rightarrow> nat \<Rightarrow> uint64 list" where
  "sampleBlocksAcrossWindow start end n =
     (if n < 2 then [end]
      else if end \<le> start + 1 then [end]
      else let width = end - start; step = width div of_nat (n - 1); step = if step = 0 then 1 else step;
               out = fold (sample_point start end step) [0 ..< n] []
           in if end \<in> set out then out else out @ [end])"

fun readMinBondAcrossSamples ::
  "BalanceRecord collection \<Rightarrow> string \<Rightarrow> uint64 list \<Rightarrow> int64 option \<Rightarrow> dbs \<Rightarrow> (db_error + int64 option) \<times> dbs" where
  "readMinBondAcrossSamples B acct [] low s = (Inr low, s)"
| "readMinBondAcrossSamples B acct (bh # samples) low s =
     (case GetBalanceRecord B acct bh s of
        (Inl e, s) \<Rightarrow> (Inl e, s)
      | (Inr None, s) \<Rightarrow> readMinBondAcrossSamples B acct samples (Some 0) s
      | (Inr (Some rec), s) \<Rightarrow> readMinBondAcrossSamples B acct samples
          (case low of
             None \<Rightarrow> Some (br_HIVE_CONSENSUS rec)
           | Some m \<Rightarrow> if sint (br_HIVE_CONSENSUS rec) < sint m then Some (br_HIVE_CONSENSUS rec) else low) s)"

fun read_bonds :: "BalanceRecord collection \<Rightarrow> uint64 list \<Rightarrow> string list \<Rightarrow> amounts \<Rightarrow> dbs \<Rightarrow> (db_error + amounts) \<times> dbs" where
  "read_bonds B samples [] out s = (Inr out, s)"
| "read_bonds B samples (m # members) out s =
     (let acct = normalizeHiveAccount m in
      if acct = [] then read_bonds B samples members out s
      else case readMinBondAcrossSamples B acct samples None s of
             (Inl e, s) \<Rightarrow> (Inl e, s)
           | (Inr None, s) \<Rightarrow> read_bonds B samples members out s
           | (Inr (Some minBond), s) \<Rightarrow> read_bonds B samples members
               (if sint minBond \<le> 0 then out else AList.update acct minBond out) s)"

definition ReadCommitteeBonds ::
  "BalanceRecord collection option \<Rightarrow> string list \<Rightarrow> uint64 \<Rightarrow> uint64 \<Rightarrow> dbs \<Rightarrow> (db_error + amounts) \<times> dbs" where
  "ReadCommitteeBonds reader members epochStartBh slotHeight s =
     (case reader of
        None \<Rightarrow> (Inr [], s)
      | Some B \<Rightarrow>
          if members = [] then (Inr [], s)
          else if slotHeight = 0 then (Inr [], s)
          else let epochStartBh = (if slotHeight \<le> epochStartBh then slotHeight - 1 else epochStartBh)
               in read_bonds B (sampleBlocksAcrossWindow epochStartBh slotHeight bondSampleCount) members [] s)"

end
