(* ===== verification/Delegation.thy ===== *)
theory Delegation
  imports Rewards Slash ConsensusVersion "HOL-Library.AList"
begin

text \<open>
  Delegated consensus stake: the edges from delegators to nodes that the ledger records
  (modules/ledger-system/delegation_rewards.go), the one-time migration that seeds them from the older
  records (delegation_migration.go), the modes a node announces (modules/common/delegationmode), and the
  edges of the sharing nodes that a settlement reads (\<open>PendulumShareDelegations\<close> of
  modules/state-processing/delegation_mode.go).
\<close>

section \<open>Modes\<close>

definition Deactivated :: string where "Deactivated = ''deactivated''"
definition Share :: string where "Share = ''share''"
definition Custom :: string where "Custom = ''custom''"
definition Mode_Default :: string where "Mode_Default = Deactivated"

lemmas modes = Deactivated_def Share_def Custom_def Mode_Default_def

text \<open>
  \<open>strings.ToLower\<close> on ASCII letters. The only other characters it maps to an ASCII letter give a k or an
  i, which neither share nor custom contains, so the result of \<open>Normalize\<close> is the same.
\<close>

definition ascii_lower :: "char \<Rightarrow> char" where
  "ascii_lower c = (if CHR ''A'' \<le> c \<and> c \<le> CHR ''Z'' then char_of (of_char c + 32 :: nat) else c)"

definition Normalize :: "string \<Rightarrow> string" where
  "Normalize s =
     (let t = map ascii_lower (TrimSpace s) in
      if t = Share then Share
      else if t = Custom then Custom
      else if t = Deactivated then Deactivated
      else Mode_Default)"

definition mode_IsValid :: "string \<Rightarrow> bool" where
  "mode_IsValid s \<longleftrightarrow> s \<in> {Deactivated, Share, Custom}"

definition AllowsDelegation :: "string \<Rightarrow> bool" where
  "AllowsDelegation s \<longleftrightarrow> Normalize s \<noteq> Deactivated"

definition SharesRewards :: "string \<Rightarrow> bool" where
  "SharesRewards s \<longleftrightarrow> Normalize s = Share"

definition IsAdverseTransition :: "string \<Rightarrow> string \<Rightarrow> bool" where
  "IsAdverseTransition old new \<longleftrightarrow> SharesRewards old \<and> \<not> SharesRewards new"

section \<open>Edges\<close>

definition splitDelegationEdgeKey :: "string \<Rightarrow> string \<times> string" where
  "splitDelegationEdgeKey key = (case Cut delegationEdgeSep key of None \<Rightarrow> (key, []) | Some parts \<Rightarrow> parts)"

definition net_delegations :: "LedgerRecord list \<Rightarrow> amounts" where
  "net_delegations records =
     fold (\<lambda>r net. if lr_Asset r \<noteq> AssetDelegation then net else bump (lr_Owner r) (lr_Amount r) net) records []"

text \<open>\<open>m[k][j] = v\<close> on a map of maps, the inner map made when it is missing.\<close>

fun set_edge :: "string \<Rightarrow> string \<Rightarrow> int64 \<Rightarrow> (string \<times> amounts) list \<Rightarrow> (string \<times> amounts) list" where
  "set_edge to from amt [] = [(to, [(from, amt)])]"
| "set_edge to from amt ((node, edges) # out) =
     (if node = to then (node, AList.update from amt edges) # out else (node, edges) # set_edge to from amt out)"

definition groupDelegationEdges :: "LedgerRecord list \<Rightarrow> (string \<times> amounts) list" where
  "groupDelegationEdges records =
     fold (\<lambda>(key, amt) out.
         if sint amt \<le> 0 then out
         else let (from, to) = splitDelegationEdgeKey key in
           if from = [] \<or> to = [] then out else set_edge to from amt out) (net_delegations records) []"

definition AllDelegationEdges :: "ledgerSystem \<Rightarrow> uint64 \<Rightarrow> dbs \<Rightarrow> (string \<times> amounts) list option \<times> dbs" where
  "AllDelegationEdges ls blockHeight s =
     (case sy_LedgerDb ls of
        None \<Rightarrow> (None, s)
      | Some L \<Rightarrow>
          (case GetLedgerRecordsByType L [''consensus_stake'', ''consensus_unstake''] blockHeight s of
             (Inl e, s) \<Rightarrow> (None, s)
           | (Inr records, s) \<Rightarrow> (Some (groupDelegationEdges records), s)))"

text \<open>
  The edges of the sharing nodes of a committee. The mode of a node at a height, \<open>NodeDelegationMode\<close>,
  is an argument: its reads are retried until they succeed, so it is a function of the witness rows.
\<close>

definition share_edges :: "(string \<Rightarrow> string) \<Rightarrow> (string \<times> amounts) list \<Rightarrow> string list \<Rightarrow> (string \<times> amounts) list" where
  "share_edges mode allEdges members =
     fold (\<lambda>m out.
         if \<not> SharesRewards (mode m) then out
         else let edges = (case map_of allEdges m of None \<Rightarrow> [] | Some es \<Rightarrow> es);
                  cp = filter (\<lambda>(d, s). 0 < sint s) edges in
           if cp \<noteq> [] then AList.update m cp out else out) members []"

definition PendulumShareDelegations ::
  "ledgerSystem option \<Rightarrow> (string \<Rightarrow> uint64 \<Rightarrow> string) \<Rightarrow> string list \<Rightarrow> uint64 \<Rightarrow> dbs
     \<Rightarrow> (string \<times> amounts) list option \<times> dbs" where
  "PendulumShareDelegations ls mode members blockHeight s =
     (case ls of
        None \<Rightarrow> (None, s)
      | Some ls \<Rightarrow>
          (case AllDelegationEdges ls blockHeight s of
             (None, s) \<Rightarrow> (None, s)
           | (Some allEdges, s) \<Rightarrow> (Some (share_edges (\<lambda>m. mode m blockHeight) allEdges members), s)))"

section \<open>The migration\<close>

definition splitLedgerBaseId :: "string \<Rightarrow> string \<times> string" where
  "splitLedgerBaseId rid = (case CutLast (CHR ''#'') rid of None \<Rightarrow> (rid, []) | Some parts \<Rightarrow> parts)"

record stakePair =
  pr_from :: string
  pr_to :: string
  pr_amount :: int64
  pr_hasFrom :: bool
  pr_hasTo :: bool

definition stakePair_zero :: stakePair where
  "stakePair_zero = \<lparr>pr_from = [], pr_to = [], pr_amount = 0, pr_hasFrom = False, pr_hasTo = False\<rparr>"

type_synonym backfill = "(string \<times> stakePair) list \<times> amounts"

definition stake_row :: "LedgerRecord \<Rightarrow> string \<Rightarrow> stakePair \<Rightarrow> stakePair" where
  "stake_row r segment p =
     (if segment = ''in'' then p\<lparr>pr_from := lr_Owner r, pr_hasFrom := True\<rparr>
      else if segment = ''out'' then p\<lparr>pr_to := lr_Owner r, pr_amount := lr_Amount r, pr_hasTo := True\<rparr>
      else p)"

definition backfill_record :: "LedgerRecord \<Rightarrow> backfill \<Rightarrow> backfill" where
  "backfill_record r st =
     (let (stakes, edges) = st; (base, segment) = splitLedgerBaseId (lr_Id r) in
      if lr_Asset r = AssetDelegation \<or> lr_Asset r = AssetDelegationTotal then st
      else if lr_Type r = ''consensus_stake'' then
        (AList.update base (stake_row r segment (case map_of stakes base of None \<Rightarrow> stakePair_zero | Some p \<Rightarrow> p)) stakes, edges)
      else if lr_Type r = ''consensus_unstake'' then
        (if segment = ''in'' then (stakes, bump (DelegationEdgeKey (lr_Owner r) (lr_Owner r)) (lr_Amount r) edges) else st)
      else st)"

definition pair_edge :: "string \<times> stakePair \<Rightarrow> amounts \<Rightarrow> amounts" where
  "pair_edge e edges =
     (let p = snd e in
      if pr_hasFrom p \<and> pr_hasTo p then bump (DelegationEdgeKey (pr_from p) (pr_to p)) (pr_amount p) edges else edges)"

definition backfill_edges :: "LedgerRecord list \<Rightarrow> amounts" where
  "backfill_edges records = (let (stakes, edges) = fold backfill_record records ([], []) in fold pair_edge stakes edges)"

definition positive_edges :: "amounts \<Rightarrow> string list" where
  "positive_edges edges = filter (\<lambda>k. 0 < sint (amount_at edges k)) (sort (map fst edges))"

definition edge_totals :: "amounts \<Rightarrow> string list \<Rightarrow> amounts" where
  "edge_totals edges keys = fold (\<lambda>k. bump (snd (splitDelegationEdgeKey k)) (amount_at edges k)) keys []"

definition BackfillDelegationEdges :: "LedgerRecord list \<Rightarrow> uint64 \<Rightarrow> LedgerUpdate list" where
  "BackfillDelegationEdges records atHeight =
     (let edges = backfill_edges records; keys = positive_edges edges; totals = edge_totals edges keys in
      map (\<lambda>k. LedgerUpdate_zero\<lparr>lu_Id := ''delegation_backfill:'' @ k, lu_Owner := k, lu_Amount := amount_at edges k,
          lu_Asset := AssetDelegation, lu_Type := ''consensus_stake'', lu_BlockHeight := atHeight\<rparr>) keys @
      map (\<lambda>n. LedgerUpdate_zero\<lparr>lu_Id := ''delegation_backfill_total:'' @ n, lu_Owner := n, lu_Amount := amount_at totals n,
          lu_Asset := AssetDelegationTotal, lu_Type := ''consensus_stake'', lu_BlockHeight := atHeight\<rparr>) (sort (map fst totals)))"

definition delegationMigrationAccount :: string where
  "delegationMigrationAccount = ''system:delegation_migration''"

definition delegationMigrationAsset :: string where
  "delegationMigrationAsset = ''delegation_migration''"

definition delegationMigrationMarkerID :: string where
  "delegationMigrationMarkerID = ''delegation_migration_done''"

lemmas migration_names = delegationMigrationAccount_def delegationMigrationAsset_def delegationMigrationMarkerID_def

definition migration_marker :: "uint64 \<Rightarrow> LedgerRecord" where
  "migration_marker blockHeight = LedgerRecord_zero\<lparr>lr_Id := delegationMigrationMarkerID,
     lr_Owner := delegationMigrationAccount, lr_Amount := blockHeight, lr_Asset := delegationMigrationAsset,
     lr_Type := delegationMigrationAsset, lr_BlockHeight := blockHeight\<rparr>"

definition migration_row :: "LedgerUpdate \<Rightarrow> LedgerRecord" where
  "migration_row e = LedgerRecord_zero\<lparr>lr_Id := lu_Id e, lr_Owner := lu_Owner e, lr_Amount := lu_Amount e,
     lr_Asset := lu_Asset e, lr_Type := lu_Type e, lr_BlockHeight := lu_BlockHeight e\<rparr>"

definition MigrateDelegationEdgesOnce :: "ledgerSystem \<Rightarrow> uint64 \<Rightarrow> dbs \<Rightarrow> nat ledger_call" where
  "MigrateDelegationEdgesOnce ls blockHeight s =
     (case sy_LedgerDb ls of
        None \<Rightarrow> Some (0, s)
      | Some L \<Rightarrow> do {
          (marker, s) \<leftarrow> blockingLedgerRead (GetLedgerRange L delegationMigrationAccount 0 blockHeight delegationMigrationAsset []) s;
          if marker \<noteq> None \<and> the marker \<noteq> [] then Some (0, s)
          else do {
            (records, s) \<leftarrow> blockingLedgerRead (GetLedgerRecordsByType L [''consensus_stake'', ''consensus_unstake''] blockHeight) s;
            let edges = BackfillDelegationEdges records blockHeight;
            let seeded = length (filter (\<lambda>e. lu_Asset e = AssetDelegation) edges);
            (_, s) \<leftarrow> blockingLedgerRead (StoreLedger L (map migration_row edges @ [migration_marker blockHeight])) s;
            Some (seeded, s)
          }
        })"

end
