(* ===== verification/Settlement_Apply.thy ===== *)
theory Settlement_Apply
  imports Settlement Delegation
begin

text \<open>
  Applying a settlement (modules/state-processing/pendulum_settlement.go and the settlement part of the
  election handler in system_txs.go): the marker of the last settled epoch, the structural validation of a
  record, its re-derivation from the chain's own data, and the payment of its entries.

  The markers are a collection of their own, with their own schedule of faults. The election that is
  active at a height, the evidence of a tick (\<open>buildTickInputs\<close>), the delegation mode of a node and the
  DAG-CBOR encoding of a record, which is the work of encoding/json and a third-party codec, are fields of
  the engine. Fields that may be nil are options.
\<close>

section \<open>Markers\<close>

record SettlementMarker =
  mk_Epoch :: uint64
  mk_BlockHeight :: uint64
  mk_SnapshotRangeFrom :: uint64
  mk_SnapshotRangeTo :: uint64
  mk_TotalDistributedHBD :: int64
  mk_ResidualHBD :: int64

type_synonym marker_db = "SettlementMarker list server"

definition newest_marker :: "SettlementMarker \<Rightarrow> SettlementMarker \<Rightarrow> bool" where
  "newest_marker a b \<longleftrightarrow> mk_Epoch b \<le> mk_Epoch a"

definition SaveMarker :: "SettlementMarker collection \<Rightarrow> SettlementMarker \<Rightarrow> marker_db \<Rightarrow> (db_error + unit) \<times> marker_db" where
  "SaveMarker M rec = db_write (Upsert M (\<lambda>d. mk_Epoch d = mk_Epoch rec) rec)"

definition db_GetLatestSettledEpoch :: "SettlementMarker collection \<Rightarrow> marker_db \<Rightarrow> (uint64 \<times> bool) \<times> marker_db" where
  "db_GetLatestSettledEpoch M ms =
     (case db_read (FindOne M (\<lambda>_. True) newest_marker) ms of
        (Inr (Some r), ms) \<Rightarrow> ((mk_Epoch r, True), ms)
      | (_, ms) \<Rightarrow> ((0, False), ms))"

definition GetMarker :: "SettlementMarker collection \<Rightarrow> uint64 \<Rightarrow> marker_db \<Rightarrow> (db_error + SettlementMarker option) \<times> marker_db" where
  "GetMarker M epoch = db_read (FindOne M (\<lambda>d. mk_Epoch d = epoch) (\<lambda>_ _. True))"

section \<open>The engine\<close>

record settlement_engine =
  pe_LedgerSystem :: "ledgerSystem option"
  pe_Settlements :: "SettlementMarker collection option"
  pe_Elections :: "(uint64 \<Rightarrow> db_error + string list) option"
  pe_BalanceDb :: "BalanceRecord collection option"
  pe_OnTestnet :: bool
  pe_TickInputs :: "uint64 \<Rightarrow> TickInputs"
  pe_DelegationMode :: "string \<Rightarrow> uint64 \<Rightarrow> string"
  pe_Encode :: "SettlementRecord \<Rightarrow> string"

definition GetLatestSettledEpoch :: "settlement_engine \<Rightarrow> marker_db \<Rightarrow> uint64 \<times> marker_db" where
  "GetLatestSettledEpoch se ms =
     (case pe_Settlements se of
        None \<Rightarrow> (0, ms)
      | Some M \<Rightarrow> let ((epoch, _), ms) = db_GetLatestSettledEpoch M ms in (epoch, ms))"

definition seedPendulumSettlement :: "settlement_engine \<Rightarrow> uint64 \<Rightarrow> marker_db \<Rightarrow> marker_db" where
  "seedPendulumSettlement se seedEpoch ms =
     (case pe_Settlements se of
        None \<Rightarrow> ms
      | Some M \<Rightarrow>
          if seedEpoch = 0 then ms
          else let ((_, found), ms) = db_GetLatestSettledEpoch M ms in
            if found then ms
            else snd (SaveMarker M \<lparr>mk_Epoch = seedEpoch, mk_BlockHeight = 0, mk_SnapshotRangeFrom = 0, mk_SnapshotRangeTo = 0,
              mk_TotalDistributedHBD = 0, mk_ResidualHBD = 0\<rparr> ms))"

definition hive_account :: "string \<Rightarrow> string" where
  "hive_account acct = (if \<not> HasPrefix acct ''hive:'' then ''hive:'' @ acct else acct)"

definition TickInputsForRange :: "settlement_engine \<Rightarrow> uint64 \<Rightarrow> TickInputs option" where
  "TickInputsForRange se tickHeight =
     (let i = pe_TickInputs se tickHeight in if ti_Committee i = [] then None else Some i)"

definition DefaultTickIntervalBlocks :: uint64 where
  "DefaultTickIntervalBlocks = 100"

definition PendulumNodesBucketBalance :: "settlement_engine \<Rightarrow> uint64 \<Rightarrow> dbs \<Rightarrow> int64 ledger_call" where
  "PendulumNodesBucketBalance se blockHeight s =
     (case pe_LedgerSystem se of
        None \<Rightarrow> Some (0, s)
      | Some ls \<Rightarrow> PendulumBucketBalance ls PendulumNodesHBDBucket blockHeight s)"

section \<open>Validation\<close>

datatype settle_error =
    NegativeBucketBalance
  | NegativeTotal
  | TotalExceedsBucket
  | NegativeResidual
  | ConservationBroken
  | NegativeDistribution
  | SumMismatch
  | NoMembers
  | OutsiderPaid
  | OutsiderReduced

fun sum_distributions :: "DistributionEntry list \<Rightarrow> int64 \<Rightarrow> int64 option" where
  "sum_distributions [] acc = Some acc"
| "sum_distributions (d # ds) acc = (if sint (de_HBDAmt d) < 0 then None else sum_distributions ds (acc + de_HBDAmt d))"

definition validate_amounts :: "SettlementRecord \<Rightarrow> settle_error option" where
  "validate_amounts rec =
     (if sint (sr_BucketBalanceHBD rec) < 0 then Some NegativeBucketBalance
      else if sint (sr_TotalDistributedHBD rec) < 0 then Some NegativeTotal
      else if sint (sr_BucketBalanceHBD rec) < sint (sr_TotalDistributedHBD rec) then Some TotalExceedsBucket
      else if sint (sr_ResidualHBD rec) < 0 then Some NegativeResidual
      else if sr_TotalDistributedHBD rec + sr_ResidualHBD rec \<noteq> sr_BucketBalanceHBD rec then Some ConservationBroken
      else case sum_distributions (elems (sr_Distributions rec)) 0 of
             None \<Rightarrow> Some NegativeDistribution
           | Some paid \<Rightarrow> if paid \<noteq> sr_TotalDistributedHBD rec then Some SumMismatch else None)"

definition validate_members :: "string list \<Rightarrow> string list \<Rightarrow> SettlementRecord \<Rightarrow> settle_error option" where
  "validate_members members allowedDelegators rec =
     (if \<exists>d \<in> set (elems (sr_Distributions rec)). hive_account (de_Account d) \<notin> set members
          \<and> hive_account (de_Account d) \<notin> set allowedDelegators then Some OutsiderPaid
      else if \<exists>r \<in> set (elems (sr_RewardReductions rec)). hive_account (re_Account r) \<notin> set members then Some OutsiderReduced
      else None)"

definition validatePendulumSettlement :: "settlement_engine \<Rightarrow> SettlementRecord \<Rightarrow> dbs \<Rightarrow> settle_error option \<times> dbs" where
  "validatePendulumSettlement se rec s =
     (case validate_amounts rec of
        Some e \<Rightarrow> (Some e, s)
      | None \<Rightarrow>
          (case pe_Elections se of
             None \<Rightarrow> (None, s)
           | Some electionAt \<Rightarrow>
               (case electionAt (sr_SnapshotRangeTo rec) of
                  Inl e \<Rightarrow> (None, s)
                | Inr elected \<Rightarrow>
                    if elected = [] then (Some NoMembers, s)
                    else let members = map hive_account elected;
                             (shareDelegations, s) = PendulumShareDelegations (pe_LedgerSystem se) (pe_DelegationMode se)
                               members (sr_SnapshotRangeTo rec) s;
                             allowedDelegators = concat (map (\<lambda>(_, edges). map fst edges)
                               (case shareDelegations of None \<Rightarrow> [] | Some m \<Rightarrow> m))
                         in (validate_members members allowedDelegators rec, s))))"

section \<open>Re-derivation\<close>

text \<open>\<open>None\<close>: it could not run. \<open>Some b\<close>: it ran, and \<open>b\<close> tells whether the encodings agree.\<close>

definition rederivePendulumSettlement :: "settlement_engine \<Rightarrow> SettlementRecord \<Rightarrow> dbs \<Rightarrow> bool option ledger_call" where
  "rederivePendulumSettlement se rec s =
     (case (pe_Elections se, pe_BalanceDb se, pe_LedgerSystem se) of
        (Some electionAt, Some B, Some ls) \<Rightarrow>
          (case electionAt (sr_SnapshotRangeTo rec) of
             Inl e \<Rightarrow> Some (None, s)
           | Inr elected \<Rightarrow>
               if elected = [] then Some (None, s)
               else let members = map hive_account elected in
                 (case ReadCommitteeBonds (Some B) members (sr_SnapshotRangeFrom rec) (sr_SnapshotRangeTo rec) s of
                    (Inl e, s) \<Rightarrow> Some (None, s)
                  | (Inr bonds, s) \<Rightarrow> do {
                      (bucket, s) \<leftarrow> PendulumBucketBalance ls PendulumNodesHBDBucket (sr_SnapshotRangeTo rec) s;
                      if sint bucket < 0 then Some (None, s)
                      else do {
                        reductions \<leftarrow> ComputeReductionsForEpoch (Some (TickInputsForRange se)) (sr_SnapshotRangeFrom rec)
                          (sr_SnapshotRangeTo rec) DefaultTickIntervalBlocks;
                        case PendulumShareDelegations (Some ls) (pe_DelegationMode se) members (sr_SnapshotRangeTo rec) s of
                          (None, s) \<Rightarrow> Some (None, s)
                        | (Some shareDelegations, s) \<Rightarrow>
                            (case ComposeRecord \<lparr>ci_Epoch = sr_Epoch rec, ci_PrevEpoch = sr_PrevEpoch rec,
                                 ci_EpochStartBh = sr_SnapshotRangeFrom rec, ci_SlotHeight = sr_SnapshotRangeTo rec,
                                 ci_CommitteeBonds = bonds, ci_BucketBalanceHBD = bucket, ci_ReductionsByAccount = reductions,
                                 ci_ShareDelegations = shareDelegations\<rparr> of
                               Inl e \<Rightarrow> Some (None, s)
                             | Inr expected \<Rightarrow> Some (Some (pe_Encode se expected = pe_Encode se rec), s))
                      }
                    }))
      | _ \<Rightarrow> Some (None, s))"

section \<open>Application\<close>

definition uintToDecString :: "uint64 \<Rightarrow> string" where
  "uintToDecString v = FormatUint v"

definition pendulumSettlementTxID :: "uint64 \<Rightarrow> string" where
  "pendulumSettlementTxID epoch = ''pendulum:settlement:'' @ uintToDecString epoch"

text \<open>The loop over the entries; its result tells whether a distribution failed.\<close>

fun distribute_all :: "ledgerSystem \<Rightarrow> string \<Rightarrow> uint64 \<Rightarrow> DistributionEntry list \<Rightarrow> dbs \<Rightarrow> bool ledger_call" where
  "distribute_all ls txID blockHeight [] s = Some (False, s)"
| "distribute_all ls txID blockHeight (d # ds) s =
     (if sint (de_HBDAmt d) \<le> 0 then distribute_all ls txID blockHeight ds s
      else do {
        let acct = hive_account (de_Account d);
        (res, s) \<leftarrow> PendulumDistribute ls acct (de_HBDAmt d) (txID @ ''#'' @ acct) blockHeight s;
        (failed, s) \<leftarrow> distribute_all ls txID blockHeight ds s;
        Some (\<not> Ok res \<or> failed, s)
      })"

definition testnetReplayNoRederiveBelowHeight :: uint64 where
  "testnetReplayNoRederiveBelowHeight = 4769770"

definition settlement_marker :: "SettlementRecord \<Rightarrow> uint64 \<Rightarrow> SettlementMarker" where
  "settlement_marker rec blockHeight = \<lparr>mk_Epoch = sr_Epoch rec, mk_BlockHeight = blockHeight,
     mk_SnapshotRangeFrom = sr_SnapshotRangeFrom rec, mk_SnapshotRangeTo = sr_SnapshotRangeTo rec,
     mk_TotalDistributedHBD = sr_TotalDistributedHBD rec, mk_ResidualHBD = sr_ResidualHBD rec\<rparr>"

definition pay_settlement ::
  "ledgerSystem \<Rightarrow> SettlementMarker collection \<Rightarrow> SettlementRecord \<Rightarrow> uint64 \<Rightarrow> dbs \<Rightarrow> marker_db \<Rightarrow> (dbs \<times> marker_db) option" where
  "pay_settlement ls M rec blockHeight s ms = do {
     (distributeFailed, s) \<leftarrow> distribute_all ls (pendulumSettlementTxID (sr_Epoch rec)) blockHeight (elems (sr_Distributions rec)) s;
     if distributeFailed then Some (s, ms)
     else do {
       (remaining, s) \<leftarrow> PendulumBucketBalance ls PendulumNodesHBDBucket blockHeight s;
       Some (s, snd (SaveMarker M (settlement_marker rec blockHeight) ms))
     }
   }"

definition applyPendulumSettlement ::
  "settlement_engine \<Rightarrow> SettlementRecord \<Rightarrow> uint64 \<Rightarrow> dbs \<Rightarrow> marker_db \<Rightarrow> (dbs \<times> marker_db) option" where
  "applyPendulumSettlement se rec blockHeight s ms =
     (case (pe_LedgerSystem se, pe_Settlements se) of
        (Some ls, Some M) \<Rightarrow>
          (let (latest, ms) = GetLatestSettledEpoch se ms in
           if sr_Epoch rec \<le> latest then Some (s, ms)
           else if sr_PrevEpoch rec \<noteq> latest then Some (s, ms)
           else case validatePendulumSettlement se rec s of
             (Some e, s) \<Rightarrow> Some (s, ms)
           | (None, s) \<Rightarrow>
               if pe_OnTestnet se \<and> blockHeight < testnetReplayNoRederiveBelowHeight
               then pay_settlement ls M rec blockHeight s ms
               else do {
                 (derived, s) \<leftarrow> rederivePendulumSettlement se rec s;
                 if derived = Some False then Some (s, ms) else pay_settlement ls M rec blockHeight s ms
               })
      | _ \<Rightarrow> Some (s, ms))"

section \<open>The settlement part of the election handler\<close>

definition replay_marker :: "uint64 \<Rightarrow> uint64 \<Rightarrow> uint64 \<Rightarrow> uint64 \<Rightarrow> SettlementRecord" where
  "replay_marker txEpoch latest prevElectionHeight blockHeight =
     \<lparr>sr_Epoch = txEpoch - 1, sr_PrevEpoch = latest, sr_SnapshotRangeFrom = prevElectionHeight, sr_SnapshotRangeTo = blockHeight,
      sr_BucketBalanceHBD = 0, sr_TotalDistributedHBD = 0, sr_ResidualHBD = 0,
      sr_RewardReductions = Some [], sr_Distributions = Some []\<rparr>"

text \<open>The result tells whether the handler goes on to store the election.\<close>

definition settle_election ::
  "settlement_engine \<Rightarrow> uint64 \<Rightarrow> SettlementRecord option \<Rightarrow> uint64 \<Rightarrow> uint64 \<Rightarrow> dbs \<Rightarrow> marker_db \<Rightarrow> (bool \<times> dbs \<times> marker_db) option" where
  "settle_election se txEpoch settlement prevElectionHeight blockHeight s ms = do {
     (s, ms) \<leftarrow>
       (if 1 \<le> txEpoch then
          (case settlement of
             Some rec \<Rightarrow> applyPendulumSettlement se rec blockHeight s ms
           | None \<Rightarrow>
               if 2 \<le> txEpoch then
                 (let (latest, ms) = GetLatestSettledEpoch se ms in
                  if latest < txEpoch - 1 then
                    (let (latest, ms) = GetLatestSettledEpoch se ms in
                     applyPendulumSettlement se (replay_marker txEpoch latest prevElectionHeight blockHeight) blockHeight s ms)
                  else Some (s, ms))
               else Some (s, ms))
        else Some (s, ms));
     if 2 \<le> txEpoch then
       (let (latestSettled, ms) = GetLatestSettledEpoch se ms in Some (\<not> latestSettled < txEpoch - 1, s, ms))
     else Some (True, s, ms)
   }"

end
