(* ===== verification/Settlement_Spec.thy ===== *)
theory Settlement_Spec
  imports Settlement
begin

text \<open>
  What the settlement of an epoch promises. The amounts are read as integers: under the bound that the
  bonds of a committee sum to less than \<open>2 ^ 63\<close>, which the supply of the coin gives, no sum below wraps.
  The specification of a payout is \<open>node_payout\<close>; \<open>credited\<close> relates a map of amounts to the map after a
  payment, and every step of the code is shown to credit what the specification says.
\<close>

section \<open>Sums over maps\<close>

definition pos_sum :: "amounts \<Rightarrow> int" where
  "pos_sum m = (\<Sum>(k, v) \<leftarrow> m. max 0 (sint v))"

definition value_of :: "amounts \<Rightarrow> int" where
  "value_of m = (\<Sum>(k, v) \<leftarrow> m. sint v)"

lemma pos_sum_simps [simp]: "pos_sum [] = 0" "pos_sum ((k, v) # m) = max 0 (sint v) + pos_sum m"
  by (simp_all add: pos_sum_def)

lemma value_of_simps [simp]: "value_of [] = 0" "value_of ((k, v) # m) = sint v + value_of m"
  by (simp_all add: value_of_def)

lemma pos_sum_nonneg [simp]: "0 \<le> pos_sum m"
  by (auto simp: pos_sum_def intro!: sum_list_nonneg)

lemma positive_total_eq: "positive_total m = word_of_int (pos_sum m)"
proof -
  have "fold (\<lambda>(_, b) total. if 0 < sint b then total + b else total) m t = t + word_of_int (pos_sum m)" for t :: int64
    by (induction m arbitrary: t) (auto simp: max_def)
  from this [of 0] show ?thesis by (simp add: positive_total_def)
qed

lemma fits_i64: "0 \<le> x \<Longrightarrow> x \<le> i64_max \<Longrightarrow> fits_int64 x"
  by (simp add: fits_int64_def i64_min_def)

lemma sint_positive_total: "pos_sum m \<le> i64_max \<Longrightarrow> sint (positive_total m) = pos_sum m"
  by (simp add: positive_total_eq sint_of_fits fits_i64)

lemma map_of_pos_sum: "map_of m k = Some v \<Longrightarrow> max 0 (sint v) \<le> pos_sum m"
proof (induction m)
  case (Cons e m)
  then show ?case using pos_sum_nonneg [of m] by (cases e) (auto simp: max_def split: if_splits)
qed simp

lemma amount_at_le_pos_sum: "sint (amount_at m k) \<le> pos_sum m"
  using map_of_pos_sum [of m k] by (auto simp: amount_at_def split: option.split)

lemma amount_at_simps:
  "amount_at [] k = 0" "amount_at ((k', v) # m) k = (if k = k' then v else amount_at m k)"
  by (simp_all add: amount_at_def)

lemma map_amount_at: "distinct (map fst m) \<Longrightarrow> map (\<lambda>k. f k (amount_at m k)) (map fst m) = map (\<lambda>(k, v). f k v) m"
  by (auto simp: amount_at_def)

lemma sum_sorted_keys:
  fixes f :: "string \<Rightarrow> int64 \<Rightarrow> 'a :: comm_monoid_add"
  assumes "distinct (map fst m)"
  shows "(\<Sum>k \<leftarrow> sort (map fst m). f k (amount_at m k)) = (\<Sum>(k, v) \<leftarrow> m. f k v)"
proof -
  have "(\<Sum>k \<leftarrow> sort (map fst m). f k (amount_at m k)) = (\<Sum>k \<leftarrow> map fst m. f k (amount_at m k))"
    by (rule sum_list_mset_cong) simp
  then show ?thesis by (simp only: map_amount_at [OF assms])
qed

text \<open>Floors of shares that sum to the whole: they never exceed it and lose less than one unit each.\<close>

lemma floors_le:
  fixes n T :: int
  assumes "0 \<le> n" "0 < T" "list_all (\<lambda>v. 0 \<le> v) vs" "sum_list vs \<le> T"
  shows "(\<Sum>v \<leftarrow> vs. n * v div T) \<le> n"
proof -
  have "(\<Sum>v \<leftarrow> vs. n * v div T) * T \<le> n * sum_list vs"
  proof (induction vs)
    case (Cons v vs)
    have "n * v div T * T \<le> n * v"
      using pos_mod_sign [OF assms(2), of "n * v"] div_mult_mod_eq [of "n * v" T] by linarith
    with Cons show ?case by (simp add: algebra_simps)
  qed simp
  also have "\<dots> \<le> n * T" using assms by (intro mult_left_mono) auto
  finally show ?thesis using assms(2) by simp
qed

lemma floors_loss:
  assumes "0 < T" "sum_list vs = T"
  shows "n < (\<Sum>v \<leftarrow> vs. n * v div T) + int (length vs)"
proof -
  have "n * sum_list us < ((\<Sum>v \<leftarrow> us. n * v div T) + int (length us)) * T \<or> us = []" for us
  proof (induction us)
    case (Cons v us)
    have "n * v < (n * v div T + 1) * T"
      using pos_mod_bound [OF assms(1), of "n * v"] div_mult_mod_eq [of "n * v" T] unfolding distrib_right by linarith
    with Cons show ?case by (cases "us = []") (auto simp: algebra_simps)
  qed simp
  from this [of vs] assms show ?thesis by (auto simp: mult.commute)
qed

lemma floor_share_eq:
  assumes "0 \<le> sint a" "0 \<le> sint b" "sint b \<le> sint c" "0 < sint c"
  shows "\<exists>v. floor_share a b c = Some v \<and> sint v = sint a * sint b div sint c"
proof -
  let ?q = "quo (sint a * sint b) (sint c)"
  have q: "?q = sint a * sint b div sint c" using assms by simp
  have "0 \<le> ?q" "?q \<le> sint a" using quo_mult_le [of "sint a" "sint b" "sint c"] assms quo_bounds(1) by auto
  then have "fits_int64 ?q" using sint_bounds(2) [of a] by (auto intro!: fits_i64)
  moreover have "c \<noteq> 0" using assms(4) by auto
  ultimately show ?thesis using q by (simp add: floor_share_def MulDivFloorI64_def Let_def sint_of_fits)
qed

section \<open>Crediting a map\<close>

definition healthy :: "amounts \<Rightarrow> bool" where
  "healthy m \<longleftrightarrow> distinct (map fst m) \<and> (\<forall>(k, v) \<in> set m. 0 < sint v)"

definition credited :: "amounts \<Rightarrow> (string \<Rightarrow> int) \<Rightarrow> int \<Rightarrow> amounts \<Rightarrow> bool" where
  "credited m f t m' \<longleftrightarrow> healthy m' \<and> value_of m' = value_of m + t
     \<and> (\<forall>x. sint (amount_at m' x) = sint (amount_at m x) + f x)"

lemma credited_refl: "healthy m \<Longrightarrow> credited m (\<lambda>x. 0) 0 m"
  by (simp add: credited_def)

lemma credited_trans:
  "credited m f t m' \<Longrightarrow> credited m' g u m'' \<Longrightarrow> credited m (\<lambda>x. f x + g x) (t + u) m''"
  by (simp add: credited_def)

lemma healthy_value: "healthy m \<Longrightarrow> 0 \<le> value_of m \<and> sint (amount_at m k) \<le> value_of m"
proof (induction m)
  case (Cons e m)
  then show ?case by (cases e) (auto simp: healthy_def amount_at_simps)
qed (simp add: amount_at_simps)

lemma value_bump:
  "healthy m \<Longrightarrow> 0 < sint v \<Longrightarrow> value_of m + sint v \<le> i64_max \<Longrightarrow>
   value_of (bump k v m) = value_of m + sint v \<and> (\<forall>(k, v) \<in> set (bump k v m). 0 < sint v)"
proof (induction m)
  case (Cons e m)
  obtain k' w where e: "e = (k', w)" by (cases e)
  have m: "healthy m" "0 < sint w" using Cons.prems(1) by (auto simp: healthy_def e)
  have "0 \<le> value_of m" using healthy_value [OF m(1)] by simp
  with Cons.prems m(2) have "sint (w + v) = sint w + sint v"
    by (intro sint_add_fits fits_i64) (auto simp: e)
  then show ?case using Cons m by (auto simp: e healthy_def)
qed simp

lemma credited_add:
  assumes "healthy m" "0 \<le> sint v" "value_of m + sint v \<le> i64_max"
  shows "credited m (\<lambda>x. if x = k then sint v else 0) (sint v) (add_share k v m)"
proof (cases "v = 0")
  case True
  then show ?thesis using credited_refl [OF assms(1)] by (simp add: add_share_def credited_def)
next
  case False
  then have v: "0 < sint v" using assms(2) sint_inj [of v 0] by fastforce
  have at: "0 \<le> sint (amount_at m k)" "sint (amount_at m k) \<le> value_of m"
    using assms(1) healthy_value [OF assms(1), of k] by (auto simp: amount_at_def healthy_def split: option.split dest!: map_of_SomeD)
  then have "sint (amount_at m k + v) = sint (amount_at m k) + sint v"
    using assms by (intro sint_add_fits fits_i64) auto
  then show ?thesis
    using value_bump [OF assms(1) v assms(3)] assms(1) False
    by (auto simp: add_share_def credited_def healthy_def distinct_bump amount_at_bump)
qed

section \<open>The shares of a node's delegators\<close>

definition edges_of :: "(string \<times> amounts) list \<Rightarrow> string \<Rightarrow> amounts" where
  "edges_of share node = (case map_of share node of None \<Rightarrow> [] | Some es \<Rightarrow> es)"

text \<open>Edges with distinct delegators whose stakes do not overflow together.\<close>

definition edges_ok :: "amounts \<Rightarrow> bool" where
  "edges_ok es \<longleftrightarrow> distinct (map fst es) \<and> pos_sum es \<le> i64_max"

definition delegator_cut :: "int \<Rightarrow> amounts \<Rightarrow> string \<Rightarrow> int" where
  "delegator_cut n edges b = n * max 0 (sint (amount_at edges b)) div pos_sum edges"

text \<open>What a node's amount pays to an account: the floor of its stake's share, and the rest to the node.\<close>

definition node_payout :: "(string \<times> amounts) list \<Rightarrow> Distribution \<Rightarrow> string \<Rightarrow> int" where
  "node_payout share d a =
     (let n = sint (ds_Amount d); edges = edges_of share (ds_Account d) in
      delegator_cut n edges a +
      (if a = ds_Account d then n - (\<Sum>b \<leftarrow> map fst edges. delegator_cut n edges b) else 0))"

lemma delegator_cut_nonneg: "0 \<le> n \<Longrightarrow> 0 \<le> delegator_cut n edges b"
  using pos_sum_nonneg [of edges] by (cases "pos_sum edges = 0") (auto simp: delegator_cut_def order_less_le intro!: pos_imp_zdiv_nonneg_iff [THEN iffD2])

lemma cuts_le:
  assumes "0 \<le> n" "edges_ok edges"
  shows "(\<Sum>b \<leftarrow> map fst edges. delegator_cut n edges b) \<le> n"
proof (cases "pos_sum edges = 0")
  case True
  then show ?thesis using assms(1) by (simp add: delegator_cut_def comp_def)
next
  case False
  have "(\<Sum>b \<leftarrow> map fst edges. delegator_cut n edges b) = (\<Sum>v \<leftarrow> map (\<lambda>(k, v). max 0 (sint v)) edges. n * v div pos_sum edges)"
    using map_amount_at [of edges "\<lambda>k v. n * max 0 (sint v) div pos_sum edges"] assms(2)
    by (simp add: delegator_cut_def edges_ok_def comp_def case_prod_unfold cong: map_cong)
  also have "\<dots> \<le> n"
    using False assms(1) pos_sum_nonneg [of edges]
    by (intro floors_le) (auto simp: list_all_iff pos_sum_def)
  finally show ?thesis .
qed

lemma split_edges:
  assumes "0 \<le> sint n" "edges_ok edges" "0 < pos_sum edges"
  shows "healthy m \<Longrightarrow> distinct ks \<Longrightarrow> (\<forall>k \<in> set ks. 0 < sint (amount_at edges k)) \<Longrightarrow> 0 \<le> sint acc \<Longrightarrow>
    value_of m + (\<Sum>b \<leftarrow> ks. delegator_cut (sint n) edges b) \<le> i64_max \<Longrightarrow>
    sint acc + (\<Sum>b \<leftarrow> ks. delegator_cut (sint n) edges b) \<le> i64_max \<Longrightarrow>
    \<exists>m' acc'. fold (split_edge n edges (positive_total edges)) ks (m, acc) = (m', acc')
      \<and> credited m (\<lambda>x. if x \<in> set ks then delegator_cut (sint n) edges x else 0) (\<Sum>b \<leftarrow> ks. delegator_cut (sint n) edges b) m'
      \<and> sint acc' = sint acc + (\<Sum>b \<leftarrow> ks. delegator_cut (sint n) edges b)"
proof (induction ks arbitrary: m acc)
  case Nil
  then show ?case using credited_refl by simp
next
  case (Cons k ks)
  let ?c = "delegator_cut (sint n) edges" and ?rest = "\<Sum>b \<leftarrow> ks. delegator_cut (sint n) edges b"
  have T: "sint (positive_total edges) = pos_sum edges" using assms(2) by (simp add: sint_positive_total edges_ok_def)
  obtain v where v: "floor_share n (amount_at edges k) (positive_total edges) = Some v" "sint v = ?c k"
    using floor_share_eq [of n "amount_at edges k" "positive_total edges"] assms Cons.prems(3) amount_at_le_pos_sum [of edges k]
    by (auto simp: T delegator_cut_def)
  have c: "0 \<le> ?c k" "0 \<le> ?rest" using delegator_cut_nonneg assms(1) by (auto intro!: sum_list_nonneg)
  define m1 where "m1 = (if sint v \<le> 0 then m else add_share k v m)"
  define acc1 where "acc1 = (if sint v \<le> 0 then acc else acc + v)"
  have step: "split_edge n edges (positive_total edges) k (m, acc) = (m1, acc1)"
    by (simp add: split_edge_def v(1) m1_def acc1_def)
  have m1: "credited m (\<lambda>x. if x = k then ?c k else 0) (?c k) m1"
    using credited_add [of m v k] Cons.prems c v(2) credited_refl [OF Cons.prems(1)]
    by (auto simp: m1_def credited_def)
  have acc1: "sint acc1 = sint acc + ?c k"
    using Cons.prems c v(2) sint_add_fits [of acc v] fits_i64 [of "sint acc + ?c k"] by (auto simp: acc1_def)
  have "healthy m1" "value_of m1 = value_of m + ?c k" using m1 by (auto simp: credited_def)
  then obtain m' acc' where r: "fold (split_edge n edges (positive_total edges)) ks (m1, acc1) = (m', acc')"
      "credited m1 (\<lambda>x. if x \<in> set ks then ?c x else 0) ?rest m'" "sint acc' = sint acc1 + ?rest"
    using Cons.IH [of m1 acc1] Cons.prems acc1 c by auto
  have f: "(\<lambda>x. (if x = k then ?c k else 0) + (if x \<in> set ks then ?c x else 0)) = (\<lambda>x. if x \<in> set (k # ks) then ?c x else 0)"
    using Cons.prems(2) by auto
  show ?case using r credited_trans [OF m1 r(2)] step acc1 unfolding f by simp
qed

text \<open>The delegators whose stake counts are all that receive a cut.\<close>

lemma sum_positive_cuts:
  assumes "distinct (map fst edges)"
  shows "(\<Sum>b \<leftarrow> sort (map fst (filter (\<lambda>(_, st). 0 < sint st) edges)). delegator_cut n edges b) =
    (\<Sum>b \<leftarrow> map fst edges. delegator_cut n edges b)"
proof -
  have at: "amount_at edges k = v" if "(k, v) \<in> set edges" for k v
    using assms that by (simp add: amount_at_def)
  have "(\<Sum>b \<leftarrow> sort (map fst (filter (\<lambda>(_, st). 0 < sint st) edges)). delegator_cut n edges b) =
      (\<Sum>e \<leftarrow> filter (\<lambda>(_, st). 0 < sint st) edges. delegator_cut n edges (fst e))"
    by (subst sum_list_mset_cong [where ys = "map fst (filter (\<lambda>(_, st). 0 < sint st) edges)"]) (simp_all add: comp_def)
  also have "\<dots> = (\<Sum>e \<leftarrow> edges. delegator_cut n edges (fst e))"
    unfolding sum_list_map_filter'
    by (intro arg_cong [where f = sum_list] map_cong) (auto simp: delegator_cut_def max_def at split: if_splits)
  finally show ?thesis by (simp add: comp_def)
qed

lemma set_positive_edges:
  assumes "distinct (map fst edges)"
  shows "k \<in> set (map fst (filter (\<lambda>(_, st). 0 < sint st) edges)) \<longleftrightarrow> 0 < sint (amount_at edges k)"
proof (cases "map_of edges k")
  case None
  then have "k \<notin> fst ` set edges" by (simp add: map_of_eq_None_iff)
  with None show ?thesis by (force simp: amount_at_def)
next
  case (Some v)
  then have "(k, v') \<in> set edges \<longleftrightarrow> v' = v" for v'
    using assms eq_key_imp_eq_value [of edges k v' v] by (auto dest: map_of_SomeD)
  with Some show ?thesis by (force simp: amount_at_def)
qed

lemma expand_node_credits:
  assumes "healthy m" "0 \<le> sint (ds_Amount d)" "value_of m + sint (ds_Amount d) \<le> i64_max"
    and ok: "edges_ok (edges_of share (ds_Account d))"
  shows "credited m (node_payout share d) (sint (ds_Amount d)) (expand_node share d m)"
proof -
  let ?e = "edges_of share (ds_Account d)" and ?n = "ds_Amount d"
  let ?c = "delegator_cut (sint ?n) ?e" and ?S = "\<Sum>b \<leftarrow> map fst ?e. delegator_cut (sint ?n) ?e b"
  let ?ks = "sort (map fst (filter (\<lambda>(_, st). 0 < sint st) ?e))"
  have d: "distinct (map fst ?e)" using ok by (simp add: edges_ok_def)
  have T: "sint (positive_total ?e) = pos_sum ?e" using ok by (simp add: sint_positive_total edges_ok_def)
  show ?thesis
  proof (cases "sint ?n = 0 \<or> pos_sum ?e = 0")
    case True
    then have z: "?c = (\<lambda>b. 0)" by (auto simp: delegator_cut_def)
    have z0: "(\<Sum>b \<leftarrow> map fst ?e. (0 :: int)) = 0" by (simp add: comp_def)
    have "expand_node share d m = add_share (ds_Account d) ?n m"
      using True assms(2) T by (auto simp: expand_node_def edges_of_def Let_def)
    then show ?thesis using credited_add [OF assms(1-3), of "ds_Account d"] unfolding node_payout_def [abs_def] Let_def z z0 diff_0_right
      by simp
  next
    case False
    then have pos: "0 < sint ?n" "0 < pos_sum ?e" using assms(2) pos_sum_nonneg [of ?e] by (auto simp: order_less_le)
    have S: "(\<Sum>b \<leftarrow> ?ks. ?c b) = ?S" by (rule sum_positive_cuts [OF d])
    have le: "?S \<le> sint ?n" "0 \<le> ?S"
      using cuts_le [OF assms(2) ok] delegator_cut_nonneg [OF assms(2)] by (auto intro!: sum_list_nonneg)
    have dist: "distinct ?ks" using d by (simp add: distinct_map_filter)
    have ks: "\<forall>k \<in> set ?ks. 0 < sint (amount_at ?e k)" using set_positive_edges [OF d] by simp
    obtain m' acc where r: "fold (split_edge ?n ?e (positive_total ?e)) ?ks (m, 0) = (m', acc)"
        "credited m (\<lambda>x. if x \<in> set ?ks then ?c x else 0) ?S m'" "sint acc = ?S"
      using split_edges [OF assms(2) ok pos(2) assms(1) dist ks, of 0] S le assms(3) sint_bounds(2) [of ?n] by auto
    have cut: "(\<lambda>x. if x \<in> set ?ks then ?c x else 0) = ?c"
      using set_positive_edges [OF d] by (fastforce simp: delegator_cut_def max_def)
    have rest: "sint (?n - acc) = sint ?n - ?S" using r(3) le by (subst sint_debit) auto
    have m': "healthy m'" "value_of m' = value_of m + ?S" using r(2) by (auto simp: credited_def)
    have "?e \<noteq> []" using pos(2) by auto
    then have ex: "expand_node share d m = add_share (ds_Account d) (?n - acc) m'"
      using pos T r(1) by (simp add: expand_node_def edges_of_def [symmetric] Let_def)
    have "credited m' (\<lambda>x. if x = ds_Account d then sint ?n - ?S else 0) (sint ?n - ?S) (expand_node share d m)"
      using credited_add [OF m'(1), of "?n - acc" "ds_Account d"] le assms(3) m'(2) unfolding ex rest by simp
    then have "credited m (\<lambda>x. ?c x + (if x = ds_Account d then sint ?n - ?S else 0)) (?S + (sint ?n - ?S)) (expand_node share d m)"
      by (rule credited_trans [OF r(2) [unfolded cut]])
    then show ?thesis by (simp add: node_payout_def [abs_def] Let_def)
  qed
qed

lemma expand_credits:
  assumes "\<forall>d \<in> set ds. 0 \<le> sint (ds_Amount d) \<and> edges_ok (edges_of share (ds_Account d))"
  shows "healthy m \<Longrightarrow> value_of m + (\<Sum>d \<leftarrow> ds. sint (ds_Amount d)) \<le> i64_max \<Longrightarrow>
    credited m (\<lambda>a. \<Sum>d \<leftarrow> ds. node_payout share d a) (\<Sum>d \<leftarrow> ds. sint (ds_Amount d)) (fold (expand_node share) ds m)"
  using assms
proof (induction ds arbitrary: m)
  case Nil
  then show ?case using credited_refl by simp
next
  case (Cons d ds)
  have nn: "0 \<le> (\<Sum>d \<leftarrow> ds. sint (ds_Amount d))" using Cons.prems(3) by (auto intro!: sum_list_nonneg)
  have one: "credited m (node_payout share d) (sint (ds_Amount d)) (expand_node share d m)"
    using Cons.prems nn by (intro expand_node_credits) auto
  then have "healthy (expand_node share d m)" "value_of (expand_node share d m) = value_of m + sint (ds_Amount d)"
    by (auto simp: credited_def)
  then have "credited (expand_node share d m) (\<lambda>a. \<Sum>d \<leftarrow> ds. node_payout share d a) (\<Sum>d \<leftarrow> ds. sint (ds_Amount d))
      (fold (expand_node share) ds (expand_node share d m))"
    using Cons.prems by (intro Cons.IH) auto
  from credited_trans [OF one this] show ?case by simp
qed

section \<open>The expanded distributions\<close>

definition payouts_ok :: "(string \<times> amounts) list \<Rightarrow> Distribution list \<Rightarrow> bool" where
  "payouts_ok share ds \<longleftrightarrow> list_all (\<lambda>d. 0 \<le> sint (ds_Amount d) \<and> edges_ok (edges_of share (ds_Account d))) ds
     \<and> (\<Sum>d \<leftarrow> ds. sint (ds_Amount d)) \<le> i64_max"

lemma healthy_amount:
  assumes "healthy m"
  shows "0 \<le> sint (amount_at m k)" "0 < sint (amount_at m k) \<longleftrightarrow> k \<in> fst ` set m"
proof -
  have "0 < sint v" if "map_of m k = Some v" for v using assms that by (auto simp: healthy_def dest: map_of_SomeD)
  moreover have "map_of m k = None \<longleftrightarrow> k \<notin> fst ` set m" by (simp add: map_of_eq_None_iff)
  ultimately show "0 \<le> sint (amount_at m k)" "0 < sint (amount_at m k) \<longleftrightarrow> k \<in> fst ` set m"
    by (auto simp: amount_at_def split: option.splits)
qed

lemma expand_eq:
  assumes "payouts_ok share ds"
  obtains m where "ExpandShareDistributions ds share = map (\<lambda>a. \<lparr>ds_Account = a, ds_Amount = amount_at m a\<rparr>) (sort (map fst m))"
    and "healthy m" "\<And>a. sint (amount_at m a) = (\<Sum>d \<leftarrow> ds. node_payout share d a)"
    and "value_of m = (\<Sum>d \<leftarrow> ds. sint (ds_Amount d))"
proof (rule that [of "fold (expand_node share) ds []"])
  let ?m = "fold (expand_node share) ds []"
  have h: "healthy []" by (simp add: healthy_def)
  have c: "credited [] (\<lambda>a. \<Sum>d \<leftarrow> ds. node_payout share d a) (\<Sum>d \<leftarrow> ds. sint (ds_Amount d)) ?m"
    using assms by (intro expand_credits [OF _ h]) (auto simp: payouts_ok_def list_all_iff)
  then show "healthy ?m" "\<And>a. sint (amount_at ?m a) = (\<Sum>d \<leftarrow> ds. node_payout share d a)"
    "value_of ?m = (\<Sum>d \<leftarrow> ds. sint (ds_Amount d))"
    by (auto simp: credited_def amount_at_simps)
  have "List.map_filter (\<lambda>a. if sint (amount_at ?m a) \<le> 0 then None else Some \<lparr>ds_Account = a, ds_Amount = amount_at ?m a\<rparr>) ks =
      map (\<lambda>a. \<lparr>ds_Account = a, ds_Amount = amount_at ?m a\<rparr>) ks" if "set ks \<subseteq> fst ` set ?m" for ks
    using that healthy_amount(2) [OF \<open>healthy ?m\<close>] by (induction ks) (auto simp: List.map_filter_simps not_le)
  from this [of "sort (map fst ?m)"]
  show "ExpandShareDistributions ds share = map (\<lambda>a. \<lparr>ds_Account = a, ds_Amount = amount_at ?m a\<rparr>) (sort (map fst ?m))"
    by (simp add: ExpandShareDistributions_def Let_def)
qed

lemma sorted_distinct_keys: "distinct xs \<Longrightarrow> sorted_wrt (<) (sort xs)" for xs :: "string list"
  by (metis distinct_sort sorted_sort strict_sorted_iff)

text \<open>
  C13. The rewards of sharing nodes are divided exactly: every account receives, over all nodes, the floor of
  its stake's share in each node it delegates to, the node's own account also what the floors leave over,
  and nobody else anything; the entries are in strictly ascending account order with positive amounts, and
  their sum is the sum of what the nodes earned.
\<close>

theorem share_payouts_exact:
  assumes "payouts_ok share ds"
  shows "(\<Sum>d \<leftarrow> ExpandShareDistributions ds share. sint (ds_Amount d)) = (\<Sum>d \<leftarrow> ds. sint (ds_Amount d))
    \<and> sorted_wrt (<) (map ds_Account (ExpandShareDistributions ds share))
    \<and> (\<forall>a. map_of (map (\<lambda>d. (ds_Account d, sint (ds_Amount d))) (ExpandShareDistributions ds share)) a =
         (let pays = (\<Sum>d \<leftarrow> ds. node_payout share d a) in if pays \<le> 0 then None else Some pays))"
proof -
  obtain m where e: "ExpandShareDistributions ds share = map (\<lambda>a. \<lparr>ds_Account = a, ds_Amount = amount_at m a\<rparr>) (sort (map fst m))"
    and h: "healthy m" and at: "\<And>a. sint (amount_at m a) = (\<Sum>d \<leftarrow> ds. node_payout share d a)"
    and v: "value_of m = (\<Sum>d \<leftarrow> ds. sint (ds_Amount d))"
    using expand_eq [OF assms] by blast
  have d: "distinct (map fst m)" using h by (simp add: healthy_def)
  have "(\<Sum>d \<leftarrow> ExpandShareDistributions ds share. sint (ds_Amount d)) = value_of m"
    using sum_sorted_keys [OF d, of "\<lambda>k v. sint v"] by (simp add: e comp_def value_of_def)
  moreover have "sorted_wrt (<) (map ds_Account (ExpandShareDistributions ds share))"
    using sorted_distinct_keys [OF d] by (simp add: e comp_def)
  moreover have "map_of (map (\<lambda>d. (ds_Account d, sint (ds_Amount d))) (ExpandShareDistributions ds share)) a =
      (let pays = (\<Sum>d \<leftarrow> ds. node_payout share d a) in if pays \<le> 0 then None else Some pays)" for a
  proof -
    have "map_of (map (\<lambda>a. (a, sint (amount_at m a))) ks) a = (if a \<in> set ks then Some (sint (amount_at m a)) else None)" for ks
      by (induction ks) auto
    then have "map_of (map (\<lambda>d. (ds_Account d, sint (ds_Amount d))) (ExpandShareDistributions ds share)) a =
        (if a \<in> fst ` set m then Some (sint (amount_at m a)) else None)"
      by (simp add: e comp_def)
    then show ?thesis using healthy_amount(2) [OF h, of a] by (auto simp: at [symmetric] Let_def)
  qed
  ultimately show ?thesis using v by simp
qed

text \<open>A sharing node with two delegators and itself, and a node that keeps its reward.\<close>

definition example_share :: "(string \<times> amounts) list" where
  "example_share = [(''n1'', [(''d2'', 30), (''n1'', 50), (''d1'', 20)])]"

definition example_dists :: "Distribution list" where
  "example_dists = [\<lparr>ds_Account = ''n1'', ds_Amount = 101\<rparr>, \<lparr>ds_Account = ''n2'', ds_Amount = 40\<rparr>]"

theorem share_payouts_exact_witness:
  "map_of (map (\<lambda>d. (ds_Account d, sint (ds_Amount d))) (ExpandShareDistributions example_dists example_share)) ''n1'' = Some 51
   \<and> map_of (map (\<lambda>d. (ds_Account d, sint (ds_Amount d))) (ExpandShareDistributions example_dists example_share)) ''d2'' = Some 30"
proof -
  have "payouts_ok example_share example_dists"
    by (simp add: payouts_ok_def example_dists_def example_share_def edges_of_def edges_ok_def pos_sum_def i64_max_def)
  from share_payouts_exact [OF this]
  have all: "map_of (map (\<lambda>d. (ds_Account d, sint (ds_Amount d))) (ExpandShareDistributions example_dists example_share)) a =
      (let pays = (\<Sum>d \<leftarrow> example_dists. node_payout example_share d a) in if pays \<le> 0 then None else Some pays)" for a
    by blast
  show ?thesis
    unfolding all by (simp add: example_dists_def example_share_def node_payout_def delegator_cut_def edges_of_def amount_at_def)
qed

section \<open>The distribution to the nodes\<close>

definition bonds_ok :: "amounts \<Rightarrow> bool" where
  "bonds_ok m \<longleftrightarrow> distinct (map fst m) \<and> list_all (\<lambda>(k, v). 0 \<le> sint v) m \<and> pos_sum m \<le> i64_max"

lemma pos_sum_keys: "distinct (map fst m) \<Longrightarrow> pos_sum m = (\<Sum>k \<leftarrow> map fst m. max 0 (sint (amount_at m k)))"
  unfolding pos_sum_def by (simp only: map_amount_at [of m "\<lambda>k v. max 0 (sint v)"])

lemma node_distributions:
  assumes "0 < sint n" "distinct (map fst m)" "pos_sum m \<le> i64_max" "0 < pos_sum m"
  shows "(\<Sum>d \<leftarrow> ComputeNodeDistributions n m. sint (ds_Amount d)) = (\<Sum>v \<leftarrow> map (\<lambda>(k, v). max 0 (sint v)) m. sint n * v div pos_sum m)"
    and "\<forall>d \<in> set (ComputeNodeDistributions n m). 0 \<le> sint (ds_Amount d)"
proof -
  let ?f = "\<lambda>account. let stake = amount_at m account in
    if sint stake \<le> 0 then None
    else map_option (\<lambda>amount. \<lparr>ds_Account = account, ds_Amount = amount\<rparr>) (floor_share n stake (positive_total m))"
  let ?g = "\<lambda>k v. sint n * max 0 (sint v) div pos_sum m"
  have T: "sint (positive_total m) = pos_sum m" by (rule sint_positive_total [OF assms(3)])
  have "m \<noteq> []" using assms(4) by auto
  then have eq: "ComputeNodeDistributions n m = List.map_filter ?f (sort (map fst m))"
    using assms(1,4) T by (simp add: ComputeNodeDistributions_def Let_def)
  have floor: "(\<exists>v. ?f k = Some \<lparr>ds_Account = k, ds_Amount = v\<rparr> \<and> sint v = ?g k (amount_at m k) \<and> 0 \<le> sint v)
      \<or> ?f k = None \<and> ?g k (amount_at m k) = 0" for k
  proof (cases "0 < sint (amount_at m k)")
    case True
    then show ?thesis
      using floor_share_eq [of n "amount_at m k" "positive_total m"] assms(1,4) amount_at_le_pos_sum [of m k]
      by (auto simp: T pos_imp_zdiv_nonneg_iff max_def)
  qed (simp add: max_def)
  have "(\<Sum>d \<leftarrow> List.map_filter ?f ks. sint (ds_Amount d)) = (\<Sum>k \<leftarrow> ks. ?g k (amount_at m k))
      \<and> (\<forall>d \<in> set (List.map_filter ?f ks). 0 \<le> sint (ds_Amount d))" for ks
  proof (induction ks)
    case (Cons k ks)
    then show ?case using floor [of k] by (auto simp: List.map_filter_simps)
  qed (simp add: List.map_filter_simps)
  from this [of "sort (map fst m)"] show
    "(\<Sum>d \<leftarrow> ComputeNodeDistributions n m. sint (ds_Amount d)) = (\<Sum>v \<leftarrow> map (\<lambda>(k, v). max 0 (sint v)) m. sint n * v div pos_sum m)"
    "\<forall>d \<in> set (ComputeNodeDistributions n m). 0 \<le> sint (ds_Amount d)"
    using sum_sorted_keys [OF assms(2), of ?g] unfolding eq by (simp_all add: comp_def case_prod_unfold)
qed

section \<open>Reductions\<close>

definition reduced :: "amounts \<Rightarrow> amounts \<Rightarrow> bool" where
  "reduced m m' \<longleftrightarrow> map fst m' = map fst m \<and> (\<forall>k. 0 \<le> sint (amount_at m' k) \<and> sint (amount_at m' k) \<le> sint (amount_at m k))"

lemma amount_at_update: "amount_at (AList.update k v m) x = (if x = k then v else amount_at m x)"
  by (simp add: amount_at_def update_conv')

lemma reduce_bond_reduces:
  assumes "reduced m (fst st)"
  shows "reduced m (fst (reduce_bond bps acc st))"
proof -
  obtain out applied where st: "st = (out, applied)" by (cases st)
  let ?k = "normalizeHiveAccount acc" and ?b = "amount_at bps acc"
  let ?o = "amount_at out ?k" and ?b' = "if sint PerEpochCapBps < sint ?b then PerEpochCapBps else ?b"
  show ?thesis
  proof (cases "sint ?o \<le> 0 \<or> sint ?b \<le> 0")
    case True
    then show ?thesis using assms by (auto simp: reduce_bond_def st Let_def)
  next
    case False
    then have b': "0 \<le> sint ?o" "0 \<le> sint ?b'" "sint ?b' \<le> sint BpsScale" "0 < sint BpsScale"
      by (auto simp: PerEpochCapBps_def BpsScale_def)
    obtain r where r: "floor_share ?o ?b' BpsScale = Some r" "sint r = sint ?o * sint ?b' div 10000"
      using floor_share_eq [OF b'] by (auto simp only: BpsScale_def) simp
    have "sint ?o * sint ?b' div 10000 \<le> sint ?o" "0 \<le> sint ?o * sint ?b' div 10000"
      using b' quo_mult_le [of "sint ?o" "sint ?b'" 10000] by (simp_all add: BpsScale_def pos_imp_zdiv_nonneg_iff)
    then have le: "0 \<le> sint r" "sint r \<le> sint ?o" using r(2) by auto
    then have eff: "sint (?o - r) = sint ?o - sint r" by (rule sint_debit)
    have key: "?k \<in> fst ` set out"
      using False map_of_eq_None_iff [of out ?k] by (cases "map_of out ?k") (auto simp: amount_at_def)
    have "fst (reduce_bond bps acc st) = AList.update ?k (?o - r) out"
      using False r(1) le eff by (simp add: reduce_bond_def st Let_def)
    moreover have "reduced m (AList.update ?k (?o - r) out)"
    proof -
      have out: "map fst out = map fst m" "sint (amount_at out k) \<le> sint (amount_at m k)" "0 \<le> sint (amount_at out k)" for k
        using assms by (auto simp: reduced_def st)
      have "map fst (AList.update ?k (?o - r) out) = map fst out" using key by (simp add: update_keys)
      moreover have "sint ?o - sint r \<le> sint (amount_at m ?k)" using out(2) [of ?k] le(1) by linarith
      ultimately show ?thesis using out le(2) eff by (simp add: reduced_def amount_at_update)
    qed
    ultimately show ?thesis by simp
  qed
qed

lemma reductions_reduce:
  assumes "bonds_ok m"
  shows "reduced m (fst (ApplyRewardReductionsToBonds m bps))"
proof -
  have "0 \<le> sint (amount_at m k)" for k
    using assms by (auto simp: amount_at_def bonds_ok_def list_all_iff split: option.split dest: map_of_SomeD)
  then have "reduced m (fst (m, []))" by (simp add: reduced_def)
  moreover have "reduced m (fst st) \<Longrightarrow> reduced m (fst (fold (reduce_bond bps) ks st))" for ks st
    by (induction ks arbitrary: st) (simp_all add: reduce_bond_reduces)
  ultimately show ?thesis unfolding ApplyRewardReductionsToBonds_def by blast
qed

lemma reduced_bonds_ok:
  assumes "bonds_ok m" "reduced m m'"
  shows "bonds_ok m'" "pos_sum m' \<le> pos_sum m"
proof -
  have d: "distinct (map fst m)" "distinct (map fst m')" using assms by (auto simp: bonds_ok_def reduced_def)
  have le: "(\<Sum>k \<leftarrow> map fst m. max 0 (sint (amount_at m' k))) \<le> (\<Sum>k \<leftarrow> map fst m. max 0 (sint (amount_at m k)))"
    using assms(2) unfolding reduced_def by (intro sum_list_mono max.mono) simp_all
  then show "pos_sum m' \<le> pos_sum m"
    using assms(2) unfolding pos_sum_keys [OF d(1)] pos_sum_keys [OF d(2)] by (simp only: reduced_def)
  have "0 \<le> sint v" if "(k, v) \<in> set m'" for k v
  proof -
    have "amount_at m' k = v" using d(2) that by (simp add: amount_at_def)
    then show ?thesis using assms(2) by (auto simp: reduced_def)
  qed
  then show "bonds_ok m'"
    using \<open>pos_sum m' \<le> pos_sum m\<close> assms(1) d by (auto simp: bonds_ok_def list_all_iff)
qed

lemma word_sum: "sum_list (map f xs) = (word_of_int (\<Sum>x \<leftarrow> xs. sint (f x)) :: int64)"
  by (induction xs) simp_all

lemma value_pos_sum: "list_all (\<lambda>(k, v). 0 \<le> sint v) m \<Longrightarrow> value_of m = pos_sum m"
  by (induction m) auto

lemma sint_effective_total:
  assumes "bonds_ok m"
  shows "sint (sum_list (map snd m)) = pos_sum m"
proof -
  have "(\<Sum>x \<leftarrow> m. sint (snd x)) = pos_sum m"
    using value_pos_sum assms by (simp add: bonds_ok_def value_of_def case_prod_unfold)
  then show ?thesis using assms by (simp add: word_sum sint_of_fits fits_i64 bonds_ok_def)
qed

section \<open>The composed record\<close>

definition share_ok :: "(string \<times> amounts) list \<Rightarrow> bool" where
  "share_ok share \<longleftrightarrow> list_all (\<lambda>(node, es). edges_ok es) share"

lemma edges_of_ok: "share_ok share \<Longrightarrow> edges_ok (edges_of share node)"
  by (auto simp: edges_of_def share_ok_def list_all_iff edges_ok_def i64_max_def split: option.split dest: map_of_SomeD)

lemma elems_slice [simp]: "elems (slice xs) = xs"
  by (simp add: elems_def slice_def)

lemma sort_payload: "sorted_wrt (<) (map f xs) \<Longrightarrow> sort_key f xs = xs" for f :: "'a \<Rightarrow> string"
  by (metis sort_key_id_if_sorted strict_sorted_iff)

text \<open>The distributions of a settlement with a positive effective bond.\<close>

lemma settle_distributions:
  assumes "0 < sint n" "bonds_ok m" "0 < pos_sum m" "share_ok share"
  defines "ds \<equiv> ExpandShareDistributions (ComputeNodeDistributions n m) share"
  shows "sorted_wrt (<) (map ds_Account ds)" "\<forall>d \<in> set ds. 0 < sint (ds_Amount d)"
    and "(\<Sum>d \<leftarrow> ds. sint (ds_Amount d)) \<le> sint n" "sint n < (\<Sum>d \<leftarrow> ds. sint (ds_Amount d)) + int (length m)"
proof -
  let ?nd = "ComputeNodeDistributions n m" and ?vs = "map (\<lambda>(k, v). max 0 (sint v)) m"
  have m: "distinct (map fst m)" "pos_sum m \<le> i64_max" using assms(2) by (auto simp: bonds_ok_def)
  note nd = node_distributions [OF assms(1) m assms(3)]
  have vs: "list_all (\<lambda>v. 0 \<le> v) ?vs" "sum_list ?vs = pos_sum m" by (auto simp: list_all_iff pos_sum_def)
  have le: "(\<Sum>d \<leftarrow> ?nd. sint (ds_Amount d)) \<le> sint n"
    using floors_le [of "sint n" "pos_sum m" ?vs] vs assms(1,3) unfolding nd(1) by simp
  have ok: "payouts_ok share ?nd"
    using nd(2) edges_of_ok [OF assms(4)] le sint_bounds(2) [of n] by (simp add: payouts_ok_def list_all_iff)
  obtain mm where e: "ds = map (\<lambda>a. \<lparr>ds_Account = a, ds_Amount = amount_at mm a\<rparr>) (sort (map fst mm))"
    and h: "healthy mm" and v: "value_of mm = (\<Sum>d \<leftarrow> ?nd. sint (ds_Amount d))"
    using expand_eq [OF ok] unfolding ds_def by blast
  have d: "distinct (map fst mm)" using h by (simp add: healthy_def)
  have s: "(\<Sum>d \<leftarrow> ds. sint (ds_Amount d)) = (\<Sum>d \<leftarrow> ?nd. sint (ds_Amount d))"
    using sum_sorted_keys [OF d, of "\<lambda>k v. sint v"] v by (simp add: e comp_def value_of_def)
  show "sorted_wrt (<) (map ds_Account ds)" using sorted_distinct_keys [OF d] by (simp add: e comp_def)
  show "\<forall>d \<in> set ds. 0 < sint (ds_Amount d)" using healthy_amount(2) [OF h] by (auto simp: e)
  show "(\<Sum>d \<leftarrow> ds. sint (ds_Amount d)) \<le> sint n" using le s by simp
  show "sint n < (\<Sum>d \<leftarrow> ds. sint (ds_Amount d)) + int (length m)"
    using floors_loss [OF assms(3) vs(2), of "sint n"] unfolding s nd(1) by simp
qed

text \<open>Inputs from which a record is composed: a real epoch and window, a bucket, and a committee with bonds.\<close>

definition compose_ok :: "ComposeInputs \<Rightarrow> bool" where
  "compose_ok i \<longleftrightarrow> ci_Epoch i \<noteq> 0 \<and> ci_EpochStartBh i < ci_SlotHeight i \<and> 0 \<le> sint (ci_BucketBalanceHBD i)
     \<and> ci_CommitteeBonds i \<noteq> [] \<and> bonds_ok (ci_CommitteeBonds i) \<and> share_ok (ci_ShareDelegations i)"

definition effective_bonds :: "ComposeInputs \<Rightarrow> amounts" where
  "effective_bonds i = fst (ApplyRewardReductionsToBonds (ci_CommitteeBonds i) (ci_ReductionsByAccount i))"

definition settled_dists :: "ComposeInputs \<Rightarrow> Distribution list" where
  "settled_dists i = ExpandShareDistributions (ComputeNodeDistributions (ci_BucketBalanceHBD i) (effective_bonds i)) (ci_ShareDelegations i)"

lemma compose_cases:
  assumes "compose_ok i"
  defines "payload \<equiv> reduction_payload (snd (ApplyRewardReductionsToBonds (ci_CommitteeBonds i) (ci_ReductionsByAccount i)))"
    and "build \<equiv> BuildSettlementRecord (ci_Epoch i) (ci_PrevEpoch i) (ci_EpochStartBh i) (ci_SlotHeight i)"
    and "b \<equiv> ci_BucketBalanceHBD i" and "es \<equiv> effective_bonds i"
  obtains (Empty) "b = 0" "ComposeRecord i = Inr (build 0 0 0 [] [])"
  | (Reduced) "0 < sint b" "pos_sum es = 0" "ComposeRecord i = Inr (build b 0 b payload [])"
  | (Paid) T where "0 < sint b" "0 < pos_sum es" "sint T = (\<Sum>d \<leftarrow> settled_dists i. sint (ds_Amount d))"
      "sint (b - T) = sint b - sint T" "0 \<le> sint (b - T)"
      "dist_payload (settled_dists i) = map (\<lambda>d. \<lparr>de_Account = ds_Account d, de_HBDAmt = ds_Amount d\<rparr>) (settled_dists i)"
      "ComposeRecord i = Inr (build b T (b - T) payload (dist_payload (settled_dists i)))"
proof -
  have ok: "bonds_ok (ci_CommitteeBonds i)" "share_ok (ci_ShareDelegations i)" "0 \<le> sint b"
    using assms(1) by (auto simp: compose_ok_def b_def)
  have es: "bonds_ok es" using reduced_bonds_ok(1) [OF ok(1) reductions_reduce [OF ok(1)]] by (simp add: es_def effective_bonds_def)
  note tot = sint_effective_total [OF es]
  note d = compose_ok_def ComposeRecord_def Let_def case_prod_unfold es_def effective_bonds_def b_def build_def payload_def
  consider "b = 0" | "0 < sint b" "pos_sum es = 0" | "0 < sint b" "0 < pos_sum es"
    using ok(3) pos_sum_nonneg [of es] sint_inj [of b 0] unfolding order_le_less by auto
  then show thesis
  proof cases
    case 1
    then show ?thesis using assms(1) by (intro Empty) (auto simp: d)
  next
    case 2
    then show ?thesis using assms(1) tot by (intro Reduced) (auto simp: d)
  next
    case 3
    note sd = settle_distributions [OF 3(1) es 3(2) ok(2)]
    define T where "T = sum_list (map de_HBDAmt (dist_payload (settled_dists i)))"
    have ds: "settled_dists i = ExpandShareDistributions (ComputeNodeDistributions b es) (ci_ShareDelegations i)"
      by (simp add: settled_dists_def b_def es_def)
    have p: "dist_payload (settled_dists i) = map (\<lambda>d. \<lparr>de_Account = ds_Account d, de_HBDAmt = ds_Amount d\<rparr>) (settled_dists i)"
      using sd(2) by (simp add: dist_payload_def ds filter_True)
    have nn: "0 \<le> (\<Sum>d \<leftarrow> settled_dists i. sint (ds_Amount d))"
      using sd(2) by (intro sum_list_nonneg) (auto simp: ds)
    have T: "sint T = (\<Sum>d \<leftarrow> settled_dists i. sint (ds_Amount d))"
      using sd(3) [folded ds] nn sint_bounds(2) [of b] unfolding T_def p
      by (simp add: word_sum comp_def sint_of_fits fits_i64)
    have r: "sint (b - T) = sint b - sint T" using T nn sd(3) by (intro sint_debit) (auto simp: ds)
    have "ComposeRecord i = Inr (build b T (b - T) payload (dist_payload (settled_dists i)))"
      using assms(1) 3 tot r T sd(3) unfolding ds T_def by (auto simp: d)
    then show ?thesis using 3 T r p sd(3) by (intro Paid) (auto simp: ds)
  qed
qed

text \<open>
  C6. A settlement conserves the node bucket. From well-formed inputs a record is always composed; what it
  distributes and what it leaves add up to the bucket, the entries are positive, in strictly ascending
  account order and sum to the stated total, and what is left is less than one unit per bonded node unless
  the reductions took every bond, in which case the whole bucket is left.
\<close>

theorem settlement_conserves:
  assumes "compose_ok i"
  shows "\<exists>rec. ComposeRecord i = Inr rec
    \<and> sint (sr_TotalDistributedHBD rec) + sint (sr_ResidualHBD rec) = sint (ci_BucketBalanceHBD i)
    \<and> 0 \<le> sint (sr_ResidualHBD rec)
    \<and> (\<Sum>d \<leftarrow> elems (sr_Distributions rec). sint (de_HBDAmt d)) = sint (sr_TotalDistributedHBD rec)
    \<and> sorted_wrt (<) (map de_Account (elems (sr_Distributions rec)))
    \<and> list_all (\<lambda>d. 0 < sint (de_HBDAmt d)) (elems (sr_Distributions rec))
    \<and> (sint (sr_ResidualHBD rec) < int (length (ci_CommitteeBonds i))
       \<or> pos_sum (effective_bonds i) = 0 \<and> sr_ResidualHBD rec = ci_BucketBalanceHBD i)"
  using assms
proof (cases rule: compose_cases)
  case Empty
  then show ?thesis using assms by (simp add: BuildSettlementRecord_def slice_def elems_def compose_ok_def)
next
  case Reduced
  then show ?thesis by (simp add: BuildSettlementRecord_def slice_def elems_def)
next
  case (Paid T)
  have ok: "bonds_ok (ci_CommitteeBonds i)" "share_ok (ci_ShareDelegations i)" using assms by (auto simp: compose_ok_def)
  note red = reductions_reduce [OF ok(1), of "ci_ReductionsByAccount i"]
  have es: "bonds_ok (effective_bonds i)" "length (effective_bonds i) = length (ci_CommitteeBonds i)"
    using reduced_bonds_ok(1) [OF ok(1) red] red unfolding effective_bonds_def reduced_def by (auto dest: map_eq_imp_length_eq)
  note sd = settle_distributions [OF Paid(1) es(1) Paid(2) ok(2), folded settled_dists_def]
  have srt: "sort_key de_Account (dist_payload (settled_dists i)) = dist_payload (settled_dists i)"
    using sd(1) by (intro sort_payload) (simp add: Paid(6) comp_def)
  show ?thesis
    using Paid(3,4,5,7) sd es(2) srt
    by (simp add: BuildSettlementRecord_def Paid(6) comp_def list_all_iff)
qed

definition example_inputs :: ComposeInputs where
  "example_inputs = \<lparr>ci_Epoch = 7, ci_PrevEpoch = 6, ci_EpochStartBh = 100, ci_SlotHeight = 1300,
     ci_CommitteeBonds = [(''hive:n1'', 100), (''hive:n2'', 50)], ci_BucketBalanceHBD = 101,
     ci_ReductionsByAccount = [(''n2'', 5000)],
     ci_ShareDelegations = [(''hive:n1'', [(''hive:d'', 30), (''hive:n1'', 70)])]\<rparr>"

lemma example_inputs_ok: "compose_ok example_inputs"
  by (simp add: compose_ok_def example_inputs_def bonds_ok_def share_ok_def edges_ok_def i64_max_def)

theorem settlement_conserves_witness:
  "\<exists>rec. ComposeRecord example_inputs = Inr rec \<and> sint (sr_TotalDistributedHBD rec) + sint (sr_ResidualHBD rec) = 101"
  using settlement_conserves [OF example_inputs_ok] by (auto simp: example_inputs_def)

section \<open>The order of map iteration\<close>

definition same_map :: "('k \<times> 'v) list \<Rightarrow> ('k \<times> 'v) list \<Rightarrow> bool" where
  "same_map m m' \<longleftrightarrow> distinct (map fst m) \<and> distinct (map fst m') \<and> map_of m = map_of m'"

lemma same_map_amount: "same_map m m' \<Longrightarrow> amount_at m = amount_at m'"
  by (simp add: same_map_def amount_at_def fun_eq_iff)

lemma same_map_entries: "same_map m m' \<Longrightarrow> set m = set m'"
  by (auto simp: same_map_def) (metis map_of_eq_Some_iff)+

lemma same_map_mset: "same_map m m' \<Longrightarrow> mset m = mset m'"
  using same_map_entries [of m m'] by (metis distinct_map same_map_def set_eq_iff_mset_eq_distinct)

lemma sort_cong_mset: "mset xs = mset ys \<Longrightarrow> sort xs = sort ys"
  by (metis sorted_list_of_multiset_mset)

lemma same_map_filter_keys: "same_map m m' \<Longrightarrow> sort (map fst (filter P m)) = sort (map fst (filter P m'))" for m :: "('k :: linorder \<times> 'v) list"
  by (rule sort_cong_mset) (simp add: same_map_mset mset_filter)

lemma same_map_keys: "same_map m m' \<Longrightarrow> sort (map fst m) = sort (map fst m')" for m :: "('k :: linorder \<times> 'v) list"
  by (rule sort_cong_mset) (simp add: same_map_mset)

lemma same_map_total: "same_map m m' \<Longrightarrow> positive_total m = positive_total m'"
  unfolding positive_total_eq pos_sum_def by (simp add: sum_list_mset_cong [OF same_map_mset])

lemma same_map_Nil: "same_map m m' \<Longrightarrow> m = [] \<longleftrightarrow> m' = []"
  using same_map_entries [of m m'] by (metis set_empty)

lemma same_map_update: "same_map m m' \<Longrightarrow> same_map (AList.update k v m) (AList.update k v m')"
  by (simp add: same_map_def update_conv' distinct_update)

lemmas same_map_facts = same_map_amount same_map_keys same_map_total same_map_Nil

lemma same_nodes: "same_map m m' \<Longrightarrow> ComputeNodeDistributions n m = ComputeNodeDistributions n m'"
  unfolding ComputeNodeDistributions_def Let_def using same_map_facts [of m m'] by (simp cong: if_cong)

lemma same_reductions:
  assumes "same_map m m'" "same_map bps bps'"
  shows "same_map (fst (ApplyRewardReductionsToBonds m bps)) (fst (ApplyRewardReductionsToBonds m' bps'))"
    and "snd (ApplyRewardReductionsToBonds m bps) = snd (ApplyRewardReductionsToBonds m' bps')"
proof -
  have step: "same_map (fst (reduce_bond bps a st)) (fst (reduce_bond bps' a st')) \<and>
      snd (reduce_bond bps a st) = snd (reduce_bond bps' a st')" if "same_map (fst st) (fst st') \<and> snd st = snd st'" for a st st'
    using that same_map_amount [of "fst st" "fst st'"] same_map_amount [OF assms(2)]
    by (auto simp: reduce_bond_def Let_def case_prod_unfold intro!: same_map_update)
  have "same_map (fst st) (fst st') \<and> snd st = snd st' \<Longrightarrow>
      same_map (fst (fold (reduce_bond bps) ks st)) (fst (fold (reduce_bond bps') ks st'))
      \<and> snd (fold (reduce_bond bps) ks st) = snd (fold (reduce_bond bps') ks st')" for ks st st'
    by (induction ks arbitrary: st st') (simp_all add: step)
  from this [of "(m, [])" "(m', [])" "sort (map fst bps)"] assms(1) same_map_keys [OF assms(2)]
  show "same_map (fst (ApplyRewardReductionsToBonds m bps)) (fst (ApplyRewardReductionsToBonds m' bps'))"
    and "snd (ApplyRewardReductionsToBonds m bps) = snd (ApplyRewardReductionsToBonds m' bps')"
    by (simp_all add: ApplyRewardReductionsToBonds_def)
qed

lemma same_expand:
  assumes "\<And>node. same_map (edges_of share node) (edges_of share' node)"
  shows "ExpandShareDistributions ds share = ExpandShareDistributions ds share'"
proof -
  have "expand_node share d m = expand_node share' d m" for d m
  proof -
    note e = assms [of "ds_Account d"]
    have "split_edge n (edges_of share (ds_Account d)) T = split_edge n (edges_of share' (ds_Account d)) T" for n T
      by (simp add: fun_eq_iff split_edge_def same_map_amount [OF e])
    then show ?thesis
      using same_map_Nil [OF e] same_map_total [OF e] same_map_filter_keys [OF e]
      by (simp add: expand_node_def edges_of_def [symmetric] Let_def)
  qed
  then have "expand_node share = expand_node share'" by blast
  then show ?thesis by (simp add: ExpandShareDistributions_def)
qed

definition same_inputs :: "ComposeInputs \<Rightarrow> ComposeInputs \<Rightarrow> bool" where
  "same_inputs i j \<longleftrightarrow> ci_Epoch i = ci_Epoch j \<and> ci_PrevEpoch i = ci_PrevEpoch j \<and> ci_EpochStartBh i = ci_EpochStartBh j
     \<and> ci_SlotHeight i = ci_SlotHeight j \<and> ci_BucketBalanceHBD i = ci_BucketBalanceHBD j
     \<and> same_map (ci_CommitteeBonds i) (ci_CommitteeBonds j) \<and> same_map (ci_ReductionsByAccount i) (ci_ReductionsByAccount j)
     \<and> (\<forall>node. same_map (edges_of (ci_ShareDelegations i) node) (edges_of (ci_ShareDelegations j) node))"

text \<open>
  C18. The record does not depend on the order in which the maps of bonds, reductions and delegations are
  visited: nodes that hold the same maps compose the same record, or fail with the same error.
\<close>

theorem settlement_deterministic:
  assumes "same_inputs i j"
  shows "ComposeRecord i = ComposeRecord j"
proof -
  have b: "same_map (ci_CommitteeBonds i) (ci_CommitteeBonds j)" and r: "same_map (ci_ReductionsByAccount i) (ci_ReductionsByAccount j)"
    and s: "\<And>node. same_map (edges_of (ci_ShareDelegations i) node) (edges_of (ci_ShareDelegations j) node)"
    using assms by (auto simp: same_inputs_def)
  note red = same_reductions [OF b r]
  have "sum_list (map snd (fst (ApplyRewardReductionsToBonds (ci_CommitteeBonds i) (ci_ReductionsByAccount i)))) =
      sum_list (map snd (fst (ApplyRewardReductionsToBonds (ci_CommitteeBonds j) (ci_ReductionsByAccount j))))"
    by (rule sum_list_mset_cong [OF same_map_mset [OF red(1)]])
  then show ?thesis
    using assms same_nodes [OF red(1)] same_expand [OF s] red(2) same_map_Nil [OF b]
    by (simp add: ComposeRecord_def Let_def case_prod_unfold same_inputs_def)
qed

theorem settlement_deterministic_witness:
  "ComposeRecord example_inputs = ComposeRecord (example_inputs\<lparr>ci_CommitteeBonds := [(''hive:n2'', 50), (''hive:n1'', 100)],
     ci_ShareDelegations := [(''hive:n1'', [(''hive:n1'', 70), (''hive:d'', 30)])]\<rparr>)"
  by (rule settlement_deterministic) (auto simp: same_inputs_def example_inputs_def same_map_def edges_of_def)

end
