(* ===== verification/Settlement_Apply_Spec.thy ===== *)
theory Settlement_Apply_Spec
  imports Settlement_Apply Settlement_Spec
begin

text \<open>
  What applying a settlement promises, and where it falls short: a settlement is paid in full and marked
  once when the database answers; a settlement that was interrupted between two entries never completes;
  and the marker that the election handler makes up for a missing settlement is refused by the
  re-derivation.
\<close>

section \<open>Reads and writes of the bucket\<close>

definition bucket_row :: "uint64 \<Rightarrow> LedgerRecord \<Rightarrow> bool" where
  "bucket_row h = range_query PendulumNodesHBDBucket 0 h ''hbd'' []"

definition bucket_net :: "ledger_dbs \<Rightarrow> uint64 \<Rightarrow> int64" where
  "bucket_net c h = net_rows (bucket_row h) (ledger_c c)"

definition dist_rows :: "string \<Rightarrow> uint64 \<Rightarrow> DistributionEntry \<Rightarrow> LedgerRecord list" where
  "dist_rows txID h d =
     (let acct = hive_account (de_Account d) in distribute_records acct (de_HBDAmt d) (txID @ ''#'' @ acct) h)"

text \<open>Every stored row with the id of one of the rows to write is that row.\<close>

definition rows_agree :: "LedgerRecord list \<Rightarrow> ledger_dbs \<Rightarrow> bool" where
  "rows_agree rs c \<longleftrightarrow> (\<forall>r \<in> set rs. \<forall>x \<in> set (ledger_c c). lr_Id x = lr_Id r \<longrightarrow> x = r)"

lemma hive_account_prefix: "HasPrefix (hive_account a) ''hive:''"
  by (simp add: hive_account_def HasPrefix_def)

lemma hive_account_simps:
  "TrimSpace (hive_account a) \<noteq> []" "hive_account a \<noteq> PendulumNodesHBDBucket"
proof -
  obtain t where t: "hive_account a = ''hive:'' @ t" using hive_account_prefix by (rule HasPrefixE)
  show "hive_account a \<noteq> PendulumNodesHBDBucket" by (simp add: t PendulumNodesHBDBucket_def)
  have "\<exists>c \<in> set (rev (dropWhile isSpace (hive_account a))). \<not> isSpace c" by (auto simp: t isSpace_def)
  then have "dropWhile isSpace (rev (dropWhile isSpace (hive_account a))) \<noteq> []" by (simp add: dropWhile_eq_Nil_conv)
  then show "TrimSpace (hive_account a) \<noteq> []" by (simp add: TrimSpace_def)
qed

lemma bucket_row_rows:
  "bucket_row h (dist_rows txID h d ! 0)" "lr_Amount (dist_rows txID h d ! 0) = - de_HBDAmt d"
  "\<not> bucket_row h (dist_rows txID h d ! 1)"
  using hive_account_simps(2)
  by (simp_all add: bucket_row_def range_query_def opType_filter_def dist_rows_def distribute_records_def Let_def zero_records)

locale settling = ledger_collection L for L :: "LedgerRecord collection" +
  fixes ls :: ledgerSystem
  assumes handle: "sy_LedgerDb ls = Some L"
begin

lemma bucket_read:
  "\<exists>v s'. PendulumBucketBalance ls PendulumNodesHBDBucket h s = Some (v, s') \<and> contents s' = contents s
     \<and> (v = bucket_net (contents s) h \<or> v = 0)"
  "faults s = [] \<Longrightarrow> PendulumBucketBalance ls PendulumNodesHBDBucket h s = Some (bucket_net (contents s) h, s)"
proof -
  have t: "TrimSpace PendulumNodesHBDBucket \<noteq> []" by (simp add: PendulumNodesHBDBucket_def go_simps)
  have n: "sum_list (map lr_Amount (Find L (bucket_row h) by_height (ledger_of s))) = bucket_net (contents s) h"
    by (simp add: sum_find bucket_net_def net_rows_def)
  show "\<exists>v s'. PendulumBucketBalance ls PendulumNodesHBDBucket h s = Some (v, s') \<and> contents s' = contents s
      \<and> (v = bucket_net (contents s) h \<or> v = 0)"
    using t n by (auto simp: PendulumBucketBalance_def handle GetLedgerRange_def db_call_def bucket_row_def
        split: list.split call_outcome.split)
  show "PendulumBucketBalance ls PendulumNodesHBDBucket h s = Some (bucket_net (contents s) h, s)" if "faults s = []"
    using t n that by (simp add: PendulumBucketBalance_def handle GetLedgerRange_def db_call_def bucket_row_def)
qed

lemma upsert_row:
  assumes "ids_unique c"
  shows "r \<in> set (ledger_c c) \<Longrightarrow> mset (ledger_c (upsert_ledger L r c)) = mset (ledger_c c)"
    and "lr_Id r \<notin> lr_Id ` set (ledger_c c) \<Longrightarrow> mset (ledger_c (upsert_ledger L r c)) = add_mset r (mset (ledger_c c))"
proof -
  have m: "mset (ledger_c (upsert_ledger L r c)) = put lr_Id r (mset (ledger_c c))"
    using upsert_view [OF assms, of r] by (simp add: ledger_view_def put_rows_def)
  show "lr_Id r \<notin> lr_Id ` set (ledger_c c) \<Longrightarrow> mset (ledger_c (upsert_ledger L r c)) = add_mset r (mset (ledger_c c))"
    unfolding m put_def by (subst filter_mset_eq_conv [THEN iffD2]) (auto simp: image_iff)
  show "mset (ledger_c (upsert_ledger L r c)) = mset (ledger_c c)" if r: "r \<in> set (ledger_c c)"
  proof -
    obtain xs ys where l: "ledger_c c = xs @ r # ys" using r by (meson split_list)
    have "\<forall>x \<in> set (xs @ ys). lr_Id x \<noteq> lr_Id r" using assms unfolding l ids_unique_def by (auto simp: image_iff)
    then have "filter_mset (\<lambda>x. lr_Id x \<noteq> lr_Id r) (mset (xs @ ys)) = mset (xs @ ys)" by (subst filter_mset_eq_conv) auto
    then show ?thesis unfolding m put_def l by simp
  qed
qed

text \<open>One write of a row of an agreeing batch: the row is there already, or it is added.\<close>

lemma upsert_agree:
  assumes "ids_unique c" "rows_agree rs c" "inj_on lr_Id (set rs)" "r \<in> set rs"
  shows "ids_unique (upsert_ledger L r c)" "rows_agree rs (upsert_ledger L r c)"
    and "bucket_net (upsert_ledger L r c) h = bucket_net c h
      \<or> bucket_net (upsert_ledger L r c) h = bucket_net c h + (if bucket_row h r then lr_Amount r else 0)"
proof -
  let ?c = "upsert_ledger L r c"
  show "ids_unique ?c" by (rule upsert_ids_unique [OF assms(1)])
  have "r \<in> set (ledger_c c) \<or> lr_Id r \<notin> lr_Id ` set (ledger_c c)" using assms(2,4) by (auto simp: rows_agree_def)
  then have m: "mset (ledger_c ?c) = mset (ledger_c c) \<or> mset (ledger_c ?c) = mset (r # ledger_c c)"
    using upsert_row [OF assms(1)] by auto
  then have "set (ledger_c ?c) \<subseteq> insert r (set (ledger_c c))"
    using mset_eq_setD [of "ledger_c ?c" "ledger_c c"] mset_eq_setD [of "ledger_c ?c" "r # ledger_c c"] by auto
  then show "rows_agree rs ?c" using assms(2,3,4) unfolding rows_agree_def inj_on_def by (metis insertE subsetD)
  show "bucket_net ?c h = bucket_net c h \<or> bucket_net ?c h = bucket_net c h + (if bucket_row h r then lr_Amount r else 0)"
    using m net_rows_mset [of "ledger_c ?c" "ledger_c c"] net_rows_mset [of "ledger_c ?c" "r # ledger_c c"]
    by (auto simp: bucket_net_def net_rows_def)
qed

end

context settling
begin

text \<open>
  One entry: whatever the database does, the batch still agrees, the bucket does not grow, and a
  payment that reports success was covered.
\<close>

lemma distribute_step:
  fixes d :: DistributionEntry
  assumes J: "ids_unique (contents s)" "rows_agree rs (contents s)" "inj_on lr_Id (set rs)"
    and d: "set (dist_rows txID h d) \<subseteq> set rs" "0 < sint (de_HBDAmt d)"
  shows "\<exists>res s'. PendulumDistribute ls (hive_account (de_Account d)) (de_HBDAmt d) (txID @ ''#'' @ hive_account (de_Account d)) h s = Some (res, s')
    \<and> ids_unique (contents s') \<and> rows_agree rs (contents s') \<and> sint (bucket_net (contents s') h) \<le> sint (bucket_net (contents s) h)
    \<and> (Ok res \<longrightarrow> sint (de_HBDAmt d) \<le> sint (bucket_net (contents s) h))"
proof -
  let ?a = "hive_account (de_Account d)" and ?n = "de_HBDAmt d" and ?b = "bucket_net (contents s) h"
  obtain v t where v: "PendulumBucketBalance ls PendulumNodesHBDBucket h s = Some (v, t)" "contents t = contents s" "v = ?b \<or> v = 0"
    using bucket_read(1) by blast
  note run = PendulumDistribute_def hive_account_simps(1) v(1) handle
  show ?thesis
  proof (cases "sint v < sint ?n")
    case True
    then show ?thesis using d(2) J v(2) by (simp add: run)
  next
    case False
    then have cover: "sint ?n \<le> sint ?b" using d(2) v(3) by auto
    obtain rows where rows: "dist_rows txID h d = rows" "length rows = 2" "set rows \<subseteq> set rs"
      using d(1) by (simp add: dist_rows_def distribute_records_def Let_def)
    obtain out u where u: "StoreLedger L rows t = (out, u)" by force
    have "\<exists>p q. rows = p @ q \<and> contents u = fold (upsert_ledger L) p (contents t)"
    proof (cases out)
      case (Inl e)
      then show ?thesis using each_call_Inl [of "upsert_ledger L" rows t e u] u by (auto simp: StoreLedger_def)
    next
      case (Inr x)
      then show ?thesis using each_call_Inr [of "upsert_ledger L" rows t x u] u by (auto simp: StoreLedger_def)
    qed
    then obtain p q where p: "rows = p @ q" "contents u = fold (upsert_ledger L) p (contents s)" using v(2) by auto
    obtain r0 r1 where r: "rows = [r0, r1]" using rows(2) by (auto simp: numeral_2_eq_2 length_Suc_conv)
    have r0: "bucket_row h r0" "lr_Amount r0 = - ?n" "\<not> bucket_row h r1"
      using bucket_row_rows [where h = h and txID = txID and d = d] unfolding rows(1) r by simp_all
    let ?c0 = "contents s" let ?c1 = "upsert_ledger L r0 ?c0" let ?c2 = "upsert_ledger L r1 ?c1"
    have mem: "r0 \<in> set rs" "r1 \<in> set rs" using rows(3) r by auto
    note s1 = upsert_agree [OF J mem(1)] and s2 = upsert_agree [OF upsert_agree(1,2) [OF J mem(1)] J(3) mem(2)]
    have "sint (?b - ?n) = sint ?b - sint ?n" using d(2) cover by (intro sint_debit) auto
    then have le1: "sint (bucket_net ?c1 h) \<le> sint ?b" using s1(3) [of h] r0 d(2) by auto
    then have le2: "sint (bucket_net ?c2 h) \<le> sint ?b" using s2(3) [of h] r0(3) by auto
    have "p = [] \<or> p = [r0] \<or> p = [r0, r1]" using p(1) r by (cases p; cases "tl p") auto
    then have "ids_unique (contents u) \<and> rows_agree rs (contents u) \<and> sint (bucket_net (contents u) h) \<le> sint ?b"
      using J s1(1,2) s2(1,2) le1 le2 p(2) by auto
    moreover have "\<exists>res. PendulumDistribute ls ?a ?n (txID @ ''#'' @ ?a) h s = Some (res, u)"
      using False d(2) u rows(1) by (cases out) (simp_all add: run dist_rows_def Let_def)
    ultimately show ?thesis using cover by blast
  qed
qed

lemma distribute_all_stuck:
  assumes "inj_on lr_Id (set rs)"
  shows "ids_unique (contents s) \<Longrightarrow> rows_agree rs (contents s) \<Longrightarrow> set (concat (map (dist_rows txID h) ds)) \<subseteq> set rs \<Longrightarrow>
    \<exists>failed s'. distribute_all ls txID h ds s = Some (failed, s') \<and> ids_unique (contents s') \<and> rows_agree rs (contents s')
      \<and> sint (bucket_net (contents s') h) \<le> sint (bucket_net (contents s) h)
      \<and> ((\<exists>d \<in> set ds. 0 < sint (de_HBDAmt d) \<and> sint (bucket_net (contents s) h) < sint (de_HBDAmt d)) \<longrightarrow> failed)"
proof (induction ds arbitrary: s)
  case Nil
  then show ?case by auto
next
  case (Cons d ds)
  show ?case
  proof (cases "sint (de_HBDAmt d) \<le> 0")
    case True
    then show ?thesis using Cons.IH [OF Cons.prems(1,2)] Cons.prems(3) by auto
  next
    case False
    then obtain res t where t: "PendulumDistribute ls (hive_account (de_Account d)) (de_HBDAmt d)
        (txID @ ''#'' @ hive_account (de_Account d)) h s = Some (res, t)"
      "ids_unique (contents t)" "rows_agree rs (contents t)" "sint (bucket_net (contents t) h) \<le> sint (bucket_net (contents s) h)"
      "Ok res \<longrightarrow> sint (de_HBDAmt d) \<le> sint (bucket_net (contents s) h)"
      using distribute_step [OF Cons.prems(1,2) assms, of txID h d] Cons.prems(3) by auto
    obtain failed s' where s': "distribute_all ls txID h ds t = Some (failed, s')" "ids_unique (contents s')" "rows_agree rs (contents s')"
      "sint (bucket_net (contents s') h) \<le> sint (bucket_net (contents t) h)"
      "(\<exists>d \<in> set ds. 0 < sint (de_HBDAmt d) \<and> sint (bucket_net (contents t) h) < sint (de_HBDAmt d)) \<longrightarrow> failed"
      using Cons.IH [OF t(2,3)] Cons.prems(3) by auto
    have "distribute_all ls txID h (d # ds) s = Some (\<not> Ok res \<or> failed, s')"
      using False t(1) s'(1) by (simp add: Let_def)
    moreover have "\<not> Ok res \<or> failed" if "\<exists>x \<in> set (d # ds). 0 < sint (de_HBDAmt x) \<and> sint (bucket_net (contents s) h) < sint (de_HBDAmt x)"
      using that t(4,5) s'(5) by force
    ultimately show ?thesis using s'(2,3,4) t(4) by auto
  qed
qed

end

definition settle_system :: ledgerSystem where
  "settle_system = \<lparr>sy_BalanceDb = Some list_collection, sy_LedgerDb = Some list_collection,
     sy_ClaimDb = Some list_collection, sy_ActionsDb = Some list_collection\<rparr>"

interpretation list_settling: settling list_collection settle_system
  by unfold_locales (simp add: settle_system_def)

section \<open>Applying a record reads, and pays\<close>

lemma read_contents: "db_read q s = (r, s') \<Longrightarrow> contents s' = contents s"
  by (auto simp: db_call_def split: list.splits call_outcome.splits)

lemma share_contents: "PendulumShareDelegations ls mode ms h s = (r, s') \<Longrightarrow> contents s' = contents s"
  by (auto simp: PendulumShareDelegations_def AllDelegationEdges_def GetLedgerRecordsByType_def
      split: option.splits prod.splits sum.splits dest: read_contents)

lemma validate_contents: "validatePendulumSettlement se rec s = (e, s') \<Longrightarrow> contents s' = contents s"
  by (auto simp: validatePendulumSettlement_def Let_def split: option.splits sum.splits if_splits prod.splits dest: share_contents)

lemma bonds_contents:
  "readMinBondAcrossSamples B a samples low s = (r, s') \<Longrightarrow> contents s' = contents s"
proof (induction samples arbitrary: low s)
  case (Cons bh samples)
  obtain x t where t: "GetBalanceRecord B a bh s = (x, t)" by force
  then have c: "contents t = contents s" unfolding GetBalanceRecord_def by (rule read_contents)
  show ?case
  proof (cases x)
    case (Inl e)
    then show ?thesis using Cons.prems t c by simp
  next
    case (Inr rec)
    then show ?thesis using Cons.prems t c Cons.IH by (cases rec) simp_all
  qed
qed simp

lemma read_bonds_contents: "read_bonds B samples members out s = (r, s') \<Longrightarrow> contents s' = contents s"
proof (induction members arbitrary: out s)
  case (Cons m members)
  obtain x t where t: "readMinBondAcrossSamples B (normalizeHiveAccount m) samples None s = (x, t)" by force
  then have c: "contents t = contents s" by (rule bonds_contents)
  show ?case
  proof (cases "normalizeHiveAccount m = []")
    case True
    then show ?thesis using Cons by (simp add: Let_def)
  next
    case False
    note run = Cons.prems [unfolded read_bonds.simps Let_def t prod.case if_not_P [OF False]]
    show ?thesis
    proof (cases x)
      case (Inl e)
      then show ?thesis using run c by simp
    next
      case (Inr low)
      then show ?thesis using run c Cons.IH by (cases low) simp_all
    qed
  qed
qed simp

lemma bucket_contents: "PendulumBucketBalance ls b h s = Some (v, s') \<Longrightarrow> contents s' = contents s"
  by (auto simp: PendulumBucketBalance_def GetLedgerRange_def split: if_splits bind_splits prod.splits sum.splits option.splits dest: read_contents)

lemma latest_contents: "GetLatestSettledEpoch se ms = (e, ms') \<Longrightarrow> contents ms' = contents ms"
  by (auto simp: GetLatestSettledEpoch_def db_GetLatestSettledEpoch_def Let_def split: option.splits prod.splits sum.splits dest: read_contents)

lemma committee_contents: "ReadCommitteeBonds reader ms f t s = (r, s') \<Longrightarrow> contents s' = contents s"
  by (auto simp: ReadCommitteeBonds_def Let_def split: option.splits if_splits dest: read_bonds_contents)

lemma rederive_result:
  assumes "rederivePendulumSettlement se rec s = Some (d, s')"
  shows "contents s' = contents s"
    and "d = Some True \<Longrightarrow> \<exists>i expected. ComposeRecord i = Inr expected \<and> pe_Encode se expected = pe_Encode se rec"
proof -
  have "contents s' = contents s \<and> (d = Some True \<longrightarrow> (\<exists>i expected. ComposeRecord i = Inr expected \<and> pe_Encode se expected = pe_Encode se rec))"
  proof (cases "d = None \<and> s' = s")
    case False
    then obtain electionAt B ls elected where e: "pe_Elections se = Some electionAt" "pe_BalanceDb se = Some B"
        "pe_LedgerSystem se = Some ls" "electionAt (sr_SnapshotRangeTo rec) = Inr elected" "elected \<noteq> []"
      using assms by (auto simp: rederivePendulumSettlement_def split: option.splits sum.splits if_splits)
    obtain bonds s1 where s1: "ReadCommitteeBonds (Some B) (map hive_account elected) (sr_SnapshotRangeFrom rec) (sr_SnapshotRangeTo rec) s = (bonds, s1)"
      by force
    note c1 = committee_contents [OF s1]
    show ?thesis
    proof (cases bonds)
      case (Inl x)
      then show ?thesis using assms e s1 c1 by (simp add: rederivePendulumSettlement_def Let_def)
    next
      case (Inr bs)
      note run = assms [unfolded rederivePendulumSettlement_def Let_def e s1 Inr option.case prod.case sum.case if_not_P [OF e(5)]]
      from run obtain bucket s2 where s2: "PendulumBucketBalance ls PendulumNodesHBDBucket (sr_SnapshotRangeTo rec) s1 = Some (bucket, s2)"
        by (cases "PendulumBucketBalance ls PendulumNodesHBDBucket (sr_SnapshotRangeTo rec) s1") auto
      note c2 = bucket_contents [OF s2]
      obtain share s3 where s3: "PendulumShareDelegations (Some ls) (pe_DelegationMode se) (map hive_account elected) (sr_SnapshotRangeTo rec) s2 = (share, s3)"
        by force
      note c3 = share_contents [OF s3]
      show ?thesis
        using run c1 c2 c3 by (auto simp: s2 s3 split: if_splits bind_splits option.splits sum.splits)
    qed
  qed simp
  then show "contents s' = contents s"
    and "d = Some True \<Longrightarrow> \<exists>i expected. ComposeRecord i = Inr expected \<and> pe_Encode se expected = pe_Encode se rec" by auto
qed

section \<open>A settlement that was interrupted\<close>

abbreviation settlement_rows :: "SettlementRecord \<Rightarrow> uint64 \<Rightarrow> LedgerRecord list" where
  "settlement_rows rec h \<equiv> concat (map (dist_rows (pendulumSettlementTxID (sr_Epoch rec)) h) (elems (sr_Distributions rec)))"

text \<open>An entry is larger than what the bucket holds, and every row already written is as the record has it.\<close>

definition settlement_stuck :: "SettlementRecord \<Rightarrow> uint64 \<Rightarrow> ledger_dbs \<Rightarrow> bool" where
  "settlement_stuck rec h c \<longleftrightarrow> ids_unique c \<and> rows_agree (settlement_rows rec h) c
     \<and> (\<exists>d \<in> set (elems (sr_Distributions rec)). 0 < sint (de_HBDAmt d) \<and> sint (bucket_net c h) < sint (de_HBDAmt d))"

definition distinct_payees :: "SettlementRecord \<Rightarrow> bool" where
  "distinct_payees rec \<longleftrightarrow> distinct (map (\<lambda>d. hive_account (de_Account d)) (elems (sr_Distributions rec)))"

text \<open>Repeated attempts to apply a record.\<close>

fun retry_settlement :: "settlement_engine \<Rightarrow> SettlementRecord \<Rightarrow> uint64 \<Rightarrow> nat \<Rightarrow> dbs \<Rightarrow> marker_db \<Rightarrow> (dbs \<times> marker_db) option" where
  "retry_settlement se rec h 0 s ms = Some (s, ms)"
| "retry_settlement se rec h (Suc n) s ms = do {
     (s, ms) \<leftarrow> applyPendulumSettlement se rec h s ms;
     retry_settlement se rec h n s ms
   }"

lemma debit_credit_ids: "x @ ''#distribute_debit#'' @ x \<noteq> y @ ''#distribute_credit#'' @ y"
proof
  assume "x @ ''#distribute_debit#'' @ x = y @ ''#distribute_credit#'' @ y"
  then have "length (x @ ''#distribute_debit#'' @ x) = length (y @ ''#distribute_credit#'' @ y)" by simp
  then show False by simp presburger
qed

lemma same_sides: "x @ u @ x = y @ u @ y \<Longrightarrow> x = y"
proof -
  assume e: "x @ u @ x = y @ u @ y"
  then have "length (x @ u @ x) = length (y @ u @ y)" by (rule arg_cong)
  then have "length x = length y" by simp
  with e show "x = y" by simp
qed

lemma dist_ids:
  assumes "r \<in> set (dist_rows t h d)" "r' \<in> set (dist_rows t h d')" "lr_Id r = lr_Id r'"
  shows "hive_account (de_Account d) = hive_account (de_Account d')" and "d = d' \<Longrightarrow> r = r'"
proof -
  define a where "a = hive_account (de_Account d)"
  define b where "b = hive_account (de_Account d')"
  define D where "D = ''#distribute_debit#''"
  define C where "C = ''#distribute_credit#''"
  have neq: "x @ D @ x \<noteq> y @ C @ y" for x y unfolding D_def C_def by (rule debit_credit_ids)
  have r: "lr_Id r = t @ ''#'' @ a @ D @ a \<or> lr_Id r = t @ ''#'' @ a @ C @ a"
    "lr_Id r' = t @ ''#'' @ b @ D @ b \<or> lr_Id r' = t @ ''#'' @ b @ C @ b"
    using assms(1,2) by (auto simp: dist_rows_def distribute_records_def Let_def zero_records a_def b_def C_def D_def)
  then have "a @ D @ a = b @ D @ b \<or> a @ C @ a = b @ C @ b \<or> a @ D @ a = b @ C @ b \<or> b @ D @ b = a @ C @ a"
    using assms(3) by auto
  then show "hive_account (de_Account d) = hive_account (de_Account d')"
    unfolding a_def [symmetric] b_def [symmetric] using neq same_sides by blast
  show "r = r'" if "d = d'"
    using assms that debit_credit_ids [of a a] by (auto simp: dist_rows_def distribute_records_def Let_def zero_records a_def)
qed

lemma payees_inj:
  assumes "distinct_payees rec"
  shows "inj_on lr_Id (set (settlement_rows rec h))"
proof (rule inj_onI)
  fix x y
  assume xy: "x \<in> set (settlement_rows rec h)" "y \<in> set (settlement_rows rec h)" "lr_Id x = lr_Id y"
  then obtain d d' where d: "d \<in> set (elems (sr_Distributions rec))" "d' \<in> set (elems (sr_Distributions rec))"
      "x \<in> set (dist_rows (pendulumSettlementTxID (sr_Epoch rec)) h d)" "y \<in> set (dist_rows (pendulumSettlementTxID (sr_Epoch rec)) h d')"
    by auto
  then have "hive_account (de_Account d) = hive_account (de_Account d')" using dist_ids(1) xy(3) by blast
  then have "d = d'" using assms d(1,2) by (auto simp: distinct_payees_def distinct_map inj_on_def)
  then show "x = y" using dist_ids(2) [OF d(3,4) xy(3)] by simp
qed

context settling
begin

lemma pay_stuck:
  assumes "distinct_payees rec" "settlement_stuck rec h (contents s)"
  shows "\<exists>s'. pay_settlement ls M rec h s ms = Some (s', ms) \<and> settlement_stuck rec h (contents s')"
proof -
  have st: "ids_unique (contents s)" "rows_agree (settlement_rows rec h) (contents s)"
    "\<exists>d \<in> set (elems (sr_Distributions rec)). 0 < sint (de_HBDAmt d) \<and> sint (bucket_net (contents s) h) < sint (de_HBDAmt d)"
    using assms(2) by (auto simp: settlement_stuck_def)
  obtain failed s' where s': "distribute_all ls (pendulumSettlementTxID (sr_Epoch rec)) h (elems (sr_Distributions rec)) s = Some (failed, s')"
    "ids_unique (contents s')" "rows_agree (settlement_rows rec h) (contents s')"
    "sint (bucket_net (contents s') h) \<le> sint (bucket_net (contents s) h)" "failed"
    using distribute_all_stuck [OF payees_inj [OF assms(1), of h] st(1,2), of "pendulumSettlementTxID (sr_Epoch rec)" h "elems (sr_Distributions rec)"] st(3)
    by blast
  have "settlement_stuck rec h (contents s')"
    using s'(2,3,4) st(3) unfolding settlement_stuck_def by (meson le_less_trans)
  then show ?thesis using s'(1,5) by (simp add: pay_settlement_def)
qed

lemma apply_stuck:
  assumes "pe_LedgerSystem se = Some ls" "distinct_payees rec" "settlement_stuck rec h (contents s)"
    and run: "applyPendulumSettlement se rec h s ms = Some (s', ms')"
  shows "settlement_stuck rec h (contents s') \<and> contents ms' = contents ms"
proof (cases "pe_Settlements se")
  case None
  then show ?thesis using run assms(1,3) by (simp add: applyPendulumSettlement_def)
next
  case (Some M)
  obtain latest ms1 where l: "GetLatestSettledEpoch se ms = (latest, ms1)" by force
  obtain e s1 where v: "validatePendulumSettlement se rec s = (e, s1)" by force
  note c = latest_contents [OF l] validate_contents [OF v]
  have pay: "settlement_stuck rec h (contents s') \<and> ms' = ms1"
    if "pay_settlement ls M rec h t ms1 = Some (s', ms')" "contents t = contents s" for t
    using pay_stuck [OF assms(2), of h t M ms1] assms(3) that by auto
  have ap: "applyPendulumSettlement se rec h s ms =
      (if sr_Epoch rec \<le> latest \<or> sr_PrevEpoch rec \<noteq> latest then Some (s, ms1)
       else if e \<noteq> None then Some (s1, ms1)
       else if pe_OnTestnet se \<and> h < testnetReplayNoRederiveBelowHeight then pay_settlement ls M rec h s1 ms1
       else do {
         (derived, t) \<leftarrow> rederivePendulumSettlement se rec s1;
         if derived = Some False then Some (t, ms1) else pay_settlement ls M rec h t ms1
       })"
    by (cases e) (auto simp: applyPendulumSettlement_def assms(1) Some l v)
  show ?thesis
  proof (cases "rederivePendulumSettlement se rec s1")
    case None
    then show ?thesis using run c assms(3) pay [of s1] unfolding ap by (auto split: if_splits)
  next
    case (Some dt)
    obtain d t where dt: "dt = (d, t)" by force
    then have "contents t = contents s" using rederive_result(1) [OF Some [unfolded dt]] c(2) by simp
    then show ?thesis using run c assms(3) pay [of s1] pay [of t] Some unfolding ap dt by (auto split: if_splits)
  qed
qed

lemma retry_stuck:
  assumes "pe_LedgerSystem se = Some ls" "distinct_payees rec"
  shows "settlement_stuck rec h (contents s) \<Longrightarrow> retry_settlement se rec h n s ms = Some (s', ms') \<Longrightarrow> contents ms' = contents ms"
proof (induction n arbitrary: s ms)
  case (Suc n)
  then obtain s1 ms1 where a: "applyPendulumSettlement se rec h s ms = Some (s1, ms1)" "retry_settlement se rec h n s1 ms1 = Some (s', ms')"
    by (auto split: bind_splits)
  have "settlement_stuck rec h (contents s1) \<and> contents ms1 = contents ms" by (rule apply_stuck [OF assms Suc.prems(1) a(1)])
  then show ?case using Suc.IH [OF _ a(2)] by simp
qed simp

end

text \<open>
  C26. A settlement that stopped half-way never completes. Once an entry of the record is larger than what is
  left in the bucket, because the entry itself or others have already been paid, no number of further
  attempts marks the epoch as settled, under any database behaviour; the balance check of each payment is
  made against a bucket from which its own debit is already gone.
\<close>

theorem interrupted_settlement_never_completes:
  assumes "ledger_collection L" "sy_LedgerDb ls = Some L" "pe_LedgerSystem se = Some ls" "distinct_payees rec"
    and "settlement_stuck rec h (contents s)" "retry_settlement se rec h n s ms = Some (s', ms')"
  shows "contents ms' = contents ms"
proof -
  have "settling L ls" using assms(1,2) by (simp add: settling_def settling_axioms_def)
  from settling.retry_stuck [OF this assms(3,4,5,6)] show ?thesis .
qed

text \<open>A bucket of 100 divided 60 to 40, where the debit of the second entry is lost at the first attempt.\<close>

definition example_engine :: settlement_engine where
  "example_engine = \<lparr>pe_LedgerSystem = Some settle_system, pe_Settlements = Some list_collection, pe_Elections = None,
     pe_BalanceDb = Some list_collection, pe_OnTestnet = False,
     pe_TickInputs = (\<lambda>_. example_tick\<lparr>ti_Committee := []\<rparr>), pe_DelegationMode = (\<lambda>_ _. Custom),
     pe_Encode = (\<lambda>r. if sr_Distributions r = Some [] then ''[]'' else [])\<rparr>"

definition example_record :: SettlementRecord where
  "example_record = \<lparr>sr_Epoch = 1, sr_PrevEpoch = 0, sr_SnapshotRangeFrom = 4, sr_SnapshotRangeTo = 10,
     sr_BucketBalanceHBD = 100, sr_TotalDistributedHBD = 100, sr_ResidualHBD = 0, sr_RewardReductions = None,
     sr_Distributions = Some [\<lparr>de_Account = ''hive:a'', de_HBDAmt = 60\<rparr>, \<lparr>de_Account = ''hive:b'', de_HBDAmt = 40\<rparr>]\<rparr>"

definition bucket_deposit :: LedgerRecord where
  "bucket_deposit = LedgerRecord_zero\<lparr>lr_Id := ''x'', lr_Amount := 100, lr_BlockHeight := 5, lr_Owner := PendulumNodesHBDBucket,
     lr_Asset := ''hbd''\<rparr>"

definition bucket_server :: "LedgerRecord list \<Rightarrow> call_outcome list \<Rightarrow> dbs" where
  "bucket_server rows fs = \<lparr>contents = \<lparr>ledger_c = rows, balances_c = [], actions_c = [], claims_c = []\<rparr>, faults = fs\<rparr>"

definition marker_server :: marker_db where
  "marker_server = \<lparr>contents = [], faults = []\<rparr>"

lemmas settle_eval = example_engine_def example_record_def bucket_deposit_def bucket_server_def marker_server_def settle_system_def
  hive_account_def HasPrefix_def zero_records PendulumNodesHBDBucket_def elems_def

lemma example_interrupted:
  "applyPendulumSettlement example_engine example_record 20
     (bucket_server [bucket_deposit] [CallOk, CallOk, CallOk, CallOk, RequestLost]) marker_server =
   Some (bucket_server (bucket_deposit # dist_rows (pendulumSettlementTxID 1) 20 \<lparr>de_Account = ''hive:a'', de_HBDAmt = 60\<rparr>) [], marker_server)"
proof -
  have tx: "pendulumSettlementTxID 1 = ''pendulum:settlement:1''" by code_simp
  have t: "TrimSpace ''pendulum:nodes'' = ''pendulum:nodes''" "TrimSpace ''hive:a'' = ''hive:a''" "TrimSpace ''hive:b'' = ''hive:b''"
    by (simp_all add: TrimSpace_def isSpace_def)
  show ?thesis
    by (simp add: applyPendulumSettlement_def GetLatestSettledEpoch_def db_GetLatestSettledEpoch_def validatePendulumSettlement_def
        validate_amounts_def rederivePendulumSettlement_def pay_settlement_def PendulumDistribute_def PendulumBucketBalance_def
        GetLedgerRange_def range_query_def opType_filter_def StoreLedger_def upsert_ledger_def distribute_records_def
        db_call_def list_collection_def sort_by_def by_height_def settle_eval t tx dist_rows_def Let_def)
qed

theorem interrupted_settlement_never_completes_witness:
  "\<exists>s. applyPendulumSettlement example_engine example_record 20
      (bucket_server [bucket_deposit] [CallOk, CallOk, CallOk, CallOk, RequestLost]) marker_server = Some (s, marker_server)
    \<and> settlement_stuck example_record 20 (contents s)
    \<and> (\<forall>n s' ms'. retry_settlement example_engine example_record 20 n s marker_server = Some (s', ms') \<longrightarrow> contents ms' = [])"
proof -
  let ?rows = "bucket_deposit # dist_rows (pendulumSettlementTxID 1) 20 \<lparr>de_Account = ''hive:a'', de_HBDAmt = 60\<rparr>"
  have tx: "pendulumSettlementTxID 1 = ''pendulum:settlement:1''" by code_simp
  have "settlement_stuck example_record 20 (contents (bucket_server ?rows []))"
    by (simp add: settlement_stuck_def ids_unique_def rows_agree_def dist_rows_def distribute_records_def bucket_net_def net_rows_def
        bucket_row_def range_query_def opType_filter_def settle_eval tx Let_def)
  moreover have "distinct_payees example_record" by (simp add: distinct_payees_def settle_eval)
  ultimately show ?thesis
    using interrupted_settlement_never_completes [OF list_ledger.ledger_collection_axioms, of settle_system example_engine example_record 20
        "bucket_server ?rows []" _ marker_server] example_interrupted
    by (simp add: settle_system_def example_engine_def marker_server_def)
qed

section \<open>The marker of a missing settlement\<close>

text \<open>What encoding/json documents: a nil slice is encoded as null and an empty one as a list.\<close>

definition tells_nil_from_empty :: "(SettlementRecord \<Rightarrow> string) \<Rightarrow> bool" where
  "tells_nil_from_empty enc \<longleftrightarrow> (\<forall>a b. enc a = enc b \<longrightarrow> (sr_Distributions a = Some [] \<longleftrightarrow> sr_Distributions b = Some []))"

lemma composed_not_empty: "ComposeRecord i = Inr rec \<Longrightarrow> sr_Distributions rec \<noteq> Some []"
  by (auto simp: ComposeRecord_def BuildSettlementRecord_def slice_def Let_def case_prod_unfold split: if_splits)

lemma share_fault_free: "faults s = [] \<Longrightarrow> snd (PendulumShareDelegations ls mode members h s) = s"
  by (auto simp: PendulumShareDelegations_def AllDelegationEdges_def GetLedgerRecordsByType_def db_call_def split: option.split)

lemma validate_fault_free: "faults s = [] \<Longrightarrow> snd (validatePendulumSettlement se rec s) = s"
  using share_fault_free [of s]
  by (auto simp: validatePendulumSettlement_def Let_def case_prod_unfold split: option.split sum.split)

lemma latest_fault_free: "faults ms = [] \<Longrightarrow> snd (GetLatestSettledEpoch se ms) = ms"
  by (auto simp: GetLatestSettledEpoch_def db_GetLatestSettledEpoch_def db_call_def Let_def split: option.split)

text \<open>
  C27. The marker the election handler makes up for an election without a settlement is refused. Its empty
  lists are empty slices, a composed record has nil slices, and the encodings of the two differ: whenever
  the re-derivation runs, the epoch stays unsettled and the election is not stored, although every call of
  the database succeeds.
\<close>

theorem replay_marker_refused:
  assumes "pe_LedgerSystem se = Some ls" "pe_Settlements se = Some M" "\<not> pe_OnTestnet se" "tells_nil_from_empty (pe_Encode se)"
    and "faults s = []" "faults ms = []" "2 \<le> txEpoch" "fst (GetLatestSettledEpoch se ms) < txEpoch - 1"
    and "rederivePendulumSettlement se (replay_marker txEpoch (fst (GetLatestSettledEpoch se ms)) prevHeight h) s = Some (Some matches, s')"
  shows "\<exists>t. settle_election se txEpoch None prevHeight h s ms = Some (False, t, ms) \<and> contents t = contents s"
proof -
  define latest where "latest = fst (GetLatestSettledEpoch se ms)"
  let ?rec = "replay_marker txEpoch latest prevHeight h"
  have l: "GetLatestSettledEpoch se ms = (latest, ms)" using latest_fault_free [OF assms(6)] by (metis latest_def prod.collapse)
  obtain e where v: "validatePendulumSettlement se ?rec s = (e, s)" using validate_fault_free [OF assms(5)] by (metis prod.collapse)
  have lt: "latest < txEpoch - 1" "1 \<le> txEpoch" using assms(8) order_trans [OF _ assms(7), of 1] by (simp_all add: latest_def)
  have r: "rederivePendulumSettlement se ?rec s = Some (Some matches, s')" using assms(9) by (simp add: latest_def)
  have "\<not> matches"
  proof
    assume m: matches
    then obtain i expected where "ComposeRecord i = Inr expected" "pe_Encode se expected = pe_Encode se ?rec"
      using rederive_result(2) [OF r] by auto
    then show False
      using assms(4) composed_not_empty [of i expected] by (auto simp: tells_nil_from_empty_def replay_marker_def)
  qed
  then have "applyPendulumSettlement se ?rec h s ms = Some (s, ms) \<or> applyPendulumSettlement se ?rec h s ms = Some (s', ms)"
    using r assms(3) by (cases e) (auto simp: applyPendulumSettlement_def assms(1,2) l v)
  moreover have "contents s' = contents s" by (rule rederive_result(1) [OF r])
  ultimately show ?thesis using assms(7) lt by (auto simp: settle_election_def l)
qed

definition replay_engine :: settlement_engine where
  "replay_engine = example_engine\<lparr>pe_Elections := Some (\<lambda>_. Inr [''n1''])\<rparr>"

lemma example_rederive:
  "rederivePendulumSettlement replay_engine (replay_marker 2 0 100 102) (bucket_server [] []) = Some (Some False, bucket_server [] [])"
proof -
  have samples: "sampleBlocksAcrossWindow 100 102 8 = [101, 102]" by code_simp
  have norm: "normalizeHiveAccount ''hive:n1'' = ''hive:n1''" by (simp add: normalizeHiveAccount_def TrimSpace_def isSpace_def HasPrefix_def)
  have t: "TrimSpace ''pendulum:nodes'' = ''pendulum:nodes''" by (simp add: TrimSpace_def isSpace_def)
  have red: "ComputeReductionsForEpoch (Some p) 100 102 100 = Some []" for p
    by (simp add: ComputeReductionsForEpoch_def tick_loop.simps effective_reductions_def List.map_filter_simps)
  have bonds: "ReadCommitteeBonds (Some list_collection) [''hive:n1''] 100 102 (bucket_server [] []) = (Inr [], bucket_server [] [])"
    by (simp add: ReadCommitteeBonds_def bondSampleCount_def samples norm GetBalanceRecord_def db_call_def list_collection_def
        sort_by_def bucket_server_def)
  have bucket: "PendulumBucketBalance settle_system PendulumNodesHBDBucket 102 (bucket_server [] []) = Some (0, bucket_server [] [])"
    by (simp add: PendulumBucketBalance_def GetLedgerRange_def db_call_def list_collection_def sort_by_def settle_eval t)
  have share: "PendulumShareDelegations (Some settle_system) (\<lambda>_ _. Custom) [''hive:n1''] 102 (bucket_server [] []) = (Some [], bucket_server [] [])"
    by (simp add: PendulumShareDelegations_def AllDelegationEdges_def GetLedgerRecordsByType_def db_call_def list_collection_def sort_by_def
        groupDelegationEdges_def net_delegations_def share_edges_def SharesRewards_def Normalize_def TrimSpace_def isSpace_def modes settle_eval)
  show ?thesis
    by (simp add: rederivePendulumSettlement_def replay_engine_def example_engine_def replay_marker_def hive_account_def HasPrefix_def
        bonds bucket red share DefaultTickIntervalBlocks_def ComposeRecord_def BuildSettlementRecord_def slice_def Let_def)
qed

theorem replay_marker_refused_witness:
  "\<exists>t. settle_election replay_engine 2 None 100 102 (bucket_server [] []) marker_server = Some (False, t, marker_server)
    \<and> contents t = contents (bucket_server [] [])"
proof -
  have "fst (GetLatestSettledEpoch replay_engine marker_server) = 0"
    by (simp add: GetLatestSettledEpoch_def db_GetLatestSettledEpoch_def db_call_def replay_engine_def example_engine_def
        marker_server_def list_collection_def sort_by_def)
  moreover have "tells_nil_from_empty (pe_Encode replay_engine)"
    by (simp add: tells_nil_from_empty_def replay_engine_def example_engine_def)
  ultimately show ?thesis
    by (intro replay_marker_refused [where ls = settle_system and M = list_collection and matches = False and s' = "bucket_server [] []"])
      (simp_all add: example_rederive, simp_all add: replay_engine_def example_engine_def bucket_server_def marker_server_def)
qed

section \<open>A settlement that goes through\<close>

text \<open>What \<open>ComposeRecord\<close> composes from well-formed inputs passes the arithmetic part of the validation.\<close>

lemma positive_sum: "\<forall>x \<in> set xs. 0 < f x \<Longrightarrow> 0 \<le> (\<Sum>x \<leftarrow> xs. f x :: int)"
  by (induction xs) auto

lemma sum_distributions_eq:
  "list_all (\<lambda>d. 0 \<le> sint (de_HBDAmt d)) ds \<Longrightarrow> sum_distributions ds a = Some (a + sum_list (map de_HBDAmt ds))"
  by (induction ds arbitrary: a) (auto simp: add.assoc)

lemma composed_record_valid:
  assumes "compose_ok i" "ComposeRecord i = Inr rec"
  shows "validate_amounts rec = None"
  using assms(1)
proof (cases rule: compose_cases)
  case Empty
  then show ?thesis using assms(2) by (auto simp: BuildSettlementRecord_def slice_def elems_def validate_amounts_def)
next
  case Reduced
  then show ?thesis using assms(2) by (auto simp: BuildSettlementRecord_def slice_def elems_def validate_amounts_def)
next
  case (Paid T)
  have ok: "bonds_ok (ci_CommitteeBonds i)" "share_ok (ci_ShareDelegations i)" using assms(1) by (auto simp: compose_ok_def)
  have es: "bonds_ok (effective_bonds i)"
    using reduced_bonds_ok(1) [OF ok(1) reductions_reduce [OF ok(1)]] by (simp add: effective_bonds_def)
  note sd = settle_distributions [OF Paid(1) es Paid(2) ok(2), folded settled_dists_def]
  have srt: "sort_key de_Account (dist_payload (settled_dists i)) = dist_payload (settled_dists i)"
    using sd(1) by (intro sort_payload) (simp add: Paid(6) comp_def)
  have nn: "list_all (\<lambda>d. 0 \<le> sint (de_HBDAmt d)) (dist_payload (settled_dists i))"
    using sd(2) by (auto simp: Paid(6) list_all_iff)
  have "sum_list (map de_HBDAmt (dist_payload (settled_dists i))) = word_of_int (\<Sum>d \<leftarrow> settled_dists i. sint (ds_Amount d))"
    unfolding word_sum Paid(6) by (simp add: comp_def)
  also have "\<dots> = T" using Paid(3) [symmetric] by simp
  finally have T: "sum_list (map de_HBDAmt (dist_payload (settled_dists i))) = T" .
  have rec: "rec = BuildSettlementRecord (ci_Epoch i) (ci_PrevEpoch i) (ci_EpochStartBh i) (ci_SlotHeight i) (ci_BucketBalanceHBD i) T
      (ci_BucketBalanceHBD i - T) (reduction_payload (snd (ApplyRewardReductionsToBonds (ci_CommitteeBonds i) (ci_ReductionsByAccount i))))
      (dist_payload (settled_dists i))"
    using Paid(7) assms(2) by simp
  have "0 \<le> sint T" using Paid(3) positive_sum [OF sd(2)] by simp
  then show ?thesis
    unfolding rec using Paid(1,4,5) srt sum_distributions_eq [OF nn, of 0] T
    by (simp add: BuildSettlementRecord_def validate_amounts_def)
qed

lemma store_fault_free:
  "faults s = [] \<Longrightarrow> StoreLedger L rs s = (Inr (), s\<lparr>contents := fold (upsert_ledger L) rs (contents s)\<rparr>)"
  by (induction rs arbitrary: s) (simp_all add: StoreLedger_def db_call_def)

context settling
begin

lemma pays_one:
  fixes d :: DistributionEntry
  assumes "faults s = []" "ids_unique (contents s)" "0 < sint (de_HBDAmt d)" "sint (de_HBDAmt d) \<le> sint (bucket_net (contents s) h)"
    and "lr_Id ` set (dist_rows txID h d) \<inter> lr_Id ` set (ledger_of s) = {}"
  shows "\<exists>s'. PendulumDistribute ls (hive_account (de_Account d)) (de_HBDAmt d) (txID @ ''#'' @ hive_account (de_Account d)) h s = Some (success ''success'', s')
    \<and> faults s' = [] \<and> ids_unique (contents s') \<and> mset (ledger_of s') = mset (ledger_of s @ dist_rows txID h d)
    \<and> sint (bucket_net (contents s') h) = sint (bucket_net (contents s) h) - sint (de_HBDAmt d)"
proof -
  let ?rs = "dist_rows txID h d" and ?s' = "s\<lparr>contents := fold (upsert_ledger L) (dist_rows txID h d) (contents s)\<rparr>"
  have dist: "distinct (map lr_Id ?rs)"
    using debit_credit_ids by (simp add: dist_rows_def distribute_records_def Let_def zero_records)
  have "ledger_view (contents ?s') = put_rows ?rs (ledger_view (contents s))"
    using upserts_view [OF assms(2)] by simp
  then have "mset (ledger_of ?s') = puts lr_Id ?rs (mset (ledger_of s))" by (simp add: ledger_view_def put_rows_def)
  also have "\<dots> = mset (ledger_of s @ ?rs)"
  proof -
    have "filter_mset (\<lambda>x. lr_Id x \<notin> lr_Id ` set ?rs) (mset (ledger_of s)) = mset (ledger_of s)"
      using assms(5) by (subst filter_mset_eq_conv) auto
    then show ?thesis by (simp add: puts_eq last_writes_distinct [OF dist])
  qed
  finally have m: "mset (ledger_of ?s') = mset (ledger_of s @ ?rs)" .
  obtain r0 r1 where r: "?rs = [r0, r1]" by (simp add: dist_rows_def distribute_records_def Let_def)
  have "net_rows (bucket_row h) ?rs = - de_HBDAmt d"
    using bucket_row_rows [where h = h and txID = txID and d = d] unfolding r by (simp add: net_rows_def)
  then have "bucket_net (contents ?s') h = bucket_net (contents s) h - de_HBDAmt d"
    using net_rows_mset [OF m, of "bucket_row h"] by (simp add: bucket_net_def net_rows_def)
  then have "sint (bucket_net (contents ?s') h) = sint (bucket_net (contents s) h) - sint (de_HBDAmt d)"
    using sint_debit [of "de_HBDAmt d" "bucket_net (contents s) h"] assms(3,4) by simp
  moreover have "ids_unique (contents ?s')"
    using rows.invar_writes [OF assms(2)] by simp
  moreover have "PendulumDistribute ls (hive_account (de_Account d)) (de_HBDAmt d) (txID @ ''#'' @ hive_account (de_Account d)) h s =
      Some (success ''success'', ?s')"
    using assms(3,4) bucket_read(2) [OF assms(1)] store_fault_free [OF assms(1), of L ?rs]
    by (simp add: PendulumDistribute_def hive_account_simps(1) handle dist_rows_def Let_def)
  ultimately show ?thesis using m assms(1) by (intro exI [of _ ?s']) simp
qed

lemma pays_all:
  shows "faults s = [] \<Longrightarrow> ids_unique (contents s) \<Longrightarrow> distinct (map (\<lambda>d. hive_account (de_Account d)) ds) \<Longrightarrow>
    list_all (\<lambda>d. 0 < sint (de_HBDAmt d)) ds \<Longrightarrow> (\<Sum>d \<leftarrow> ds. sint (de_HBDAmt d)) \<le> sint (bucket_net (contents s) h) \<Longrightarrow>
    lr_Id ` set (concat (map (dist_rows txID h) ds)) \<inter> lr_Id ` set (ledger_of s) = {} \<Longrightarrow>
    \<exists>s'. distribute_all ls txID h ds s = Some (False, s') \<and> faults s' = []
      \<and> mset (ledger_of s') = mset (ledger_of s @ concat (map (dist_rows txID h) ds))
      \<and> sint (bucket_net (contents s') h) = sint (bucket_net (contents s) h) - (\<Sum>d \<leftarrow> ds. sint (de_HBDAmt d))"
proof (induction ds arbitrary: s)
  case Nil
  then show ?case by auto
next
  case (Cons d ds)
  have nn: "0 \<le> (\<Sum>d \<leftarrow> ds. sint (de_HBDAmt d))" using Cons.prems(4) by (intro positive_sum) (simp add: list_all_iff)
  obtain t where t: "PendulumDistribute ls (hive_account (de_Account d)) (de_HBDAmt d) (txID @ ''#'' @ hive_account (de_Account d)) h s =
      Some (success ''success'', t)" "faults t = []" "ids_unique (contents t)" "mset (ledger_of t) = mset (ledger_of s @ dist_rows txID h d)"
      "sint (bucket_net (contents t) h) = sint (bucket_net (contents s) h) - sint (de_HBDAmt d)"
    using pays_one [OF Cons.prems(1,2), of d h txID] Cons.prems(4,5,6) nn by auto
  have "lr_Id r \<noteq> lr_Id r'" if "r \<in> set (dist_rows txID h d)" "d' \<in> set ds" "r' \<in> set (dist_rows txID h d')" for r r' d'
    using dist_ids(1) [OF that(1,3)] Cons.prems(3) that(2) by auto
  then have fresh: "lr_Id ` set (concat (map (dist_rows txID h) ds)) \<inter> lr_Id ` set (ledger_of t) = {}"
    using Cons.prems(6) mset_eq_setD [OF t(4)] by fastforce
  obtain s' where s': "distribute_all ls txID h ds t = Some (False, s')" "faults s' = []"
      "mset (ledger_of s') = mset (ledger_of t @ concat (map (dist_rows txID h) ds))"
      "sint (bucket_net (contents s') h) = sint (bucket_net (contents t) h) - (\<Sum>d \<leftarrow> ds. sint (de_HBDAmt d))"
    using Cons.IH [OF t(2,3) _ _ _ fresh] Cons.prems(3,4,5) t(5) by auto
  have "distribute_all ls txID h (d # ds) s = Some (False, s')"
    using Cons.prems(4) t(1) s'(1) by (simp add: Let_def)
  moreover have "mset (ledger_of s') = mset (ledger_of s @ concat (map (dist_rows txID h) (d # ds)))"
    using s'(3) t(4) by simp
  ultimately show ?case using s'(2,4) t(5) by (intro exI [of _ s']) simp
qed

end

section \<open>Markers in order\<close>

lemma newest_marker_order: "transp newest_marker" "totalp newest_marker" "reflp newest_marker"
  by (auto simp: newest_marker_def transp_def totalp_on_def reflp_def)

lemma latest_is_newest:
  assumes "mongo_collection M" "pe_Settlements se = Some M" "faults ms = []"
  shows "\<forall>x \<in> set (contents ms). mk_Epoch x \<le> fst (GetLatestSettledEpoch se ms)"
    and "contents ms \<noteq> [] \<Longrightarrow> fst (GetLatestSettledEpoch se ms) \<in> mk_Epoch ` set (contents ms)"
proof -
  let ?f = "FindOne M (\<lambda>_. True) newest_marker (contents ms)"
  have l: "fst (GetLatestSettledEpoch se ms) = (case ?f of None \<Rightarrow> 0 | Some r \<Rightarrow> mk_Epoch r)"
    using assms(2,3) by (simp add: GetLatestSettledEpoch_def db_GetLatestSettledEpoch_def db_call_def split: option.split)
  have none: "?f = None \<longleftrightarrow> contents ms = []" using mongo_collection.find_one_none [OF assms(1), of "\<lambda>_. True" newest_marker] by auto
  have some: "r \<in> set (contents ms)" "\<forall>y \<in> set (contents ms). mk_Epoch y \<le> mk_Epoch r" if "?f = Some r" for r
    using mongo_collection.find_one_some [OF assms(1) that] mongo_collection.find_one_first [OF assms(1) newest_marker_order that]
    by (auto simp: newest_marker_def)
  show "\<forall>x \<in> set (contents ms). mk_Epoch x \<le> fst (GetLatestSettledEpoch se ms)"
    using none some unfolding l by (cases ?f) auto
  show "contents ms \<noteq> [] \<Longrightarrow> fst (GetLatestSettledEpoch se ms) \<in> mk_Epoch ` set (contents ms)"
    using none some unfolding l by (cases ?f) auto
qed

lemma latest_after_save:
  assumes "mongo_collection M" "pe_Settlements se = Some M" "faults ms = []" "fst (GetLatestSettledEpoch se ms) < mk_Epoch m"
  defines "ms' \<equiv> snd (SaveMarker M m ms)"
  shows "faults ms' = []" "GetLatestSettledEpoch se ms' = (mk_Epoch m, ms')"
proof -
  show f: "faults ms' = []" using assms(3) by (simp add: ms'_def SaveMarker_def db_call_def)
  have "\<forall>x \<in> set (contents ms). mk_Epoch x \<noteq> mk_Epoch m"
    using latest_is_newest(1) [OF assms(1-3)] assms(4) by (auto dest: leD)
  then have "mset (contents ms') = mset (m # contents ms)"
    using mongo_collection.upsert_miss [OF assms(1), of "contents ms" "\<lambda>d. mk_Epoch d = mk_Epoch m" m] assms(3)
    by (simp add: ms'_def SaveMarker_def db_call_def)
  then have set: "set (contents ms') = insert m (set (contents ms))" by (metis list.set(2) mset_eq_setD)
  then have "contents ms' \<noteq> []" by auto
  note n = latest_is_newest(1) [OF assms(1,2) f] latest_is_newest(2) [OF assms(1,2) f this]
  have "fst (GetLatestSettledEpoch se ms') = mk_Epoch m"
  proof -
    have "mk_Epoch m \<le> fst (GetLatestSettledEpoch se ms')" using n(1) unfolding set by simp
    moreover have "mk_Epoch x < mk_Epoch m" if "x \<in> set (contents ms)" for x
      using latest_is_newest(1) [OF assms(1-3)] assms(4) that by (meson le_less_trans)
    ultimately show ?thesis using n(2) unfolding set by (auto dest: leD)
  qed
  then show "GetLatestSettledEpoch se ms' = (mk_Epoch m, ms')"
    using latest_fault_free [OF f, of se] by (metis prod.collapse)
qed

definition fresh_settlement :: "SettlementRecord \<Rightarrow> uint64 \<Rightarrow> dbs \<Rightarrow> bool" where
  "fresh_settlement rec h s \<longleftrightarrow> faults s = [] \<and> ids_unique (contents s) \<and> distinct_payees rec
     \<and> list_all (\<lambda>d. 0 < sint (de_HBDAmt d)) (elems (sr_Distributions rec))
     \<and> (\<Sum>d \<leftarrow> elems (sr_Distributions rec). sint (de_HBDAmt d)) \<le> sint (bucket_net (contents s) h)
     \<and> lr_Id ` set (settlement_rows rec h) \<inter> lr_Id ` set (ledger_of s) = {}"



end
