(* ===== verification/Timelock.thy ===== *)
theory Timelock
  imports Delegation
begin

text \<open>
  The timelock on leaving the share mode (modules/state-processing/delegation_mode.go), over the witness rows
  that hold the announcements (modules/db/vsc/witnesses): an announcement upserts the row of its account and
  height and prunes the older rows; a change that would take the reward share from delegators is stored with
  the mode that stays in force and the epoch at which the announced one replaces it.

  A row carries the fields these operations read and write; its other fields (keys, peer addresses,
  versions) do not influence them. The six rows the pruning reads come in the first batch of the cursor, and rows
  decode: only the calls themselves fail. The election of a height, read with \<open>GetElectionInfoOrBlock\<close>, which
  retries until the read succeeds, is an argument.
\<close>

section \<open>Rows\<close>

record Witness =
  wt_Account :: string
  wt_Height :: uint64
  wt_DelegationMode :: string
  wt_DelegationModeEffective :: string
  wt_DelegationModeMaturityEpoch :: uint64

type_synonym witness_db = "Witness list server"

record ElectionInfo =
  el_Epoch :: uint64
  el_Version :: Version

definition DelegatedStakeActiveForElection :: "ElectionInfo \<Rightarrow> bool" where
  "DelegatedStakeActiveForElection elec = DelegatedStakeActive (el_Version elec)"

definition CONSENSUS_UNSTAKE_LOCK_EPOCHS :: uint64 where
  "CONSENSUS_UNSTAKE_LOCK_EPOCHS = 5"

definition DELEGATION_DOWNGRADE_LOCK_EPOCHS :: uint64 where
  "DELEGATION_DOWNGRADE_LOCK_EPOCHS = CONSENSUS_UNSTAKE_LOCK_EPOCHS + 1"

definition newest_row :: "Witness \<Rightarrow> Witness \<Rightarrow> bool" where
  "newest_row a b \<longleftrightarrow> wt_Height b \<le> wt_Height a"

definition below :: "string \<Rightarrow> uint64 \<Rightarrow> Witness \<Rightarrow> bool" where
  "below account bh w \<longleftrightarrow> wt_Account w = account \<and> wt_Height w < bh"

definition GetWitnessAtHeight :: "Witness collection \<Rightarrow> string \<Rightarrow> uint64 \<Rightarrow> witness_db \<Rightarrow> (db_error + Witness) \<times> witness_db" where
  "GetWitnessAtHeight W account bh s =
     (case db_read (FindOne W (below account bh) newest_row) s of
        (Inl e, s) \<Rightarrow> (Inl e, s)
      | (Inr None, s) \<Rightarrow> (Inl NoDocuments, s)
      | (Inr (Some w), s) \<Rightarrow> (Inr w, s))"

definition getWitnessAtHeightOrBlock :: "Witness collection \<Rightarrow> string \<Rightarrow> uint64 \<Rightarrow> witness_db \<Rightarrow> (Witness option \<times> witness_db) option" where
  "getWitnessAtHeightOrBlock W account height =
     blockingRetry (\<lambda>s. case GetWitnessAtHeight W account height s of
        (Inr w, s) \<Rightarrow> (Inr (Some w), s)
      | (Inl NoDocuments, s) \<Rightarrow> (Inr None, s)
      | (Inl e, s) \<Rightarrow> (Inl e, s))"

section \<open>The mode in force\<close>

definition effectiveDelegationMode :: "Witness \<Rightarrow> uint64 \<Rightarrow> bool \<Rightarrow> string" where
  "effectiveDelegationMode w currentEpoch gateActive =
     (let target = Normalize (wt_DelegationMode w) in
      if wt_DelegationModeMaturityEpoch w = 0 \<or> \<not> gateActive \<or> wt_DelegationModeMaturityEpoch w \<le> currentEpoch then target
      else Normalize (wt_DelegationModeEffective w))"

definition resolveDelegationMode :: "(uint64 \<Rightarrow> ElectionInfo option) \<Rightarrow> Witness \<Rightarrow> uint64 \<Rightarrow> string" where
  "resolveDelegationMode electionAt w blockHeight =
     (if wt_DelegationModeMaturityEpoch w = 0 then Normalize (wt_DelegationMode w)
      else case electionAt blockHeight of
             None \<Rightarrow> effectiveDelegationMode w 0 False
           | Some elec \<Rightarrow> effectiveDelegationMode w (el_Epoch elec) (DelegatedStakeActiveForElection elec))"

definition NodeDelegationMode ::
  "Witness collection option \<Rightarrow> (uint64 \<Rightarrow> ElectionInfo option) \<Rightarrow> string \<Rightarrow> uint64 \<Rightarrow> witness_db \<Rightarrow> (string \<times> witness_db) option" where
  "NodeDelegationMode witnessDb electionAt account blockHeight s =
     (case witnessDb of
        None \<Rightarrow> Some (Mode_Default, s)
      | Some W \<Rightarrow>
          if account = [] then Some (Mode_Default, s)
          else do {
            (w, s) \<leftarrow> getWitnessAtHeightOrBlock W (TrimPrefix account ''hive:'') blockHeight s;
            Some (case w of None \<Rightarrow> Mode_Default | Some w \<Rightarrow> resolveDelegationMode electionAt w blockHeight, s)
          })"

text \<open>The reading of the API; here the election read may fail, \<open>Inl\<close>.\<close>

definition NodeDelegationModeBestEffort ::
  "Witness collection option \<Rightarrow> (uint64 \<Rightarrow> db_error + ElectionInfo) \<Rightarrow> string \<Rightarrow> uint64 \<Rightarrow> witness_db \<Rightarrow> string option \<times> witness_db" where
  "NodeDelegationModeBestEffort witnessDb electionByHeight account blockHeight s =
     (case witnessDb of
        None \<Rightarrow> (None, s)
      | Some W \<Rightarrow>
          if account = [] then (None, s)
          else case GetWitnessAtHeight W (TrimPrefix account ''hive:'') blockHeight s of
            (Inl e, s) \<Rightarrow> (None, s)
          | (Inr w, s) \<Rightarrow>
              if wt_DelegationModeMaturityEpoch w = 0 then (Some (Normalize (wt_DelegationMode w)), s)
              else (case electionByHeight blockHeight of
                      Inl e \<Rightarrow> (None, s)
                    | Inr elec \<Rightarrow> (Some (effectiveDelegationMode w (el_Epoch elec) (DelegatedStakeActiveForElection elec)), s)))"

section \<open>Announcements\<close>

definition timelock_decision :: "uint64 \<Rightarrow> Witness option \<Rightarrow> string \<Rightarrow> string \<times> uint64" where
  "timelock_decision epoch prev target =
     (let (effNow, pPending, pTarget, pMaturity) =
        (case prev of
           None \<Rightarrow> (target, False, [], 0)
         | Some p \<Rightarrow>
             let pTarget = Normalize (wt_DelegationMode p); maturity = wt_DelegationModeMaturityEpoch p in
             if maturity \<noteq> 0 \<and> epoch < maturity
             then (Normalize (wt_DelegationModeEffective p), True, pTarget, maturity)
             else (pTarget, False, pTarget, maturity))
      in if IsAdverseTransition effNow target then
           (if pPending \<and> pTarget = target then (effNow, pMaturity)
            else (effNow, epoch + DELEGATION_DOWNGRADE_LOCK_EPOCHS))
         else ([], 0))"

definition computeDelegationTimelock ::
  "Witness collection \<Rightarrow> (uint64 \<Rightarrow> ElectionInfo option) \<Rightarrow> string \<Rightarrow> uint64 \<Rightarrow> string \<Rightarrow> witness_db \<Rightarrow> ((string \<times> uint64) \<times> witness_db) option" where
  "computeDelegationTimelock W electionAt account Hn announced s =
     (let target = Normalize announced in
      case electionAt Hn of
        None \<Rightarrow> Some (([], 0), s)
      | Some elec \<Rightarrow>
          if \<not> DelegatedStakeActiveForElection elec then Some (([], 0), s)
          else do {
            (prev, s) \<leftarrow> getWitnessAtHeightOrBlock W (TrimPrefix account ''hive:'') Hn s;
            Some (timelock_decision (el_Epoch elec) prev target, s)
          })"

record SetWitnessUpdateType =
  up_Account :: string
  up_Height :: uint64
  up_HasConsensusKey :: bool
  up_DelegationMode :: string
  up_DelegationModeEffective :: string
  up_DelegationModeMaturityEpoch :: uint64

text \<open>\<open>$set\<close> on the row of the account and height, or on the row an upsert makes; the two fields of the timelock only when one is pending.\<close>

definition set_row :: "SetWitnessUpdateType \<Rightarrow> Witness \<Rightarrow> Witness" where
  "set_row request w =
     (let w = w\<lparr>wt_DelegationMode := up_DelegationMode request\<rparr> in
      if up_DelegationModeMaturityEpoch request \<noteq> 0
      then w\<lparr>wt_DelegationModeEffective := up_DelegationModeEffective request,
             wt_DelegationModeMaturityEpoch := up_DelegationModeMaturityEpoch request\<rparr>
      else w)"

definition update_row :: "Witness collection \<Rightarrow> SetWitnessUpdateType \<Rightarrow> Witness list \<Rightarrow> Witness list" where
  "update_row W request rs =
     (let query = (\<lambda>w. wt_Account w = up_Account request \<and> wt_Height w = up_Height request);
          empty = \<lparr>wt_Account = up_Account request, wt_Height = up_Height request, wt_DelegationMode = [],
            wt_DelegationModeEffective = [], wt_DelegationModeMaturityEpoch = 0\<rparr>
      in Upsert W query (set_row request (case FindOne W query (\<lambda>_ _. True) rs of None \<Rightarrow> empty | Some w \<Rightarrow> w)) rs)"

text \<open>The result \<open>None\<close> is the error of an announcement without a consensus key; the errors of the two writes are dropped.\<close>

definition SetWitnessUpdate :: "Witness collection \<Rightarrow> SetWitnessUpdateType \<Rightarrow> witness_db \<Rightarrow> (db_error + unit) option \<times> witness_db" where
  "SetWitnessUpdate W request s =
     (if \<not> up_HasConsensusKey request then (None, s)
      else let (_, s) = db_write (update_row W request) s in
        case db_read (\<lambda>rs. take 6 (Find W (\<lambda>w. wt_Account w = up_Account request) newest_row rs)) s of
          (Inl e, s) \<Rightarrow> (Some (Inl e), s)
        | (Inr found, s) \<Rightarrow>
            if found = [] then (Some (Inr ()), s)
            else let (_, s) = db_write (DeleteMany W (\<lambda>w. wt_Account w = up_Account request \<and> wt_Height w < wt_Height (last found))) s
                 in (Some (Inr ()), s))"

text \<open>
  The end of the handler of an account update, for an announcement that passed the checks of its key proofs;
  the result of the store is not looked at. The handler runs once for each such operation of the chain.
\<close>

definition announce ::
  "Witness collection \<Rightarrow> (uint64 \<Rightarrow> ElectionInfo option) \<Rightarrow> string \<Rightarrow> uint64 \<times> bool \<times> string \<Rightarrow> witness_db \<Rightarrow> witness_db option" where
  "announce W electionAt acct ann s = do {
     let (height, key, mode) = ann;
     ((effective, maturity), s) \<leftarrow> computeDelegationTimelock W electionAt acct height mode s;
     Some (snd (SetWitnessUpdate W \<lparr>up_Account = acct, up_Height = height, up_HasConsensusKey = key, up_DelegationMode = mode,
       up_DelegationModeEffective = effective, up_DelegationModeMaturityEpoch = maturity\<rparr> s))
   }"

fun announce_all ::
  "Witness collection \<Rightarrow> (uint64 \<Rightarrow> ElectionInfo option) \<Rightarrow> string \<Rightarrow> (uint64 \<times> bool \<times> string) list \<Rightarrow> witness_db \<Rightarrow> witness_db option" where
  "announce_all W electionAt acct [] s = Some s"
| "announce_all W electionAt acct (a # as) s = do {
     s \<leftarrow> announce W electionAt acct a s;
     announce_all W electionAt acct as s
   }"

section \<open>Reads\<close>

lemma or_block_reads:
  "getWitnessAtHeightOrBlock W account h s =
     Some (FindOne W (below account h) newest_row (contents s), s\<lparr>faults := settle (faults s)\<rparr>)"
proof -
  have "(\<lambda>s. case GetWitnessAtHeight W account h s of (Inr w, s) \<Rightarrow> (Inr (Some w), s) | (Inl NoDocuments, s) \<Rightarrow> (Inr None, s) | (Inl e, s) \<Rightarrow> (Inl e, s)) =
      db_read (FindOne W (below account h) newest_row)"
    by (auto simp: GetWitnessAtHeight_def db_call_def fun_eq_iff split: list.split call_outcome.split option.split)
  then show ?thesis by (simp add: getWitnessAtHeightOrBlock_def)
qed

lemma Normalize_modes: "Normalize Share = Share" "Normalize Custom = Custom" "Normalize Deactivated = Deactivated"
  by code_simp+

lemma Normalize_idem [simp]: "Normalize (Normalize s) = Normalize s"
  by (auto simp: Normalize_def [of s] Let_def Normalize_modes Mode_Default_def)

lemma newest_row_order: "transp newest_row" "totalp newest_row" "reflp newest_row"
  by (auto simp: newest_row_def transp_def totalp_on_def reflp_def)

section \<open>Protected rows\<close>

text \<open>A row under which the share mode is in force in every epoch before \<open>e0\<close> plus the lock.\<close>

definition protected :: "uint64 \<Rightarrow> Witness \<Rightarrow> bool" where
  "protected e0 w \<longleftrightarrow>
     (if wt_DelegationModeMaturityEpoch w = 0 then Normalize (wt_DelegationMode w) = Share
      else e0 + DELEGATION_DOWNGRADE_LOCK_EPOCHS \<le> wt_DelegationModeMaturityEpoch w \<and> Normalize (wt_DelegationModeEffective w) = Share)"

text \<open>An epoch in which the lock of an announcement at \<open>e0\<close> still holds; the sum does not wrap around.\<close>

definition locked_epoch :: "uint64 \<Rightarrow> uint64 \<Rightarrow> bool" where
  "locked_epoch e0 e \<longleftrightarrow> e0 \<le> e \<and> e < e0 + DELEGATION_DOWNGRADE_LOCK_EPOCHS \<and> unat e0 + 12 < 2 ^ 64"

lemma lock_epochs: "DELEGATION_DOWNGRADE_LOCK_EPOCHS = 6"
  by (simp add: DELEGATION_DOWNGRADE_LOCK_EPOCHS_def CONSENSUS_UNSTAKE_LOCK_EPOCHS_def)

lemma locked_later:
  assumes "locked_epoch e0 e"
  shows "e0 + DELEGATION_DOWNGRADE_LOCK_EPOCHS \<le> e + DELEGATION_DOWNGRADE_LOCK_EPOCHS" "e + DELEGATION_DOWNGRADE_LOCK_EPOCHS \<noteq> 0"
proof -
  have u: "unat (e0 + 6) = unat e0 + 6" using assms by (subst unat_add_lem [THEN iffD1]) (auto simp: locked_epoch_def)
  then have e: "unat e0 \<le> unat e" "unat e < unat e0 + 6"
    using assms unfolding locked_epoch_def lock_epochs by (auto simp: word_le_nat_alt word_less_nat_alt)
  then have v: "unat (e + 6) = unat e + 6" using assms by (subst unat_add_lem [THEN iffD1]) (auto simp: locked_epoch_def)
  show "e0 + DELEGATION_DOWNGRADE_LOCK_EPOCHS \<le> e + DELEGATION_DOWNGRADE_LOCK_EPOCHS"
    using u v e unfolding lock_epochs by (simp add: word_le_nat_alt)
  show "e + DELEGATION_DOWNGRADE_LOCK_EPOCHS \<noteq> 0" using v unfolding lock_epochs by (metis add_is_0 unat_0 zero_neq_numeral)
qed

lemma protected_mode:
  assumes "protected e0 w" "locked_epoch e0 (el_Epoch e)" "DelegatedStakeActiveForElection e" "electionAt h = Some e"
  shows "resolveDelegationMode electionAt w h = Share"
  using assms by (auto simp: resolveDelegationMode_def effectiveDelegationMode_def protected_def locked_epoch_def Let_def split: if_splits)

lemma timelock_protects:
  assumes "protected e0 p" "locked_epoch e0 e" "timelock_decision e (Some p) (Normalize announced) = (eff, mat)"
  shows "mat = 0 \<and> Normalize announced = Share
    \<or> mat \<noteq> 0 \<and> e0 + DELEGATION_DOWNGRADE_LOCK_EPOCHS \<le> mat \<and> Normalize eff = Share"
proof -
  have pend: "e < wt_DelegationModeMaturityEpoch p" if "wt_DelegationModeMaturityEpoch p \<noteq> 0"
    using that assms(1,2) by (auto simp: protected_def locked_epoch_def)
  show ?thesis
    using assms(1,3) pend locked_later [OF assms(2)]
    by (auto simp: timelock_decision_def protected_def IsAdverseTransition_def SharesRewards_def Let_def Normalize_modes split: if_splits)
qed

lemma set_row_protected:
  assumes "mat = 0 \<and> Normalize announced = Share
    \<or> mat \<noteq> 0 \<and> e0 + DELEGATION_DOWNGRADE_LOCK_EPOCHS \<le> mat \<and> Normalize eff = Share"
    and "protected e0 w \<or> wt_DelegationModeMaturityEpoch w = 0"
    and "up_DelegationMode request = announced" "up_DelegationModeEffective request = eff" "up_DelegationModeMaturityEpoch request = mat"
  shows "protected e0 (set_row request w)"
  using assms by (auto simp: set_row_def protected_def Let_def split: if_splits)

end
