(* ===== verification/Timelock_Spec.thy ===== *)
theory Timelock_Spec
  imports Timelock
begin

text \<open>
  What the timelock of Timelock.thy gives to delegators: once an account has announced the share mode, no
  sequence of later announcements takes it out of force before the lock has passed, whichever calls to the
  database fail, and although each announcement prunes the older rows.
\<close>

section \<open>The rows of an account\<close>

definition row_key :: "Witness \<Rightarrow> string \<times> uint64" where
  "row_key w = (wt_Account w, wt_Height w)"

text \<open>The rows of an account that announced the share mode at height \<open>h0\<close>, processed up to height \<open>cur\<close>.\<close>

definition share_rows :: "string \<Rightarrow> uint64 \<Rightarrow> uint64 \<Rightarrow> uint64 \<Rightarrow> Witness list \<Rightarrow> bool" where
  "share_rows acct h0 e0 cur rs \<longleftrightarrow> distinct (map row_key rs)
     \<and> (\<forall>w \<in> set rs. wt_Account w = acct \<longrightarrow> wt_Height w \<le> cur \<and> (h0 \<le> wt_Height w \<longrightarrow> protected e0 w))
     \<and> (\<exists>w \<in> set rs. wt_Account w = acct \<and> h0 \<le> wt_Height w \<and> wt_Height w < cur)"

lemma share_rows_later: "share_rows acct h0 e0 cur rs \<Longrightarrow> cur \<le> cur' \<Longrightarrow> share_rows acct h0 e0 cur' rs"
  unfolding share_rows_def by (meson order_trans order_less_le_trans)

lemma put_keeps:
  assumes "share_rows acct h0 e0 cur rs" "mset rs' = put row_key d (mset rs)"
    and "wt_Account d = acct" "wt_Height d = cur" "protected e0 d"
  shows "share_rows acct h0 e0 cur rs'"
proof -
  have "set_mset (mset rs') = insert d {x \<in> set rs. row_key x \<noteq> row_key d}"
    unfolding assms(2) put_def by auto
  then have rows: "set rs' = insert d {x \<in> set rs. row_key x \<noteq> row_key d}" by simp
  have keys: "distinct (map row_key rs')"
    using assms(1) put_distinct [OF _ assms(2)] by (simp add: share_rows_def)
  obtain w where w: "w \<in> set rs" "wt_Account w = acct" "h0 \<le> wt_Height w" "wt_Height w < cur"
    using assms(1) by (auto simp: share_rows_def)
  then have "w \<in> set rs'" using assms(4) by (auto simp: rows row_key_def)
  with w assms(1,3-5) keys show ?thesis unfolding share_rows_def rows by blast
qed

lemma selected_rows:
  assumes "mset ys = filter_mset P (mset xs)" "distinct (map key xs)"
  shows "set ys = {x \<in> set xs. P x}" "distinct (map key ys)"
proof -
  have m: "mset ys = mset (filter P xs)" using assms(1) by simp
  show "set ys = {x \<in> set xs. P x}" using mset_eq_setD [OF m] by simp
  have "mset (map key ys) = mset (map key (filter P xs))" using m by simp
  moreover have "distinct (map key (filter P xs))" using assms(2) by (rule distinct_map_filter)
  ultimately show "distinct (map key ys)" using mset_eq_imp_distinct_iff by blast
qed

text \<open>The oldest of the newest rows is one that stays, or older than one that stays.\<close>

lemma prune_keeps:
  assumes rows: "share_rows acct h0 e0 cur rs"
    and found: "mset all = filter_mset (\<lambda>w. wt_Account w = acct) (mset rs)" "sorted_wrt newest_row all" "take 6 all \<noteq> []"
  shows "\<exists>w \<in> set rs. wt_Account w = acct \<and> h0 \<le> wt_Height w \<and> wt_Height w < cur \<and> wt_Height (last (take 6 all)) \<le> wt_Height w"
proof -
  let ?l = "last (take 6 all)"
  obtain w where w: "w \<in> set rs" "wt_Account w = acct" "h0 \<le> wt_Height w" "wt_Height w < cur"
    using rows by (auto simp: share_rows_def)
  have "distinct (map row_key rs)" using rows by (simp add: share_rows_def)
  note set_all = selected_rows(1) [OF found(1) this] and dist = selected_rows(2) [OF found(1) this]
  have l: "?l \<in> set all" by (rule in_set_takeD [OF last_in_set [OF found(3)]])
  then have l': "?l \<in> set rs" "wt_Account ?l = acct" by (auto simp: set_all)
  show ?thesis
  proof (cases "wt_Height ?l \<le> wt_Height w")
    case True
    with w show ?thesis by blast
  next
    case False
    obtain x xs where xs: "all = x # xs" using found(3) by (cases all) auto
    have "w \<in> set all" using w by (simp add: set_all)
    with False have "xs \<noteq> []" by (auto simp: xs)
    moreover have "take 6 all = x # take 5 xs" by (simp add: xs numeral_eq_Suc)
    ultimately have "?l \<in> set (take 5 xs)" by (cases xs) auto
    then have l_xs: "?l \<in> set xs" by (rule in_set_takeD)
    then have "wt_Height ?l \<le> wt_Height x" using found(2) by (simp add: xs newest_row_def)
    moreover have "row_key ?l \<noteq> row_key x" using dist imageI [OF l_xs, of row_key] by (auto simp: xs)
    moreover have x: "x \<in> set rs" "wt_Account x = acct" using set_all by (auto simp: xs)
    ultimately have "wt_Height ?l < wt_Height x" using l' by (auto simp: row_key_def)
    also have "\<dots> \<le> cur" using rows x by (simp add: share_rows_def)
    finally show ?thesis using l' w(3) False by (intro bexI [of _ ?l]) auto
  qed
qed

lemma delete_rows:
  assumes "share_rows acct h0 e0 cur rs" "mset rs' = filter_mset (\<lambda>w. \<not> (wt_Account w = acct \<and> wt_Height w < b)) (mset rs)"
    and "\<exists>w \<in> set rs. wt_Account w = acct \<and> h0 \<le> wt_Height w \<and> wt_Height w < cur \<and> b \<le> wt_Height w"
  shows "share_rows acct h0 e0 cur rs'"
proof -
  have "distinct (map row_key rs)" using assms(1) by (simp add: share_rows_def)
  note kept = selected_rows [OF assms(2) this]
  show ?thesis using assms(1,3) kept unfolding share_rows_def by (auto simp: not_less)
qed

lemma write_rows:
  "P (contents s) \<Longrightarrow> P (f (contents s)) \<Longrightarrow> P (contents (snd (db_write f s)))"
  by (auto simp: db_call_def split: list.split call_outcome.split)

lemma witness_read_contents [simp]: "contents (snd (db_read q s)) = contents s"
  by (auto simp: db_call_def split: list.split call_outcome.split)

lemma read_value: "db_read q s = (Inr v, s') \<Longrightarrow> v = q (contents s)"
  by (auto simp: db_call_def split: list.splits call_outcome.splits)

section \<open>Announcements\<close>

text \<open>An announcement at height \<open>h\<close> in an epoch the lock covers.\<close>

definition covered :: "(uint64 \<Rightarrow> ElectionInfo option) \<Rightarrow> uint64 \<Rightarrow> uint64 \<Rightarrow> bool" where
  "covered electionAt e0 h \<longleftrightarrow>
     (case electionAt h of None \<Rightarrow> False | Some e \<Rightarrow> DelegatedStakeActiveForElection e \<and> locked_epoch e0 (el_Epoch e))"

locale witness_rows = mongo_collection W
  for W :: "Witness collection"
begin

lemma newest_protected:
  assumes "share_rows acct h0 e0 cur rs" "cur \<le> h"
  obtains p where "FindOne W (below acct h) newest_row rs = Some p" "protected e0 p"
proof -
  obtain w where w: "w \<in> set rs" "wt_Account w = acct" "h0 \<le> wt_Height w" "wt_Height w < cur"
    using assms(1) by (auto simp: share_rows_def)
  then have b: "below acct h w" using assms(2) by (auto simp: below_def)
  then obtain p where p: "FindOne W (below acct h) newest_row rs = Some p"
    using find_one_none [of "below acct h" newest_row rs] w(1) by fastforce
  have "newest_row p w" by (rule find_one_first [OF newest_row_order p w(1) b])
  moreover have "p \<in> set rs \<and> below acct h p" by (rule find_one_some [OF p])
  ultimately have "protected e0 p"
    using assms(1) w(3) by (auto simp: share_rows_def below_def newest_row_def)
  with p that show ?thesis by blast
qed

lemma update_keeps:
  assumes rows: "share_rows acct h0 e0 (up_Height r) rs" and acct: "up_Account r = acct" "h0 \<le> up_Height r"
    and safe: "up_DelegationModeMaturityEpoch r = 0 \<and> Normalize (up_DelegationMode r) = Share
      \<or> up_DelegationModeMaturityEpoch r \<noteq> 0 \<and> e0 + DELEGATION_DOWNGRADE_LOCK_EPOCHS \<le> up_DelegationModeMaturityEpoch r
        \<and> Normalize (up_DelegationModeEffective r) = Share"
  shows "share_rows acct h0 e0 (up_Height r) (update_row W r rs)"
proof -
  let ?q = "\<lambda>w. wt_Account w = up_Account r \<and> wt_Height w = up_Height r"
  obtain w where w: "update_row W r rs = Upsert W ?q (set_row r w) rs" "?q w" "protected e0 w \<or> wt_DelegationModeMaturityEpoch w = 0"
  proof (cases "FindOne W ?q (\<lambda>_ _. True) rs")
    case None
    then show thesis by (intro that) (auto simp: update_row_def Let_def)
  next
    case (Some w)
    from find_one_some [OF Some] have "w \<in> set rs" "?q w" by auto
    with rows acct Some show thesis by (intro that [of w]) (auto simp: update_row_def Let_def share_rows_def)
  qed
  let ?d = "set_row r w"
  have d: "wt_Account ?d = acct" "wt_Height ?d = up_Height r" using w(2) acct by (simp_all add: set_row_def Let_def)
  have "?q = (\<lambda>x. row_key x = row_key ?d)" using d acct by (auto simp: row_key_def fun_eq_iff)
  then have "mset (update_row W r rs) = put row_key ?d (mset rs)"
    using upsert_put [of row_key rs ?d] rows by (simp add: w(1) share_rows_def)
  moreover have "protected e0 ?d" by (rule set_row_protected [OF safe w(3)]) simp_all
  ultimately show ?thesis using put_keeps [OF rows] d by blast
qed

lemma store_keeps:
  assumes rows: "share_rows acct h0 e0 (up_Height r) (contents s)" and acct: "up_Account r = acct" "h0 \<le> up_Height r"
    and safe: "up_DelegationModeMaturityEpoch r = 0 \<and> Normalize (up_DelegationMode r) = Share
      \<or> up_DelegationModeMaturityEpoch r \<noteq> 0 \<and> e0 + DELEGATION_DOWNGRADE_LOCK_EPOCHS \<le> up_DelegationModeMaturityEpoch r
        \<and> Normalize (up_DelegationModeEffective r) = Share"
  shows "share_rows acct h0 e0 (up_Height r) (contents (snd (SetWitnessUpdate W r s)))"
proof -
  let ?I = "share_rows acct h0 e0 (up_Height r)"
  let ?s1 = "snd (db_write (update_row W r) s)"
  let ?all = "\<lambda>rs. Find W (\<lambda>w. wt_Account w = up_Account r) newest_row rs"
  let ?del = "\<lambda>b. DeleteMany W (\<lambda>w. wt_Account w = up_Account r \<and> wt_Height w < b)"
  have s1: "?I (contents ?s1)" using write_rows [of ?I s "update_row W r"] rows update_keeps [OF rows acct safe] by blast
  obtain res s2 where read: "db_read (\<lambda>rs. take 6 (?all rs)) ?s1 = (res, s2)" by fastforce
  have s2: "contents s2 = contents ?s1" using witness_read_contents [of "\<lambda>rs. take 6 (?all rs)" ?s1] by (simp add: read)
  have prune: "?I (contents (snd (db_write (?del (wt_Height (last found))) s2)))" if "res = Inr found" "found \<noteq> []" for found
  proof (rule write_rows)
    show "?I (contents s2)" using s1 s2 by simp
    have f: "found = take 6 (?all (contents ?s1))" by (rule read_value [OF read [unfolded that(1)]])
    have "\<exists>w \<in> set (contents ?s1). wt_Account w = acct \<and> h0 \<le> wt_Height w \<and> wt_Height w < up_Height r \<and> wt_Height (last found) \<le> wt_Height w"
      unfolding f by (rule prune_keeps [OF s1]) (use that(2) f acct in \<open>simp_all add: find_docs find_sorted [OF newest_row_order]\<close>)
    then show "?I (?del (wt_Height (last found)) (contents s2))"
      using delete_rows [OF s1, of _ "wt_Height (last found)"] acct s2 by (simp add: delete_many)
  qed
  show ?thesis
    using rows s1 s2 read prune unfolding SetWitnessUpdate_def
    by (auto simp: Let_def case_prod_beta split: sum.split)
qed

end

context witness_rows
begin

lemma announce_keeps:
  assumes rows: "share_rows acct h0 e0 cur (contents s)" and acct: "TrimPrefix acct ''hive:'' = acct"
    and h: "h0 \<le> h" "cur \<le> h" "covered electionAt e0 h"
  obtains s' where "announce W electionAt acct (h, k, mode) s = Some s'" "share_rows acct h0 e0 h (contents s')"
proof -
  obtain p where p: "FindOne W (below acct h) newest_row (contents s) = Some p" "protected e0 p"
    by (rule newest_protected [OF rows h(2)])
  obtain e where e: "electionAt h = Some e" "DelegatedStakeActiveForElection e" "locked_epoch e0 (el_Epoch e)"
    using h(3) by (auto simp: covered_def split: option.splits)
  obtain eff mat where dec: "timelock_decision (el_Epoch e) (Some p) (Normalize mode) = (eff, mat)" by fastforce
  let ?s = "s\<lparr>faults := settle (faults s)\<rparr>"
  let ?r = "\<lparr>up_Account = acct, up_Height = h, up_HasConsensusKey = k, up_DelegationMode = mode,
    up_DelegationModeEffective = eff, up_DelegationModeMaturityEpoch = mat\<rparr>"
  have "computeDelegationTimelock W electionAt acct h mode s = Some ((eff, mat), ?s)"
    using p e dec acct by (simp add: computeDelegationTimelock_def or_block_reads)
  then have "announce W electionAt acct (h, k, mode) s = Some (snd (SetWitnessUpdate W ?r ?s))"
    by (simp add: announce_def)
  moreover have "share_rows acct h0 e0 (up_Height ?r) (contents (snd (SetWitnessUpdate W ?r ?s)))"
    using timelock_protects [OF p(2) e(3) dec] share_rows_later [OF rows h(2)] h(1) by (intro store_keeps) simp_all
  ultimately show ?thesis using that by simp
qed

lemma announcements_keep:
  assumes "share_rows acct h0 e0 cur (contents s)" "TrimPrefix acct ''hive:'' = acct" "h0 < cur"
    and "sorted (cur # map fst as)" "\<forall>a \<in> set as. covered electionAt e0 (fst a)"
  shows "\<exists>s'. announce_all W electionAt acct as s = Some s'
    \<and> share_rows acct h0 e0 (last (cur # map fst as)) (contents s')"
  using assms
proof (induction as arbitrary: s cur)
  case Nil
  then show ?case by simp
next
  case (Cons a as)
  obtain h k mode where a: "a = (h, k, mode)" by (cases a)
  have h: "h0 \<le> h" "cur \<le> h" "covered electionAt e0 h" using Cons.prems by (auto simp: a)
  obtain s' where s': "announce W electionAt acct (h, k, mode) s = Some s'" "share_rows acct h0 e0 h (contents s')"
    by (rule announce_keeps [OF Cons.prems(1,2) h])
  have "\<exists>s''. announce_all W electionAt acct as s' = Some s'' \<and> share_rows acct h0 e0 (last (h # map fst as)) (contents s'')"
    using Cons.prems(3-) h by (intro Cons.IH [OF s'(2) Cons.prems(2)]) (auto simp: a)
  with s'(1) show ?case by (simp add: a)
qed

lemma mode_kept:
  assumes rows: "share_rows acct h0 e0 cur (contents s)" and h: "cur \<le> h" "covered electionAt e0 h"
  shows "\<exists>s'. NodeDelegationMode (Some W) electionAt (''hive:'' @ acct) h s = Some (Share, s')"
proof -
  obtain p where p: "FindOne W (below acct h) newest_row (contents s) = Some p" "protected e0 p"
    by (rule newest_protected [OF rows h(1)])
  then have "resolveDelegationMode electionAt p h = Share"
    using h(2) by (auto simp: covered_def intro: protected_mode split: option.splits)
  moreover have "TrimPrefix (''hive:'' @ acct) ''hive:'' = acct" by (simp add: TrimPrefix_def HasPrefix_def)
  ultimately show ?thesis using p(1) by (simp add: NodeDelegationMode_def or_block_reads)
qed

end

interpretation list_rows: witness_rows list_collection
  by unfold_locales

text \<open>
  C19. An account whose newest row announces the share mode keeps it in force, as the settlement reads it at
  any later height \<open>h\<close> before \<open>DELEGATION_DOWNGRADE_LOCK_EPOCHS\<close> epochs have passed since epoch \<open>e0\<close>, whatever it
  announces at the heights in between: leaving and coming back, repeating an announcement, several
  announcements in one block, an announcement without a consensus key. This holds for every pattern of failed
  calls to the database, and although each announcement prunes the rows older than the sixth newest.
\<close>

theorem share_mode_protected:
  assumes "mongo_collection W" "TrimPrefix acct ''hive:'' = acct" "distinct (map row_key (contents s))"
    and "w \<in> set (contents s)" "wt_Account w = acct" "Normalize (wt_DelegationMode w) = Share" "wt_DelegationModeMaturityEpoch w = 0"
    and "\<forall>v \<in> set (contents s). wt_Account v = acct \<longrightarrow> wt_Height v \<le> wt_Height w"
    and "sorted (wt_Height w # map fst as @ [h])" "wt_Height w \<notin> set (map fst as @ [h])"
    and "\<forall>b \<in> set (map fst as @ [h]). covered electionAt e0 b"
  shows "\<exists>s' s''. announce_all W electionAt acct as s = Some s'
    \<and> NodeDelegationMode (Some W) electionAt (''hive:'' @ acct) h s' = Some (Share, s'')"
proof -
  have W: "witness_rows W" using assms(1) by (rule witness_rows.intro)
  let ?cur = "hd (map fst as @ [h])"
  have cur: "?cur \<in> set (map fst as @ [h])" by (rule hd_in_set) simp
  then have "wt_Height w \<le> ?cur" "wt_Height w \<noteq> ?cur" using assms(9,10) by (metis sorted_simps(2))+
  then have later: "wt_Height w < ?cur" by (rule order.not_eq_order_implies_strict [rotated])
  have "protected e0 v" if "v \<in> set (contents s)" "wt_Account v = acct" "wt_Height w \<le> wt_Height v" for v
  proof -
    have "row_key v = row_key w" using that assms(5,8) by (auto simp: row_key_def)
    then have "v = w" using assms(3,4) that(1) by (metis distinct_map inj_onD)
    then show ?thesis using assms(6,7) by (simp add: protected_def)
  qed
  then have rows: "share_rows acct (wt_Height w) e0 ?cur (contents s)"
    using assms(3-5,8) later unfolding share_rows_def
    by (intro conjI ballI impI bexI [of _ w]) (auto simp del: hd_append intro: order.trans [OF _ order_less_imp_le])
  have sorted: "sorted (?cur # map fst as)" using assms(9) by (cases as) (auto simp: sorted_append)
  have "\<forall>a \<in> set as. covered electionAt e0 (fst a)" using assms(11) by auto
  then obtain s' where s': "announce_all W electionAt acct as s = Some s'"
      "share_rows acct (wt_Height w) e0 (last (?cur # map fst as)) (contents s')"
    using witness_rows.announcements_keep [OF W rows assms(2) later sorted] by blast
  have "last (?cur # map fst as) \<le> h" using assms(9) by (cases as) (auto simp: sorted_append last_map)
  moreover have "covered electionAt e0 h" using assms(11) by simp
  ultimately show ?thesis using witness_rows.mode_kept [OF W s'(2)] s'(1) by blast
qed

theorem share_mode_protected_witness:
  "let w = \<lparr>wt_Account = ''alice'', wt_Height = 10, wt_DelegationMode = ''share'', wt_DelegationModeEffective = [], wt_DelegationModeMaturityEpoch = 0\<rparr>;
       s = \<lparr>contents = [w], faults = [CallOk, ReplyLost, CallOk, CallOk, RequestLost]\<rparr>;
       as = [(20, True, ''custom''), (20, True, ''deactivated''), (30, True, ''share''), (40, False, ''custom''), (50, True, ''custom'')];
       electionAt = (\<lambda>_. Some \<lparr>el_Epoch = 7, el_Version = Version 0 5 0\<rparr>)
   in \<exists>s' s''. announce_all list_collection electionAt ''alice'' as s = Some s'
     \<and> NodeDelegationMode (Some list_collection) electionAt (''hive:'' @ ''alice'') 60 s' = Some (Share, s'')"
proof -
  let ?w = "\<lparr>wt_Account = ''alice'', wt_Height = 10, wt_DelegationMode = ''share'', wt_DelegationModeEffective = [], wt_DelegationModeMaturityEpoch = 0\<rparr>"
  let ?e = "\<lparr>el_Epoch = 7, el_Version = Version 0 5 0\<rparr>"
  have trim: "TrimPrefix ''alice'' ''hive:'' = ''alice''" and share: "Normalize ''share'' = Share" by code_simp+
  have gate: "DelegatedStakeActiveForElection ?e" by code_simp
  have epoch: "locked_epoch 5 7" by (simp add: locked_epoch_def lock_epochs)
  show ?thesis
    unfolding Let_def
    by (rule share_mode_protected [where w = ?w and ?e0.0 = 5, OF list_coll.mongo_collection_axioms trim])
      (simp_all add: row_key_def covered_def share gate epoch)
qed

end
