(* ===== verification/Quorum.thy ===== *)
theory Quorum
  imports ConsensusVersion
begin

text \<open>
  When has enough of the committee signed? The weight fold and the two-thirds rule (lib/dids/quorum.go), and the
  three places that ask: the activation of a commitment (modules/state-processing/bls_quorum.go), the
  ratification of an election (\<open>TxElectionResult.ExecuteTx\<close> of system_txs.go) and the validation of a block
  (\<open>TxProposeBlock.ValidateDetailed\<close>), with the older folds that are kept for the replay of history.

  The signatures themselves are checked by a package for BLS12-381: whether an aggregate verifies, its bit
  vector and the keys it includes are arguments, and so are the parsing and hashing of content identifiers.
  The vote threshold before version 0.2.0 is computed in floating point and is an argument too.
\<close>

section \<open>The fold\<close>

definition fold_seat :: "string \<times> uint64 \<Rightarrow> (string \<rightharpoonup> uint64) \<times> uint64 \<Rightarrow> (string \<rightharpoonup> uint64) \<times> uint64" where
  "fold_seat seat st =
     (case fst st (fst seat) of
        Some _ \<Rightarrow> st
      | None \<Rightarrow> ((fst st)(fst seat \<mapsto> snd seat), snd st + snd seat))"

definition weight_or_zero :: "(string \<rightharpoonup> uint64) \<Rightarrow> string \<Rightarrow> uint64" where
  "weight_or_zero m did = (case m did of None \<Rightarrow> 0 | Some w \<Rightarrow> w)"

definition count_signer :: "(string \<rightharpoonup> uint64) \<Rightarrow> string \<Rightarrow> string set \<times> uint64 \<Rightarrow> string set \<times> uint64" where
  "count_signer weightByDID did st =
     (if did \<in> fst st then st else (insert did (fst st), snd st + weight_or_zero weightByDID did))"

definition FoldSignedWeight :: "string list \<Rightarrow> uint64 list \<Rightarrow> string list \<Rightarrow> uint64 \<times> uint64 \<times> bool" where
  "FoldSignedWeight memberKeys weights included =
     (if memberKeys = [] \<or> length memberKeys \<noteq> length weights then (0, 0, False)
      else let (weightByDID, tot) = fold fold_seat (zip memberKeys weights) (Map.empty, 0) in
        if tot = 0 then (0, 0, False)
        else (snd (fold (count_signer weightByDID) included ({}, 0)), tot, True))"

definition TwoThirdsMet :: "uint64 \<Rightarrow> uint64 \<Rightarrow> bool" where
  "TwoThirdsMet signedWeight tot = (if tot = 0 then False else tot - tot div 3 \<le> signedWeight)"

definition QuorumMet :: "string list \<Rightarrow> uint64 list \<Rightarrow> string list \<Rightarrow> bool" where
  "QuorumMet memberKeys weights included =
     (let (signedWeight, tot, ok) = FoldSignedWeight memberKeys weights included in
      if \<not> ok then False else TwoThirdsMet signedWeight tot)"

section \<open>Elections\<close>

record ElectionMember =
  em_Key :: string
  em_Account :: string

text \<open>A slice of weights may be nil, \<open>None\<close>.\<close>

record ElectionResult =
  er_Epoch :: uint64
  er_Members :: "ElectionMember list"
  er_Weights :: "uint64 list option"
  er_Version :: Version
  er_BlockHeight :: uint64

definition weight_list :: "uint64 list option \<Rightarrow> uint64 list" where
  "weight_list ws = (case ws of None \<Rightarrow> [] | Some ws \<Rightarrow> ws)"

definition member_keys :: "ElectionResult \<Rightarrow> string list" where
  "member_keys election = map em_Key (er_Members election)"

text \<open>The keys of the members whose bit is set.\<close>

definition included_by_bit :: "(nat \<Rightarrow> bool) \<Rightarrow> ElectionResult \<Rightarrow> string list" where
  "included_by_bit bits election = map snd (filter (\<lambda>(idx, _). bits idx) (enumerate 0 (member_keys election)))"

section \<open>Commitments\<close>

text \<open>The fold before the duplicates were collapsed: the last seat of a key decides its weight.\<close>

definition legacyBlsQuorumMet :: "string list \<Rightarrow> ElectionMember list \<Rightarrow> uint64 list \<Rightarrow> bool" where
  "legacyBlsQuorumMet included members weights =
     (let weightByDID = fold (\<lambda>(k, w) m. m(k \<mapsto> w)) (zip (map em_Key members) weights) Map.empty;
          weightTotal = sum_list (take (length members) weights)
      in if weightTotal = 0 then False
         else weightTotal - weightTotal div 3 \<le> snd (fold (count_signer weightByDID) included ({}, 0)))"

definition BlsQuorumMet :: "string list \<Rightarrow> ElectionMember list \<Rightarrow> uint64 list \<Rightarrow> bool \<Rightarrow> bool" where
  "BlsQuorumMet included members weights dedupActive =
     (if members = [] \<or> length members \<noteq> length weights then False
      else if dedupActive then QuorumMet (map em_Key members) weights included
      else legacyBlsQuorumMet included members weights)"

section \<open>Ratification of an election\<close>

definition MinimalRequiredElectionVotes :: "(uint64 \<Rightarrow> uint64 \<Rightarrow> uint64) \<Rightarrow> uint64 \<Rightarrow> uint64 \<Rightarrow> Version \<Rightarrow> uint64" where
  "MinimalRequiredElectionVotes decayed blocksSinceLastElection memberCountOfLastElection activeVersion =
     (if Version0_2_0Active activeVersion then (2 * memberCountOfLastElection + 2) div 3
      else decayed blocksSinceLastElection memberCountOfLastElection)"

text \<open>Without weights every member counts one. The older fold adds the weight of every set bit, and reads past
  a weight list that is too short, a panic.\<close>

definition election_fold_weights :: "ElectionResult \<Rightarrow> uint64 list" where
  "election_fold_weights election =
     (let ws = weight_list (er_Weights election) in
      if ws = [] then replicate (length (er_Members election)) 1 else ws)"

definition legacy_weights :: "(nat \<Rightarrow> bool) \<Rightarrow> ElectionResult \<Rightarrow> (uint64 \<times> uint64) option" where
  "legacy_weights bits election =
     (let ws = election_fold_weights election;
          signers = filter bits [0..<length (er_Members election)]
      in if \<exists>idx \<in> set signers. length ws \<le> idx then None
         else Some (sum_list (map (\<lambda>idx. ws ! idx) signers), sum_list ws))"

definition election_weights :: "(nat \<Rightarrow> bool) \<Rightarrow> ElectionResult \<Rightarrow> (uint64 \<times> uint64) option" where
  "election_weights bits prevElection =
     (if BlsWeightDedupActive (er_Version prevElection) then
        (case FoldSignedWeight (member_keys prevElection) (election_fold_weights prevElection) (included_by_bit bits prevElection) of
           (realWeight, totalWeight, _) \<Rightarrow> Some (realWeight, totalWeight))
      else legacy_weights bits prevElection)"

text \<open>The decision whether an election result, proposed at a height, is accepted; \<open>verified\<close> is the verdict on the aggregate.\<close>

definition election_ratified ::
  "(uint64 \<Rightarrow> uint64 \<Rightarrow> uint64) \<Rightarrow> bool \<Rightarrow> (nat \<Rightarrow> bool) \<Rightarrow> ElectionResult \<Rightarrow> uint64 \<Rightarrow> bool option" where
  "election_ratified decayed verified bits prevElection height = do {
     (realWeight, totalWeight) \<leftarrow> election_weights bits prevElection;
     let blocksLastElection = height - er_BlockHeight prevElection;
     let minimums = MinimalRequiredElectionVotes decayed blocksLastElection totalWeight (er_Version prevElection);
     Some (verified \<and> minimums \<le> realWeight)
   }"

section \<open>Validation of a block\<close>

text \<open>The bits of the vector range over the weights; the older fold counts the included keys when there are no weights.\<close>

definition CalculateSigningScore :: "(nat \<Rightarrow> bool) \<Rightarrow> string list \<Rightarrow> ElectionResult \<Rightarrow> bool \<Rightarrow> uint64 \<times> uint64" where
  "CalculateSigningScore bits includedDids election dedupDuplicateKeys =
     (if dedupDuplicateKeys then
        let weights = (case er_Weights election of None \<Rightarrow> replicate (length (er_Members election)) 1 | Some ws \<Rightarrow> ws);
            (signedWeight, tot, _) = FoldSignedWeight (member_keys election) weights (included_by_bit bits election)
        in (signedWeight, tot)
      else case er_Weights election of
        None \<Rightarrow> (of_nat (length includedDids), of_nat (length (er_Members election)))
      | Some ws \<Rightarrow> (sum_list (map snd (filter (\<lambda>(idx, _). bits idx) (enumerate 0 ws))), sum_list ws))"

datatype BlockValidationKind = BlockSkip | BlockValid | BlockInvalid | BlockStale

text \<open>
  A proposal as the validation sees it: whether its identifier parses and its header can be hashed, the
  aggregate (\<open>None\<close> when it cannot be deserialized) with its verdict, bit vector and included keys, the slot and
  the height at which it was confirmed.
\<close>

record aggregate =
  ag_Verified :: bool
  ag_Bit :: "nat \<Rightarrow> bool"
  ag_Included :: "string list"

record TxProposeBlock =
  pb_CidParses :: bool
  pb_HeaderHashes :: bool
  pb_Aggregate :: "aggregate option"
  pb_Br1 :: int64
  pb_BlockHeight :: uint64

definition SlotLength :: uint64 where
  "SlotLength = 10"

record validated =
  va_Kind :: BlockValidationKind
  va_Signers :: "string list"
  va_Score :: uint64
  va_Total :: uint64

definition rejected :: "BlockValidationKind \<Rightarrow> validated" where
  "rejected kind = \<lparr>va_Kind = kind, va_Signers = [], va_Score = 0, va_Total = 0\<rparr>"

text \<open>The election is \<open>None\<close> when its lookup fails.\<close>

definition ValidateDetailed :: "ElectionResult option \<Rightarrow> TxProposeBlock \<Rightarrow> validated" where
  "ValidateDetailed electionAtHeight t =
     (case electionAtHeight of
        None \<Rightarrow> rejected BlockSkip
      | Some elecResult \<Rightarrow>
          if \<not> pb_CidParses t then rejected BlockInvalid
          else if \<not> pb_HeaderHashes t then rejected BlockSkip
          else case pb_Aggregate t of
            None \<Rightarrow> rejected BlockInvalid
          | Some circuit \<Rightarrow>
              if pb_Br1 t + SlotLength \<le> pb_BlockHeight t then rejected BlockStale
              else if \<not> ag_Verified circuit then rejected BlockInvalid
              else let (signingScore, tot) = CalculateSigningScore (ag_Bit circuit) (ag_Included circuit) elecResult
                         (BlsWeightDedupActive (er_Version elecResult));
                       signers = concat (map (\<lambda>did. map em_Account (filter (\<lambda>m. em_Key m = did) (er_Members elecResult))) (ag_Included circuit))
                   in \<lparr>va_Kind = (if (tot * 2) div 3 < signingScore then BlockValid else BlockInvalid),
                       va_Signers = signers, va_Score = signingScore, va_Total = tot\<rparr>)"

end
