(* ===== verification/Quorum_Spec.thy ===== *)
theory Quorum_Spec
  imports Quorum
begin

text \<open>
  What the verdicts of Quorum.thy mean: the weight of a set of signers, as a natural number and with every key
  counted once, and the supermajority each site asks for. Two accepted certificates of one committee share
  signers with a third of its weight.
\<close>

section \<open>The fold computes the weight of a set of keys\<close>

definition seat_weight :: "string list \<Rightarrow> uint64 list \<Rightarrow> string \<Rightarrow> nat" where
  "seat_weight ks ws k = unat (weight_or_zero (map_of (zip ks ws)) k)"

definition weight_of :: "string list \<Rightarrow> uint64 list \<Rightarrow> string set \<Rightarrow> nat" where
  "weight_of ks ws S = (\<Sum>k \<in> S \<inter> set ks. seat_weight ks ws k)"

lemma fold_seat_eq:
  "fold fold_seat kws (m, t) =
     (map_of kws ++ m, t + (\<Sum>k \<in> fst ` set kws - dom m. weight_or_zero (map_of kws) k))"
proof (induction kws arbitrary: m t)
  case (Cons kw kws)
  obtain k w where kw: "kw = (k, w)" by (cases kw)
  show ?case
  proof (cases "k \<in> dom m")
    case True
    then have skip: "fold_seat kw (m, t) = (m, t)" by (auto simp: kw fold_seat_def)
    have rest: "map_of (kw # kws) ++ m = map_of kws ++ m" using True by (auto simp: kw map_add_def fun_eq_iff split: option.split)
    have "(\<Sum>j \<in> fst ` set (kw # kws) - dom m. weight_or_zero (map_of (kw # kws)) j) =
        (\<Sum>j \<in> fst ` set kws - dom m. weight_or_zero (map_of kws) j)"
      using True by (intro sum.cong) (auto simp: kw weight_or_zero_def)
    then show ?thesis by (simp only: fold_simps skip Cons.IH rest)
  next
    case False
    have set_eq: "fst ` set (kw # kws) - dom m = insert k (fst ` set kws - insert k (dom m))" using False by (auto simp: kw)
    have sums: "(\<Sum>j \<in> fst ` set (kw # kws) - dom m. weight_or_zero (map_of (kw # kws)) j) =
        w + (\<Sum>j \<in> fst ` set kws - dom (m(k \<mapsto> w)). weight_or_zero (map_of kws) j)"
      unfolding set_eq by (subst sum.insert) (auto simp: kw weight_or_zero_def intro!: sum.cong)
    have maps: "map_of (kw # kws) ++ m = map_of kws ++ m(k \<mapsto> w)"
      using False by (auto simp: kw map_add_def fun_eq_iff split: option.split)
    have "fold_seat kw (m, t) = (m(k \<mapsto> w), t + w)" using False by (auto simp: kw fold_seat_def split: option.split)
    then show ?thesis by (simp only: fold_simps Cons.IH maps sums add.assoc)
  qed
qed simp

lemma count_signer_eq:
  "snd (fold (count_signer m) ds (C, s)) = s + (\<Sum>d \<in> set ds - C. weight_or_zero m d)"
proof (induction ds arbitrary: C s)
  case (Cons d ds)
  show ?case
  proof (cases "d \<in> C")
    case True
    then have "set (d # ds) - C = set ds - C" by auto
    with True Cons.IH [of C s] show ?thesis by (simp add: count_signer_def)
  next
    case False
    then have "set (d # ds) - C = insert d (set ds - insert d C)" by auto
    with False Cons.IH [of "insert d C"] show ?thesis by (simp add: count_signer_def sum.insert add.assoc)
  qed
qed simp

lemma words_sum: "(\<Sum>k \<in> A. f k :: uint64) = of_nat (\<Sum>k \<in> A. unat (f k))"
  by simp

lemma weight_mono: "S \<subseteq> T \<Longrightarrow> weight_of ks ws S \<le> weight_of ks ws T"
  unfolding weight_of_def by (intro sum_mono2) auto

lemma fold_computes_weight:
  assumes "ks \<noteq> []" "length ks = length ws" "0 < weight_of ks ws UNIV" "weight_of ks ws UNIV < 2 ^ 64"
  shows "FoldSignedWeight ks ws included = (of_nat (weight_of ks ws (set included)), of_nat (weight_of ks ws UNIV), True)"
proof -
  let ?m = "map_of (zip ks ws)"
  have keys: "fst ` set (zip ks ws) = set ks" using assms(2) by (metis map_fst_zip set_map)
  have none: "weight_or_zero ?m d = 0" if "d \<notin> set ks" for d
    using that keys by (simp add: weight_or_zero_def map_of_eq_None_iff [THEN iffD2])
  have tot: "(\<Sum>k \<in> set ks. weight_or_zero ?m k) = of_nat (weight_of ks ws UNIV)"
    unfolding weight_of_def seat_weight_def by (subst words_sum) simp
  have "(\<Sum>d \<in> set included. weight_or_zero ?m d) = (\<Sum>d \<in> set included \<inter> set ks. weight_or_zero ?m d)"
    using none by (intro sum.mono_neutral_right) auto
  also have "\<dots> = of_nat (weight_of ks ws (set included))"
    unfolding weight_of_def seat_weight_def by (subst words_sum) simp
  finally have sig: "(\<Sum>d \<in> set included. weight_or_zero ?m d) = of_nat (weight_of ks ws (set included))" .
  have "(of_nat (weight_of ks ws UNIV) :: uint64) \<noteq> 0"
    using assms(3,4) by (simp add: word_unat_eq_iff unat_of_nat)
  then show ?thesis
    using assms(1,2) by (simp add: FoldSignedWeight_def fold_seat_eq keys tot count_signer_eq sig)
qed

section \<open>The verdicts\<close>

text \<open>A committee under the current rules: one weight per member, not all zero, and sums that do not wrap around.\<close>

definition committee :: "ElectionResult \<Rightarrow> bool" where
  "committee el \<longleftrightarrow>
     (case er_Weights el of None \<Rightarrow> False | Some ws \<Rightarrow>
        er_Members el \<noteq> [] \<and> length ws = length (er_Members el) \<and> BlsWeightDedupActive (er_Version el)
        \<and> 0 < weight_of (member_keys el) ws UNIV \<and> 2 * weight_of (member_keys el) ws UNIV + 2 < 2 ^ 64)"

definition voting_power :: "ElectionResult \<Rightarrow> string set \<Rightarrow> nat" where
  "voting_power el S = weight_of (member_keys el) (weight_list (er_Weights el)) S"

lemma committee_fold:
  assumes "committee el"
  shows "FoldSignedWeight (member_keys el) (weight_list (er_Weights el)) included =
      (of_nat (voting_power el (set included)), of_nat (voting_power el UNIV), True)"
    and "0 < voting_power el UNIV" "2 * voting_power el UNIV + 2 < 2 ^ 64" "voting_power el S \<le> voting_power el UNIV"
proof -
  show "FoldSignedWeight (member_keys el) (weight_list (er_Weights el)) included =
      (of_nat (voting_power el (set included)), of_nat (voting_power el UNIV), True)"
    unfolding voting_power_def
    by (rule fold_computes_weight) (use assms in \<open>auto simp: committee_def weight_list_def member_keys_def split: option.splits\<close>)
  show "0 < voting_power el UNIV" "2 * voting_power el UNIV + 2 < 2 ^ 64"
    using assms by (auto simp: committee_def voting_power_def weight_list_def split: option.splits)
  show "voting_power el S \<le> voting_power el UNIV" unfolding voting_power_def by (rule weight_mono) simp
qed

lemma committee_unat:
  assumes "committee el" "n \<le> 2 * voting_power el UNIV + 2"
  shows "unat (of_nat n :: uint64) = n"
  using committee_fold(3) [OF assms(1)] assms(2) by (simp add: unat_of_nat)

lemma commitment_verdict:
  assumes "committee el"
  shows "BlsQuorumMet included (er_Members el) (weight_list (er_Weights el)) True \<longleftrightarrow> 2 * voting_power el UNIV \<le> 3 * voting_power el (set included)"
proof -
  note f = committee_fold [OF assms]
  have w: "er_Members el \<noteq> []" "length (er_Members el) = length (weight_list (er_Weights el))"
    using assms by (auto simp: committee_def weight_list_def split: option.splits)
  let ?T = "of_nat (voting_power el UNIV) :: uint64" and ?S = "of_nat (voting_power el (set included)) :: uint64"
  have u: "unat ?T = voting_power el UNIV" "unat ?S = voting_power el (set included)"
    using f(4) [of "set included"] by (auto intro!: committee_unat [OF assms])
  have "?T - ?T div 3 \<le> ?S \<longleftrightarrow> voting_power el UNIV - voting_power el UNIV div 3 \<le> voting_power el (set included)"
    using u by (simp add: word_le_nat_alt unat_sub unat_div word_le_nat_alt)
  moreover have "?T \<noteq> 0" using u(1) f(2) by auto
  ultimately have "QuorumMet (member_keys el) (weight_list (er_Weights el)) included \<longleftrightarrow> 2 * voting_power el UNIV \<le> 3 * voting_power el (set included)"
    unfolding QuorumMet_def f(1) TwoThirdsMet_def by simp linarith
  then show ?thesis using w by (simp add: BlsQuorumMet_def member_keys_def)
qed

lemma dedup_versions: "BlsWeightDedupActive v \<Longrightarrow> Version0_2_0Active v"
  by (auto simp: feature_gates line_gates version_lines MeetsConsensusMin_def intro: order_trans [of 2 8])

lemma ratification_verdict:
  assumes "committee el"
  shows "election_ratified decayed verified bits el h =
    Some (verified \<and> 2 * voting_power el UNIV \<le> 3 * voting_power el (set (included_by_bit bits el)))"
proof -
  note f = committee_fold [OF assms]
  have v: "BlsWeightDedupActive (er_Version el)" "Version0_2_0Active (er_Version el)" "election_fold_weights el = weight_list (er_Weights el)"
    using assms dedup_versions by (auto simp: committee_def election_fold_weights_def weight_list_def split: option.splits)
  let ?T = "of_nat (voting_power el UNIV) :: uint64" and ?S = "of_nat (voting_power el (set (included_by_bit bits el))) :: uint64"
  have "2 * ?T + 2 = of_nat (2 * voting_power el UNIV + 2)" by simp
  then have "unat (2 * ?T + 2) = 2 * voting_power el UNIV + 2" by (simp only:) (rule committee_unat [OF assms], simp)
  moreover have "unat ?S = voting_power el (set (included_by_bit bits el))"
    using f(4) [of "set (included_by_bit bits el)"] by (auto intro!: committee_unat [OF assms])
  ultimately have "(2 * ?T + 2) div 3 \<le> ?S \<longleftrightarrow> (2 * voting_power el UNIV + 2) div 3 \<le> voting_power el (set (included_by_bit bits el))"
    by (simp add: word_le_nat_alt unat_div)
  also have "\<dots> \<longleftrightarrow> 2 * voting_power el UNIV \<le> 3 * voting_power el (set (included_by_bit bits el))" by linarith
  finally show ?thesis
    by (simp add: election_ratified_def election_weights_def v f(1) MinimalRequiredElectionVotes_def Let_def)
qed

lemma block_verdict:
  assumes "committee el"
  shows "va_Kind (ValidateDetailed (Some el) t) = BlockValid \<longleftrightarrow>
    pb_CidParses t \<and> pb_HeaderHashes t \<and> \<not> pb_Br1 t + SlotLength \<le> pb_BlockHeight t
    \<and> (\<exists>a. pb_Aggregate t = Some a \<and> ag_Verified a \<and> 2 * voting_power el UNIV < 3 * voting_power el (set (included_by_bit (ag_Bit a) el)))"
proof -
  note f = committee_fold [OF assms]
  have score: "CalculateSigningScore bits inc el True = (of_nat (voting_power el (set (included_by_bit bits el))), of_nat (voting_power el UNIV))" for bits inc
    using f(1) assms by (auto simp: CalculateSigningScore_def committee_def weight_list_def split: option.splits)
  have "(of_nat (voting_power el UNIV) * 2) div 3 < (of_nat (voting_power el S) :: uint64) \<longleftrightarrow> 2 * voting_power el UNIV < 3 * voting_power el S" for S
  proof -
    have "(of_nat (voting_power el UNIV) * 2 :: uint64) = of_nat (2 * voting_power el UNIV)" by simp
    then have "unat (of_nat (voting_power el UNIV) * 2 :: uint64) = 2 * voting_power el UNIV" by (simp only:) (rule committee_unat [OF assms], simp)
    moreover have "unat (of_nat (voting_power el S) :: uint64) = voting_power el S" using f(4) [of S] by (auto intro!: committee_unat [OF assms])
    ultimately have "(of_nat (voting_power el UNIV) * 2) div 3 < (of_nat (voting_power el S) :: uint64) \<longleftrightarrow> 2 * voting_power el UNIV div 3 < voting_power el S"
      by (simp add: word_less_nat_alt unat_div)
    then show ?thesis by linarith
  qed
  moreover have "BlsWeightDedupActive (er_Version el)" using assms by (auto simp: committee_def split: option.splits)
  ultimately show ?thesis
    by (auto simp: ValidateDetailed_def rejected_def score Let_def split: option.split)
qed

section \<open>Certificates\<close>

text \<open>What a committee can certify, whether the node accepts it, and whose signatures it carries.\<close>

datatype certificate =
    Commitment "string list"
  | Ratification bool "nat \<Rightarrow> bool" uint64
  | Block TxProposeBlock

fun accepted :: "(uint64 \<Rightarrow> uint64 \<Rightarrow> uint64) \<Rightarrow> ElectionResult \<Rightarrow> certificate \<Rightarrow> bool" where
  "accepted decayed el (Commitment included) \<longleftrightarrow> BlsQuorumMet included (er_Members el) (weight_list (er_Weights el)) True"
| "accepted decayed el (Ratification verified bits h) \<longleftrightarrow> election_ratified decayed verified bits el h = Some True"
| "accepted decayed el (Block t) \<longleftrightarrow> va_Kind (ValidateDetailed (Some el) t) = BlockValid"

fun signers :: "ElectionResult \<Rightarrow> certificate \<Rightarrow> string set" where
  "signers el (Commitment included) = set included"
| "signers el (Ratification verified bits h) = set (included_by_bit bits el)"
| "signers el (Block t) = (case pb_Aggregate t of None \<Rightarrow> {} | Some a \<Rightarrow> set (included_by_bit (ag_Bit a) el))"

lemma accepted_supermajority:
  assumes "committee el" "accepted decayed el c"
  shows "2 * voting_power el UNIV \<le> 3 * voting_power el (signers el c)"
  using assms commitment_verdict [OF assms(1)] ratification_verdict [OF assms(1)] block_verdict [OF assms(1)]
  by (cases c) auto

lemma voting_power_overlap: "voting_power el S + voting_power el T \<le> voting_power el UNIV + voting_power el (S \<inter> T)"
proof -
  let ?f = "seat_weight (member_keys el) (weight_list (er_Weights el))" and ?M = "set (member_keys el)"
  have "sum ?f (S \<inter> ?M) + sum ?f (T \<inter> ?M) = sum ?f ((S \<inter> ?M) \<union> (T \<inter> ?M)) + sum ?f ((S \<inter> ?M) \<inter> (T \<inter> ?M))"
    by (rule sum.union_inter [symmetric]) auto
  also have "(S \<inter> ?M) \<inter> (T \<inter> ?M) = (S \<inter> T) \<inter> ?M" by auto
  also have "sum ?f ((S \<inter> ?M) \<union> (T \<inter> ?M)) \<le> sum ?f (UNIV \<inter> ?M)" by (intro sum_mono2) auto
  finally show ?thesis by (simp add: voting_power_def weight_of_def)
qed

text \<open>
  C7. Any two certificates a node accepts from one committee, whichever of the three sites accepts them (the
  commitment of a key, the ratification of an election, a block), share signers that hold at least a third of
  the committee's weight, every key counted once. So two conflicting certificates can be accepted only if a
  third of the weight has signed both.
\<close>

theorem accepted_certificates_intersect:
  assumes "committee el" "accepted decayed el c" "accepted decayed el c'"
  shows "voting_power el UNIV \<le> 3 * voting_power el (signers el c \<inter> signers el c')"
  using accepted_supermajority [OF assms(1,2)] accepted_supermajority [OF assms(1,3)]
    voting_power_overlap [of el "signers el c" "signers el c'"] by linarith

text \<open>Four members, two of which have announced the same key; the second seat of that key counts nothing.\<close>

definition example_committee :: ElectionResult where
  "example_committee = \<lparr>er_Epoch = 4, er_Members = [\<lparr>em_Key = ''k1'', em_Account = ''a''\<rparr>, \<lparr>em_Key = ''k2'', em_Account = ''b''\<rparr>,
      \<lparr>em_Key = ''k3'', em_Account = ''c''\<rparr>, \<lparr>em_Key = ''k1'', em_Account = ''z''\<rparr>],
    er_Weights = Some [10, 10, 10, 50], er_Version = Version 0 8 0, er_BlockHeight = 100\<rparr>"

lemma example_power: "voting_power example_committee S = (if ''k1'' \<in> S then 10 else 0) + (if ''k2'' \<in> S then 10 else 0) + (if ''k3'' \<in> S then 10 else 0)"
proof -
  have "S \<inter> set (member_keys example_committee) = set (filter (\<lambda>k. k \<in> S) [''k1'', ''k2'', ''k3''])"
    by (auto simp: member_keys_def example_committee_def)
  then show ?thesis
    by (simp add: voting_power_def weight_of_def seat_weight_def weight_or_zero_def weight_list_def member_keys_def example_committee_def)
qed

lemma example_committee_ok: "committee example_committee"
proof -
  have "weight_of (member_keys example_committee) [10, 10, 10, 50] UNIV = 30"
    using example_power [of UNIV] by (simp add: voting_power_def weight_list_def example_committee_def)
  then show ?thesis
    by (simp add: committee_def) (simp add: example_committee_def feature_gates line_gates version_lines MeetsConsensusMin_def)
qed

theorem accepted_certificates_intersect_witness:
  "let el = example_committee; c = Commitment [''k1'', ''k2'']; c' = Ratification True (\<lambda>i. i = 2 \<or> i = 3) 200
   in accepted (\<lambda>_ n. n) el c \<and> accepted (\<lambda>_ n. n) el c' \<and> 30 \<le> 3 * voting_power el (signers el c \<inter> signers el c')
     \<and> voting_power el (signers el c \<inter> signers el c') = 10"
proof -
  let ?c = "Commitment [''k1'', ''k2'']" and ?c' = "Ratification True (\<lambda>i. i = 2 \<or> i = 3) 200"
  have inc: "set (included_by_bit (\<lambda>i. i = 2 \<or> i = 3) example_committee) = {''k3'', ''k1''}"
    by (simp add: included_by_bit_def member_keys_def example_committee_def)
  have acc: "accepted (\<lambda>_ n. n) example_committee ?c" "accepted (\<lambda>_ n. n) example_committee ?c'"
    using commitment_verdict [OF example_committee_ok] ratification_verdict [OF example_committee_ok]
    by (simp_all add: example_power inc)
  from accepted_certificates_intersect [OF example_committee_ok this] acc show ?thesis
    by (simp add: Let_def example_power inc)
qed

text \<open>
  C28. A previous election whose weights do not match its members gives the ratification no weight to ask for: the
  fold reports that it has no verdict, the caller drops that report, the required weight is zero, and every
  aggregate that verifies is accepted, however few have signed.
\<close>

theorem mismatched_weights_ratify:
  assumes "er_Weights el = Some ws" "ws \<noteq> []" "length ws \<noteq> length (er_Members el)" "BlsWeightDedupActive (er_Version el)"
  shows "election_ratified decayed verified bits el h = Some verified"
  using assms dedup_versions [OF assms(4)]
  by (auto simp: election_ratified_def election_weights_def FoldSignedWeight_def election_fold_weights_def weight_list_def
      member_keys_def MinimalRequiredElectionVotes_def Let_def)

theorem mismatched_weights_ratify_witness:
  "election_ratified (\<lambda>_ n. n) True (\<lambda>i. i = 0) (example_committee\<lparr>er_Weights := Some [10, 10, 10]\<rparr>) 200 = Some True"
  by (rule mismatched_weights_ratify [where ws = "[10, 10, 10]"])
    (simp_all add: example_committee_def feature_gates line_gates version_lines MeetsConsensusMin_def)

end
