(* ===== verification/Schedule.thy ===== *)
theory Schedule
  imports Quorum
begin

text \<open>
  Who produces when (modules/state-processing/consensus.go, modules/db/vsc/vsc_blocks/utils.go and
  \<open>computeSchedule\<close> of state_engine.go): rounds and slots of block heights, and the schedule of a round, in which
  the members of the election take turns and the turns are shuffled with a seed that every node derives from the
  chain.

  Arguments: the election of a height and the id of a block, which are read from the database, the hash that
  makes the seed, and \<open>Shuffle\<close> of a seeded generator, of which the schedule only needs that it permutes.
\<close>

definition ScheduleLength :: uint64 where
  "ScheduleLength = 1200"

text \<open>Start and end height.\<close>

definition CalculateRoundInfo :: "uint64 \<Rightarrow> uint64 \<times> uint64" where
  "CalculateRoundInfo blockHeight =
     (let pastHeight = blockHeight - blockHeight mod ScheduleLength in (pastHeight, pastHeight + ScheduleLength))"

definition CalculateSlotInfo :: "uint64 \<Rightarrow> uint64 \<times> uint64" where
  "CalculateSlotInfo blockHeight =
     (let pastHeight = blockHeight - blockHeight mod SlotLength in (pastHeight, pastHeight + SlotLength))"

record WitnessSlot =
  ws_Account :: string
  ws_SlotHeight :: uint64

text \<open>\<open>Shuffle\<close> of the generator with a seed, on the accounts before they get their heights.\<close>

type_synonym 'seed shuffler = "'seed \<Rightarrow> string list \<Rightarrow> string list"

definition permutes :: "'seed shuffler \<Rightarrow> bool" where
  "permutes shuffle \<longleftrightarrow> (\<forall>seed xs. mset (shuffle seed xs) = mset xs)"

definition GenerateSchedule :: "'seed shuffler \<Rightarrow> uint64 \<Rightarrow> string list \<Rightarrow> 'seed \<Rightarrow> WitnessSlot list" where
  "GenerateSchedule shuffle blockHeight witnessList seed =
     (if witnessList = [] then []
      else let (startHeight, endHeight) = CalculateRoundInfo blockHeight;
               slots = (endHeight - startHeight) div SlotLength;
               schedule = map (\<lambda>slot. witnessList ! (slot mod length witnessList)) [0..<unat slots]
           in map (\<lambda>(i, account). \<lparr>ws_Account = account, ws_SlotHeight = of_nat i * SlotLength + startHeight\<rparr>)
                (enumerate 0 (shuffle seed schedule)))"

definition slot_of :: "uint64 \<Rightarrow> WitnessSlot list \<Rightarrow> WitnessSlot option" where
  "slot_of slotHeight schedule = find (\<lambda>slot. ws_SlotHeight slot = slotHeight) schedule"

definition CalculateSlotLeader :: "'seed shuffler \<Rightarrow> uint64 \<Rightarrow> string list \<Rightarrow> 'seed \<Rightarrow> WitnessSlot option" where
  "CalculateSlotLeader shuffle blockHeight witnessList seed =
     slot_of (fst (CalculateSlotInfo blockHeight)) (GenerateSchedule shuffle blockHeight witnessList seed)"

text \<open>The seed hashes the id of the block before the round, or a constant when it is not found, and the start of the round.\<close>

definition computeSchedule ::
  "'seed shuffler \<Rightarrow> (string \<Rightarrow> 'seed) \<Rightarrow> (uint64 \<Rightarrow> ElectionResult option) \<Rightarrow> (uint64 \<Rightarrow> string option) \<Rightarrow> uint64 \<Rightarrow> WitnessSlot list" where
  "computeSchedule shuffle hash electionAt blockIdAt slotHeight =
     (case electionAt slotHeight of
        None \<Rightarrow> []
      | Some lastElection \<Rightarrow>
          let startHeight = fst (CalculateRoundInfo slotHeight);
              entropy = (case blockIdAt (startHeight - 1) of None \<Rightarrow> ''VSC.NETWORK'' | Some blockId \<Rightarrow> blockId);
              seed = hash (entropy @ FormatUint startHeight)
          in GenerateSchedule shuffle slotHeight (map em_Account (er_Members lastElection)) seed)"

definition scheduledProducer :: "WitnessSlot list \<Rightarrow> uint64 \<Rightarrow> string" where
  "scheduledProducer schedule slotHeight = (case slot_of slotHeight schedule of None \<Rightarrow> [] | Some slot \<Rightarrow> ws_Account slot)"

section \<open>Turns\<close>

lemma round_slots: "ScheduleLength div SlotLength = 120"
  by (simp add: ScheduleLength_def SlotLength_def)

definition turns :: "string list \<Rightarrow> string list" where
  "turns ws = map (\<lambda>slot. ws ! (slot mod length ws)) [0..<120]"

lemma schedule_eq:
  assumes "ws \<noteq> []"
  shows "GenerateSchedule shuffle h ws seed = map (\<lambda>(i, account). \<lparr>ws_Account = account,
    ws_SlotHeight = of_nat i * SlotLength + fst (CalculateRoundInfo h)\<rparr>) (enumerate 0 (shuffle seed (turns ws)))"
  using assms by (simp add: GenerateSchedule_def CalculateRoundInfo_def Let_def turns_def round_slots del: upt_rec_numeral)

lemma shuffled:
  assumes "permutes shuffle"
  shows "length (shuffle seed xs) = length xs" "set (shuffle seed xs) = set xs" "count_list (shuffle seed xs) a = count_list xs a"
  using assms unfolding permutes_def by (metis mset_eq_length mset_eq_setD count_mset)+

text \<open>How often a residue comes up among the first \<open>k\<close> numbers.\<close>

lemma residue_count:
  assumes "0 < (n :: nat)" "r < n"
  shows "length (filter (\<lambda>i. i mod n = r) [0..<k]) = k div n + (if r < k mod n then 1 else 0)"
proof (induction k)
  case (Suc k)
  show ?case
  proof (cases "Suc (k mod n) = n")
    case True
    then have "Suc k mod n = 0" "Suc k div n = Suc (k div n)" by (simp_all add: mod_Suc div_Suc)
    with True Suc.IH assms show ?thesis by auto
  next
    case False
    then have "Suc k mod n = Suc (k mod n)" "Suc k div n = k div n" by (simp_all add: mod_Suc div_Suc)
    with False Suc.IH show ?thesis by auto
  qed
qed simp

lemma turns_count:
  assumes "distinct ws" "j < length ws"
  shows "count_list (turns ws) (ws ! j) = 120 div length ws + (if j < 120 mod length ws then 1 else 0)"
proof -
  have n: "0 < length ws" by (rule order.strict_trans1 [OF le0 assms(2)])
  have "count_list (turns ws) (ws ! j) = length (filter (\<lambda>i. ws ! (i mod length ws) = ws ! j) [0..<120])"
    unfolding turns_def count_list_eq_length_filter filter_map length_map o_def by (simp add: eq_commute)
  also have "(\<lambda>i. ws ! (i mod length ws) = ws ! j) = (\<lambda>i. i mod length ws = j)"
    using assms n by (auto simp: fun_eq_iff nth_eq_iff_index_eq)
  finally show ?thesis by (simp add: residue_count [OF n assms(2)] del: upt_rec_numeral)
qed

section \<open>Every height has a leader\<close>

lemma slot_height:
  "of_nat (unat h mod 1200 div 10) * SlotLength + fst (CalculateRoundInfo h) = fst (CalculateSlotInfo h)"
proof -
  have u: "unat (h - h mod 1200) = unat h - unat h mod 1200" "unat (h - h mod 10) = unat h - unat h mod 10"
    by (simp_all add: unat_sub word_le_nat_alt unat_mod)
  have "unat h mod 10 = unat h mod 1200 mod 10" by (simp add: mod_mod_cancel)
  moreover have "unat h mod 1200 div 10 * 10 = unat h mod 1200 - unat h mod 1200 mod 10" by (simp add: minus_mod_eq_div_mult)
  moreover have "unat h mod 1200 mod 10 \<le> unat h mod 1200" "unat h mod 1200 \<le> unat h" by simp_all
  ultimately have "unat h mod 1200 div 10 * 10 + (unat h - unat h mod 1200) = unat h - unat h mod 10" by linarith
  then have "of_nat (unat h mod 1200 div 10 * 10 + (unat h - unat h mod 1200)) = (of_nat (unat h - unat h mod 10) :: uint64)"
    by (rule arg_cong)
  then have "of_nat (unat h mod 1200 div 10) * 10 + (of_nat (unat (h - h mod 1200)) :: uint64) = of_nat (unat (h - h mod 10))"
    by (simp only: u of_nat_add of_nat_mult of_nat_numeral)
  then show ?thesis by (simp add: CalculateRoundInfo_def CalculateSlotInfo_def ScheduleLength_def SlotLength_def Let_def)
qed

lemma leader_exists:
  assumes "permutes shuffle" "ws \<noteq> []"
  obtains slot where "CalculateSlotLeader shuffle h ws seed = Some slot" "ws_SlotHeight slot = fst (CalculateSlotInfo h)"
    "ws_Account slot \<in> set ws"
proof -
  let ?sched = "GenerateSchedule shuffle h ws seed" and ?i = "unat h mod 1200 div 10"
  have len: "length (shuffle seed (turns ws)) = 120" by (simp add: shuffled [OF assms(1)] turns_def)
  have "?i < 120" by (rule less_mult_imp_div_less) simp
  moreover have sched: "length ?sched = 120" by (simp add: schedule_eq [OF assms(2)] len)
  ultimately have "?sched ! ?i \<in> set ?sched" by (intro nth_mem) simp
  moreover have "ws_SlotHeight (?sched ! ?i) = fst (CalculateSlotInfo h)"
    using \<open>?i < 120\<close> len slot_height [of h] by (simp add: schedule_eq [OF assms(2)] nth_enumerate_eq)
  ultimately have "CalculateSlotLeader shuffle h ws seed \<noteq> None"
    unfolding CalculateSlotLeader_def slot_of_def find_None_iff by blast
  then obtain slot where slot: "CalculateSlotLeader shuffle h ws seed = Some slot" by blast
  have "slot \<in> set ?sched" "ws_SlotHeight slot = fst (CalculateSlotInfo h)"
    using slot unfolding CalculateSlotLeader_def slot_of_def find_Some_iff by auto
  moreover from this(1) have "ws_Account slot \<in> set (shuffle seed (turns ws))"
    by (auto simp: schedule_eq [OF assms(2)] in_set_enumerate_eq)
  then have "ws_Account slot \<in> set ws"
    using assms(2) by (auto simp: shuffled [OF assms(1)] turns_def)
  ultimately show ?thesis using slot that by blast
qed

text \<open>
  C25. The schedule of a round gives every one of its 120 slots, in order of height and without a gap, to one member
  of the committee, and no member gets more than one slot more than another, whatever the seed; and at every
  height there is a leader, a member, for the slot the height belongs to.
\<close>

theorem schedule_balanced:
  assumes "permutes shuffle" "distinct ws" "ws \<noteq> []"
  shows "map ws_SlotHeight (GenerateSchedule shuffle h ws seed) = map (\<lambda>i. fst (CalculateRoundInfo h) + 10 * of_nat i) [0..<120]
    \<and> (\<forall>a \<in> set ws. count_list (map ws_Account (GenerateSchedule shuffle h ws seed)) a \<in> {120 div length ws, 120 div length ws + 1})
    \<and> (\<exists>slot. CalculateSlotLeader shuffle h ws seed = Some slot \<and> ws_SlotHeight slot = fst (CalculateSlotInfo h) \<and> ws_Account slot \<in> set ws)"
proof (intro conjI ballI)
  let ?xs = "shuffle seed (turns ws)"
  have len: "length ?xs = 120" by (simp add: shuffled [OF assms(1)] turns_def)
  show "map ws_SlotHeight (GenerateSchedule shuffle h ws seed) = map (\<lambda>i. fst (CalculateRoundInfo h) + 10 * of_nat i) [0..<120]"
    by (rule nth_equalityI) (simp_all add: schedule_eq [OF assms(3)] len nth_enumerate_eq SlotLength_def del: upt_rec_numeral)
  have accounts: "map ws_Account (GenerateSchedule shuffle h ws seed) = ?xs"
    by (rule nth_equalityI) (simp_all add: schedule_eq [OF assms(3)] nth_enumerate_eq)
  fix a assume "a \<in> set ws"
  then obtain j where "j < length ws" "ws ! j = a" by (auto simp: in_set_conv_nth)
  with turns_count [OF assms(2), of j]
  show "count_list (map ws_Account (GenerateSchedule shuffle h ws seed)) a \<in> {120 div length ws, 120 div length ws + 1}"
    unfolding accounts shuffled(3) [OF assms(1)] by auto
next
  show "\<exists>slot. CalculateSlotLeader shuffle h ws seed = Some slot \<and> ws_SlotHeight slot = fst (CalculateSlotInfo h) \<and> ws_Account slot \<in> set ws"
    using leader_exists [OF assms(1,3), of h seed] by metis
qed

theorem schedule_balanced_witness:
  "count_list (map ws_Account (GenerateSchedule (\<lambda>_ xs. rev xs) 90000123 (map (\<lambda>c. [c]) ''abcdefg'') ())) ''b'' \<in> {17, 18}
   \<and> (\<exists>slot. CalculateSlotLeader (\<lambda>_ xs. rev xs) 90000123 (map (\<lambda>c. [c]) ''abcdefg'') () = Some slot \<and> ws_SlotHeight slot = 90000120)"
proof -
  let ?ws = "map (\<lambda>c. [c]) ''abcdefg''"
  have "permutes (\<lambda>_ xs. rev xs)" "distinct ?ws" "?ws \<noteq> []" by (simp_all add: permutes_def)
  note all = schedule_balanced [OF this, of 90000123 "()"]
  have ws: "''b'' \<in> set ?ws" "{120 div length ?ws, 120 div length ?ws + 1} = {17, 18}" by auto
  have slot: "fst (CalculateSlotInfo 90000123) = 90000120" by (simp add: CalculateSlotInfo_def SlotLength_def)
  from all ws(1) have "count_list (map ws_Account (GenerateSchedule (\<lambda>_ xs. rev xs) 90000123 ?ws ())) ''b'' \<in> {17, 18}"
    unfolding ws(2) by blast
  with all show ?thesis unfolding slot by blast
qed

end
