(* ===== verification/Evidence.thy ===== *)
theory Evidence
  imports Slash Schedule
begin

text \<open>
  Detection of provable faults of block producers (modules/state-processing/state_engine.go and
  modules/incentive-pendulum/safety_slash/policy.go): the first proposal seen for a slot and producer, two
  different proposals as evidence of double signing, invalid proposals, the policy that turns evidence into a
  slash, the pruning of its maps, and the reconstruction of the first proposals when a node restarts in a slot.

  The detector keeps its maps in memory; what it asks of the ledger is a list of calls of
  \<open>SafetySlashConsensusBond\<close> (Slash.thy), whose results are only logged. A proposal carries the block reference
  that \<open>json.Unmarshal\<close> leaves in the parsed transaction and whether it returned without an error. The dispatch that
  hands operations to the handler, and that skips them while the chain is suspended, lies before this model.
\<close>

section \<open>Policy\<close>

definition CorrelatedSlashCapBps :: int64 where "CorrelatedSlashCapBps = 10000"
definition EvidenceVSCDoubleBlockSign :: string where "EvidenceVSCDoubleBlockSign = ''vsc_double_block_sign''"
definition EvidenceVSCInvalidBlockProposal :: string where "EvidenceVSCInvalidBlockProposal = ''vsc_invalid_block_proposal''"
definition DoubleBlockSignSlashBps :: int64 where "DoubleBlockSignSlashBps = 1000"
definition InvalidBlockSlashBps :: int64 where "InvalidBlockSlashBps = 1000"
definition DefaultSafetySlashBurnDelayBlocks :: uint64 where "DefaultSafetySlashBurnDelayBlocks = 3 * 28800"
definition SafetySlashBurnDelay3dBlocks :: uint64 where "SafetySlashBurnDelay3dBlocks = 3 * 28800"
definition SafetySlashBurnDelay7dBlocks :: uint64 where "SafetySlashBurnDelay7dBlocks = 7 * 28800"

definition EffectiveCorrelatedBps :: "int64 list \<Rightarrow> int64 \<Rightarrow> int64" where
  "EffectiveCorrelatedBps rawParts capBps =
     (if sint capBps \<le> 0 then 0
      else let s = fold (\<lambda>x s. if sint x > 0 then s + x else s) rawParts 0 in
        if sint s > sint capBps then capBps else s)"

definition SlashBpsForEvidenceKind :: "string \<Rightarrow> int64" where
  "SlashBpsForEvidenceKind kind =
     (if kind = EvidenceVSCDoubleBlockSign then DoubleBlockSignSlashBps
      else if kind = EvidenceVSCInvalidBlockProposal then InvalidBlockSlashBps else 0)"

text \<open>The windows of heights in which slashing is active; the end 0 is open.\<close>

definition SafetySlashActive :: "(uint64 \<times> uint64) list \<Rightarrow> uint64 \<Rightarrow> bool" where
  "SafetySlashActive windows blockHeight \<longleftrightarrow>
     (\<exists>(start, stop) \<in> set windows. start \<le> blockHeight \<and> (stop = 0 \<or> blockHeight < stop))"

text \<open>What the detector reads: the configuration (\<open>None\<close> when absent), an environment variable, and the active version.\<close>

record detector_env =
  de_Windows :: "(uint64 \<times> uint64) list option"
  de_OnMainnet :: bool
  de_DelayVariable :: string
  de_VersionAt :: "(uint64 \<Rightarrow> Version) option"

definition safetySlashBurnDelayBlocks :: "detector_env \<Rightarrow> uint64 \<Rightarrow> uint64" where
  "safetySlashBurnDelayBlocks env slashHeight =
     (let window = (case de_VersionAt env of
            None \<Rightarrow> DefaultSafetySlashBurnDelayBlocks
          | Some versionAt \<Rightarrow>
              if SafetySlashBurnDelay7dActive (versionAt slashHeight) then SafetySlashBurnDelay7dBlocks else SafetySlashBurnDelay3dBlocks);
          raw = TrimSpace (de_DelayVariable env)
      in if de_Windows env \<noteq> None \<and> \<not> de_OnMainnet env \<and> raw \<noteq> [] then
           (case ParseUint raw of
              Some parsed \<Rightarrow> if MaxSafetySlashBurnDelayBlocks < parsed then MaxSafetySlashBurnDelayBlocks else parsed
            | None \<Rightarrow> window)
         else window)"

section \<open>The maps\<close>

record detector =
  seenProposalBySlotProposer :: "string \<rightharpoonup> string"
  safetyEvidenceSeen :: "string \<rightharpoonup> uint64"
  slashIncidentBpsBySlotAccount :: "string \<rightharpoonup> int64"

definition fresh_detector :: detector where
  "fresh_detector = \<lparr>seenProposalBySlotProposer = Map.empty, safetyEvidenceSeen = Map.empty, slashIncidentBpsBySlotAccount = Map.empty\<rparr>"

definition engine_normalizeHiveAccount :: "string \<Rightarrow> string" where
  "engine_normalizeHiveAccount a =
     (let a = TrimSpace a in
      if a = [] then [] else if HasPrefix a ''hive:'' then a else ''hive:'' @ a)"

definition evidenceKey :: "string \<Rightarrow> string \<Rightarrow> string" where
  "evidenceKey accountHive kind = engine_normalizeHiveAccount accountHive @ ''|'' @ kind"

definition evidenceSeenKey :: "string \<Rightarrow> string \<Rightarrow> string \<Rightarrow> string" where
  "evidenceSeenKey accountHive kind evidenceID = evidenceKey accountHive kind @ ''|'' @ evidenceID"

definition slotProposerKey :: "uint64 \<Rightarrow> string \<Rightarrow> string" where
  "slotProposerKey slotHeight account = FormatUint slotHeight @ ''|'' @ engine_normalizeHiveAccount account"

definition recordFirstSeenProposal :: "uint64 \<Rightarrow> string \<Rightarrow> string \<Rightarrow> detector \<Rightarrow> (string \<times> bool) \<times> detector" where
  "recordFirstSeenProposal slotHeight account blockCID st =
     (let k = slotProposerKey slotHeight account in
      case seenProposalBySlotProposer st k of
        Some prev \<Rightarrow> ((prev, True), st)
      | None \<Rightarrow> (([], False), st\<lparr>seenProposalBySlotProposer := (seenProposalBySlotProposer st)(k \<mapsto> blockCID)\<rparr>))"

definition slotHeightFromSlotKey :: "string \<Rightarrow> uint64" where
  "slotHeightFromSlotKey k =
     (if CHR ''|'' \<notin> set k then 0
      else case ParseUint (takeWhile (\<lambda>c. c \<noteq> CHR ''|'') k) of None \<Rightarrow> 0 | Some h \<Rightarrow> h)"

definition pruneSafetySlotMaps :: "uint64 \<Rightarrow> detector \<Rightarrow> detector" where
  "pruneSafetySlotMaps finalizedSlotHeight st =
     (let live = {k. finalizedSlotHeight < slotHeightFromSlotKey k} in
      st\<lparr>seenProposalBySlotProposer := seenProposalBySlotProposer st |` live,
         slashIncidentBpsBySlotAccount := slashIncidentBpsBySlotAccount st |` live\<rparr>)"

definition pruneSafetyEvidenceSeen :: "uint64 \<Rightarrow> detector \<Rightarrow> detector" where
  "pruneSafetyEvidenceSeen currentHeight st =
     (let keepWindow = 2 * MaxSafetySlashBurnDelayBlocks in
      if currentHeight \<le> keepWindow then st
      else let threshold = currentHeight - keepWindow in
        st\<lparr>safetyEvidenceSeen := (\<lambda>k. case safetyEvidenceSeen st k of
             Some h \<Rightarrow> if h < threshold then None else Some h | None \<Rightarrow> None)\<rparr>)"

definition recordEvidenceAndShouldSlash :: "string \<Rightarrow> string \<Rightarrow> string \<Rightarrow> uint64 \<Rightarrow> detector \<Rightarrow> bool \<times> detector" where
  "recordEvidenceAndShouldSlash accountHive kind evidenceID blockHeight st =
     (let acct = engine_normalizeHiveAccount accountHive; i = TrimSpace evidenceID in
      if acct = [] \<or> TrimSpace kind = [] \<or> i = [] then (False, st)
      else let seenKey = evidenceSeenKey acct kind i;
               st' = st\<lparr>safetyEvidenceSeen := (safetyEvidenceSeen st)(seenKey \<mapsto> blockHeight)\<rparr>
           in case safetyEvidenceSeen st seenKey of
                Some seenH \<Rightarrow> if seenH \<le> blockHeight then (False, st) else (True, st')
              | None \<Rightarrow> (True, st'))"

section \<open>From evidence to a slash\<close>

text \<open>The basis points an incident still has room for; without an incident the cap alone applies.\<close>

definition grant_bps :: "int64 \<Rightarrow> string \<Rightarrow> detector \<Rightarrow> int64 option \<times> detector" where
  "grant_bps rawBps incidentKey st =
     (if incidentKey \<noteq> [] then
        let already = (case slashIncidentBpsBySlotAccount st incidentKey of None \<Rightarrow> 0 | Some b \<Rightarrow> b);
            room = CorrelatedSlashCapBps - already
        in if sint room \<le> 0 then (None, st)
           else let bps = (if sint rawBps < sint room then rawBps else room) in
             (Some bps, st\<lparr>slashIncidentBpsBySlotAccount := (slashIncidentBpsBySlotAccount st)(incidentKey \<mapsto> already + bps)\<rparr>)
      else (Some (EffectiveCorrelatedBps [rawBps] CorrelatedSlashCapBps), st))"

text \<open>The calls of the ledger it makes: none, or the slash of the account.\<close>

definition slashForEvidenceIfPolicyAllows ::
  "detector_env \<Rightarrow> string \<Rightarrow> string \<Rightarrow> string \<Rightarrow> string \<Rightarrow> uint64 \<Rightarrow> string \<Rightarrow> detector \<Rightarrow> SafetySlashConsensusParams list \<times> detector" where
  "slashForEvidenceIfPolicyAllows env accountHive kind evidenceID txID blockHeight incidentKey st =
     (case de_Windows env of
        None \<Rightarrow> ([], st)
      | Some windows \<Rightarrow>
          if \<not> SafetySlashActive windows blockHeight then ([], st)
          else case recordEvidenceAndShouldSlash accountHive kind evidenceID blockHeight st of
            (False, st) \<Rightarrow> ([], st)
          | (True, st) \<Rightarrow>
              let rawBps = SlashBpsForEvidenceKind kind in
              if sint rawBps \<le> 0 then ([], st)
              else case grant_bps rawBps incidentKey st of
                (None, st) \<Rightarrow> ([], st)
              | (Some bps, st) \<Rightarrow>
                  if sint bps \<le> 0 then ([], st)
                  else ([\<lparr>sl_Account = accountHive, sl_SlashBps = bps, sl_TxID = txID, sl_BlockHeight = blockHeight,
                          sl_EvidenceKind = kind, sl_BurnDelayBlocks = safetySlashBurnDelayBlocks env blockHeight\<rparr>], st))"

section \<open>Proposals\<close>

record proposal =
  pr_RequiredAuths :: "string list"
  pr_TxId :: string
  pr_Block :: string
  pr_Decodes :: bool

text \<open>
  The handler of a proposal in the block at a height, for the producer scheduled for its slot; \<open>validate\<close> is the
  verdict of \<open>ValidateDetailed\<close>. A valid block is executed, which does not touch the detector.
\<close>

definition produce_block ::
  "detector_env \<Rightarrow> (proposal \<Rightarrow> BlockValidationKind) \<Rightarrow> string \<Rightarrow> uint64 \<Rightarrow> proposal \<Rightarrow> detector \<Rightarrow> SafetySlashConsensusParams list \<times> detector" where
  "produce_block env validate scheduled blockNumber p st =
     (case pr_RequiredAuths p of
        [] \<Rightarrow> ([], st)
      | account # _ \<Rightarrow>
          if account \<noteq> scheduled then ([], st)
          else let slotHeight = fst (CalculateSlotInfo blockNumber);
                   slotKey = slotProposerKey slotHeight account;
                   ((prevBlockRef, existed), st) = recordFirstSeenProposal slotHeight account (pr_Block p) st;
                   (double, st) =
                     (if existed \<and> prevBlockRef \<noteq> pr_Block p then
                        slashForEvidenceIfPolicyAllows env account EvidenceVSCDoubleBlockSign
                          (''double-block|'' @ slotKey @ ''|'' @ prevBlockRef @ ''|'' @ pr_Block p) (pr_TxId p) blockNumber slotKey st
                      else ([], st));
                   (invalid, st) =
                     (if validate p = BlockInvalid then
                        slashForEvidenceIfPolicyAllows env account EvidenceVSCInvalidBlockProposal
                          (''invalid-block|'' @ pr_TxId p) (pr_TxId p) blockNumber slotKey st
                      else ([], st))
               in (double @ invalid, st))"

text \<open>A list of blocks, each its height and its proposals.\<close>

type_synonym blocks = "(uint64 \<times> proposal list) list"

fun process_proposals ::
  "detector_env \<Rightarrow> (proposal \<Rightarrow> BlockValidationKind) \<Rightarrow> string \<Rightarrow> (uint64 \<times> proposal) list \<Rightarrow> detector \<Rightarrow> SafetySlashConsensusParams list \<times> detector" where
  "process_proposals env validate scheduled [] st = ([], st)"
| "process_proposals env validate scheduled ((h, p) # ps) st =
     (let (reqs, st) = produce_block env validate scheduled h p st;
          (reqs', st) = process_proposals env validate scheduled ps st
      in (reqs @ reqs', st))"

definition proposals_of :: "blocks \<Rightarrow> (uint64 \<times> proposal) list" where
  "proposals_of bs = concat (map (\<lambda>(h, ps). map (Pair h) ps) bs)"

section \<open>Restart\<close>

definition seed_proposal :: "uint64 \<Rightarrow> string \<Rightarrow> proposal \<Rightarrow> detector \<Rightarrow> detector" where
  "seed_proposal blockNumber scheduledAccount p st =
     (case pr_RequiredAuths p of
        [] \<Rightarrow> st
      | account # _ \<Rightarrow>
          if account \<noteq> scheduledAccount \<or> \<not> pr_Decodes p then st
          else snd (recordFirstSeenProposal (fst (CalculateSlotInfo blockNumber)) account (pr_Block p) st))"

definition seedProposalsFromStoredBlock :: "uint64 \<times> proposal list \<Rightarrow> string \<Rightarrow> detector \<Rightarrow> detector" where
  "seedProposalsFromStoredBlock block scheduledAccount st = fold (seed_proposal (fst block) scheduledAccount) (snd block) st"

text \<open>The stored blocks between two heights are read from the database, which may fail.\<close>

definition rehydrateDoubleSignMap ::
  "(uint64 \<Rightarrow> WitnessSlot list) \<Rightarrow> (uint64 \<Rightarrow> uint64 \<Rightarrow> blocks option) option \<Rightarrow> uint64 \<Rightarrow> detector \<Rightarrow> detector" where
  "rehydrateDoubleSignMap GetSchedule hiveBlocks resumeHeight st =
     (case hiveBlocks of
        None \<Rightarrow> st
      | Some FetchStoredBlocks \<Rightarrow>
          if resumeHeight = 0 then st
          else let slotStart = fst (CalculateSlotInfo resumeHeight) in
            if resumeHeight \<le> slotStart then st
            else let scheduled = scheduledProducer (GetSchedule slotStart) slotStart in
              if scheduled = [] then st
              else case FetchStoredBlocks slotStart (resumeHeight - 1) of
                None \<Rightarrow> st
              | Some bs \<Rightarrow> fold (\<lambda>b. seedProposalsFromStoredBlock b scheduled) bs st)"

section \<open>A restarted node knows the first proposals\<close>

lemma slash_keeps_seen [simp]:
  "seenProposalBySlotProposer (snd (slashForEvidenceIfPolicyAllows env a k i t h key st)) = seenProposalBySlotProposer st"
  by (auto simp: slashForEvidenceIfPolicyAllows_def recordEvidenceAndShouldSlash_def grant_bps_def Let_def
      split: option.split bool.split prod.split)

lemma slot_key_height [simp]: "slotHeightFromSlotKey (slotProposerKey h a) = h"
proof -
  have "CHR ''|'' \<notin> set (FormatUint h)"
    using nat_to_dec_digits [of "unat h"] by (auto simp: FormatUint_def list_all_iff isDigit_def less_eq_char_def)
  then have "takeWhile (\<lambda>c. c \<noteq> CHR ''|'') (slotProposerKey h a) = FormatUint h"
    by (auto simp: slotProposerKey_def takeWhile_append)
  then show ?thesis by (simp add: slotHeightFromSlotKey_def) (simp add: slotProposerKey_def)
qed

text \<open>Two detectors that recorded the same first proposals of a slot.\<close>

definition same_slot :: "uint64 \<Rightarrow> detector \<Rightarrow> detector \<Rightarrow> bool" where
  "same_slot h st st' \<longleftrightarrow>
     (\<forall>a. seenProposalBySlotProposer st (slotProposerKey h a) = seenProposalBySlotProposer st' (slotProposerKey h a))"

lemma same_slot_slash [simp]:
  "same_slot h (snd (slashForEvidenceIfPolicyAllows env a k i t n key st)) st' = same_slot h st st'"
  by (simp add: same_slot_def)

lemma same_slot_record:
  assumes "same_slot h st st'"
  shows "fst (recordFirstSeenProposal h a b st) = fst (recordFirstSeenProposal h a b st')"
    and "same_slot h (snd (recordFirstSeenProposal h a b st)) (snd (recordFirstSeenProposal h a b st'))"
  using assms by (auto simp: same_slot_def recordFirstSeenProposal_def Let_def split: option.split)

lemma produce_seed:
  assumes "same_slot (fst (CalculateSlotInfo n)) st st'" "pr_Decodes p"
  shows "same_slot (fst (CalculateSlotInfo n)) (snd (produce_block env validate scheduled n p st)) (seed_proposal n scheduled p st')"
  using assms same_slot_record(2) [OF assms(1)]
  by (auto simp: produce_block_def seed_proposal_def Let_def case_prod_beta split: list.split)

lemma process_seed:
  assumes "\<forall>(n, p) \<in> set ps. fst (CalculateSlotInfo n) = slot \<and> pr_Decodes p" "same_slot slot st st'"
  shows "same_slot slot (snd (process_proposals env validate scheduled ps st)) (fold (\<lambda>(n, p). seed_proposal n scheduled p) ps st')"
  using assms
proof (induction ps arbitrary: st st')
  case (Cons np ps)
  obtain n p where np: "np = (n, p)" by (cases np)
  have "same_slot slot (snd (produce_block env validate scheduled n p st)) (seed_proposal n scheduled p st')"
    using produce_seed [of n st st' p env validate scheduled] Cons.prems by (auto simp: np)
  from Cons.IH [OF _ this] Cons.prems(1) show ?case by (simp add: np case_prod_beta)
qed simp

lemma fold_blocks: "fold (\<lambda>b. seedProposalsFromStoredBlock b scheduled) bs st = fold (\<lambda>(n, p). seed_proposal n scheduled p) (proposals_of bs) st"
  by (induction bs arbitrary: st) (auto simp: seedProposalsFromStoredBlock_def proposals_of_def fold_map comp_def case_prod_beta)

text \<open>
  C17. A node that restarts inside a slot detects double signing as a node that has been running does: when every
  proposal of the slot before the restart decodes, the first proposals it reconstructs from the stored blocks are
  those the running node recorded, and for every later proposal of the slot both give the same answer whether
  there was an earlier one and which.
\<close>

theorem restart_restores_proposals:
  assumes "slot = fst (CalculateSlotInfo resume)" "slot < resume" "Fetch slot (resume - 1) = Some bs"
    and "scheduled = scheduledProducer (GetSchedule slot) slot" "scheduled \<noteq> []"
    and "\<forall>(n, p) \<in> set (proposals_of bs). fst (CalculateSlotInfo n) = slot \<and> pr_Decodes p"
    and "\<forall>k \<in> dom (seenProposalBySlotProposer st). slotHeightFromSlotKey k < slot"
  shows "fst (recordFirstSeenProposal slot account block (snd (process_proposals env validate scheduled (proposals_of bs) st)))
    = fst (recordFirstSeenProposal slot account block (rehydrateDoubleSignMap GetSchedule (Some Fetch) resume fresh_detector))"
proof -
  have "seenProposalBySlotProposer st (slotProposerKey slot a) = None" for a
    using assms(7) slot_key_height [of slot a] by (metis domI not_None_eq order_less_irrefl)
  then have "same_slot slot st fresh_detector" by (simp add: same_slot_def fresh_detector_def)
  from process_seed [OF assms(6) this, of env validate scheduled]
  have "same_slot slot (snd (process_proposals env validate scheduled (proposals_of bs) st))
      (fold (\<lambda>b. seedProposalsFromStoredBlock b scheduled) bs fresh_detector)"
    by (simp only: fold_blocks)
  moreover have "rehydrateDoubleSignMap GetSchedule (Some Fetch) resume fresh_detector =
      fold (\<lambda>b. seedProposalsFromStoredBlock b scheduled) bs fresh_detector"
    using assms(1-5) by (auto simp: rehydrateDoubleSignMap_def Let_def)
  ultimately show ?thesis by (simp add: same_slot_record(1))
qed

definition alice_env :: detector_env where
  "alice_env = \<lparr>de_Windows = Some [(0, 0)], de_OnMainnet = True, de_DelayVariable = [], de_VersionAt = None\<rparr>"

definition alice_proposal :: "string \<Rightarrow> string \<Rightarrow> bool \<Rightarrow> proposal" where
  "alice_proposal t b ok = \<lparr>pr_RequiredAuths = [''alice''], pr_TxId = t, pr_Block = b, pr_Decodes = ok\<rparr>"

definition alice_schedule :: "uint64 \<Rightarrow> WitnessSlot list" where
  "alice_schedule h = [\<lparr>ws_Account = ''alice'', ws_SlotHeight = h\<rparr>]"

lemma alice_slots [simp]: "fst (CalculateSlotInfo 101) = 100" "fst (CalculateSlotInfo 103) = 100" "fst (CalculateSlotInfo 105) = 100"
  by (simp_all add: CalculateSlotInfo_def SlotLength_def)

lemma alice_scheduled [simp]: "scheduledProducer (alice_schedule h) h = ''alice''"
  by (simp add: scheduledProducer_def slot_of_def alice_schedule_def)

theorem restart_restores_proposals_witness:
  "let bs = [(101, [alice_proposal ''t1'' ''B'' True]), (103, [alice_proposal ''t2'' ''C'' True])]
   in fst (recordFirstSeenProposal 100 ''alice'' ''D'' (snd (process_proposals alice_env (\<lambda>_. BlockValid) ''alice'' (proposals_of bs) fresh_detector)))
     = fst (recordFirstSeenProposal 100 ''alice'' ''D'' (rehydrateDoubleSignMap alice_schedule (Some (\<lambda>_ _. Some bs)) 105 fresh_detector))
   \<and> fst (recordFirstSeenProposal 100 ''alice'' ''D'' (rehydrateDoubleSignMap alice_schedule (Some (\<lambda>_ _. Some bs)) 105 fresh_detector)) = (''B'', True)"
proof -
  let ?bs = "[(101, [alice_proposal ''t1'' ''B'' True]), (103, [alice_proposal ''t2'' ''C'' True])]"
  let ?seed = "rehydrateDoubleSignMap alice_schedule (Some (\<lambda>_ _. Some ?bs)) 105 fresh_detector"
  have "fst (recordFirstSeenProposal 100 ''alice'' ''D'' (snd (process_proposals alice_env (\<lambda>_. BlockValid) ''alice'' (proposals_of ?bs) fresh_detector)))
      = fst (recordFirstSeenProposal 100 ''alice'' ''D'' ?seed)"
    by (rule restart_restores_proposals [where resume = 105 and Fetch = "\<lambda>_ _. Some ?bs" and GetSchedule = alice_schedule])
      (simp_all add: proposals_of_def alice_proposal_def fresh_detector_def)
  moreover have "fst (recordFirstSeenProposal 100 ''alice'' ''D'' ?seed) = (''B'', True)"
    by (simp add: rehydrateDoubleSignMap_def Let_def seedProposalsFromStoredBlock_def seed_proposal_def alice_proposal_def
        recordFirstSeenProposal_def fresh_detector_def)
  ultimately show ?thesis by (simp add: Let_def)
qed


section \<open>The cap of an incident\<close>

definition incident :: "detector \<Rightarrow> string \<Rightarrow> int" where
  "incident st k = (case slashIncidentBpsBySlotAccount st k of None \<Rightarrow> 0 | Some b \<Rightarrow> sint b)"

definition slashed_bps :: "SafetySlashConsensusParams list \<Rightarrow> int" where
  "slashed_bps reqs = sum_list (map (\<lambda>r. sint (sl_SlashBps r)) reqs)"

definition within_cap :: "string \<Rightarrow> detector \<Rightarrow> SafetySlashConsensusParams list \<times> detector \<Rightarrow> bool" where
  "within_cap k st out \<longleftrightarrow> incident (snd out) k = incident st k + slashed_bps (fst out) \<and> incident (snd out) k \<le> 10000
     \<and> (\<forall>r \<in> set (fst out). 0 < sint (sl_SlashBps r) \<and> sint (sl_SlashBps r) \<le> 1000)"

lemma within_cap_none: "incident st k \<le> 10000 \<Longrightarrow> incident st' k = incident st k \<Longrightarrow> within_cap k st ([], st')"
  by (simp add: within_cap_def slashed_bps_def)

lemma within_cap_trans:
  assumes "within_cap k st (reqs, st')" "within_cap k st' (reqs', st'')"
  shows "within_cap k st (reqs @ reqs', st'')"
  using assms by (auto simp: within_cap_def slashed_bps_def)

lemma grant_within_cap:
  assumes "k \<noteq> []" "0 \<le> incident st k" "incident st k \<le> 10000" "grant_bps 1000 k st = (Some bps, st')"
  shows "0 < sint bps" "sint bps \<le> 1000" "incident st' k = incident st k + sint bps" "incident st' k \<le> 10000"
proof -
  obtain already where a: "sint already = incident st k"
      "already = (case slashIncidentBpsBySlotAccount st k of None \<Rightarrow> 0 | Some b \<Rightarrow> b)"
    by (cases "slashIncidentBpsBySlotAccount st k") (auto simp: incident_def)
  have room: "sint (CorrelatedSlashCapBps - already) = 10000 - incident st k"
    using assms(2,3) a(1) by (subst sint_diff_fits) (auto simp: CorrelatedSlashCapBps_def fits_int64_def i64_max_def i64_min_def)
  have g: "0 < sint (CorrelatedSlashCapBps - already)"
      "bps = (if sint (1000 :: int64) < sint (CorrelatedSlashCapBps - already) then 1000 else CorrelatedSlashCapBps - already)"
      "st' = st\<lparr>slashIncidentBpsBySlotAccount := (slashIncidentBpsBySlotAccount st)(k \<mapsto> already + bps)\<rparr>"
    using assms(1,4) a(2) by (auto simp: grant_bps_def Let_def split: if_splits)
  then show b: "0 < sint bps" "sint bps \<le> 1000" by auto
  have le: "incident st k + sint bps \<le> 10000" using g(1,2) room by (auto split: if_splits)
  have "sint (already + bps) = incident st k + sint bps"
    using assms(2) b le a(1) by (subst sint_add_fits) (auto simp: fits_int64_def i64_max_def i64_min_def)
  then show "incident st' k = incident st k + sint bps" by (simp add: g(3) incident_def)
  with le show "incident st' k \<le> 10000" by simp
qed

lemma evidence_within_cap:
  assumes "k \<noteq> []" "0 \<le> incident st k" "incident st k \<le> 10000"
    and "kind = EvidenceVSCDoubleBlockSign \<or> kind = EvidenceVSCInvalidBlockProposal"
  shows "within_cap k st (slashForEvidenceIfPolicyAllows env a kind i t h k st)"
proof -
  have raw: "SlashBpsForEvidenceKind kind = 1000"
    using assms(4) by (auto simp: SlashBpsForEvidenceKind_def DoubleBlockSignSlashBps_def InvalidBlockSlashBps_def)
  obtain go st1 where rec: "recordEvidenceAndShouldSlash a kind i h st = (go, st1)" by fastforce
  have same: "incident st1 k = incident st k"
    using rec by (auto simp: recordEvidenceAndShouldSlash_def incident_def Let_def split: if_splits option.splits)
  obtain bps st2 where grant: "grant_bps 1000 k st1 = (bps, st2)" by fastforce
  show ?thesis
  proof (cases bps)
    case None
    then have "st2 = st1" using grant assms(1) by (auto simp: grant_bps_def Let_def split: if_splits)
    then show ?thesis
      using rec grant None same assms(3)
      by (auto simp: slashForEvidenceIfPolicyAllows_def raw intro!: within_cap_none split: option.split bool.split)
  next
    case (Some b)
    note g = grant_within_cap [OF assms(1) _ _ grant [unfolded Some], unfolded same, OF assms(2,3)]
    show ?thesis
    proof (cases "(\<exists>ws. de_Windows env = Some ws \<and> SafetySlashActive ws h) \<and> go")
      case True
      then show ?thesis
        using rec grant Some g by (auto simp: slashForEvidenceIfPolicyAllows_def raw within_cap_def slashed_bps_def)
    next
      case False
      then show ?thesis
        using rec same assms(3)
        by (auto simp: slashForEvidenceIfPolicyAllows_def intro!: within_cap_none split: option.split bool.split)
    qed
  qed
qed

lemma incident_nonneg: "within_cap k st out \<Longrightarrow> 0 \<le> incident st k \<Longrightarrow> 0 \<le> incident (snd out) k"
proof -
  assume "within_cap k st out" "0 \<le> incident st k"
  moreover have "0 \<le> slashed_bps rs" if "\<forall>r \<in> set rs. 0 < sint (sl_SlashBps r)" for rs
    using that by (induction rs) (auto simp: slashed_bps_def)
  ultimately show ?thesis by (auto simp: within_cap_def)
qed

lemma slot_key_nonempty [simp]: "slotProposerKey h a \<noteq> []"
  by (simp add: slotProposerKey_def)

lemma produce_within_cap:
  assumes "k = slotProposerKey (fst (CalculateSlotInfo n)) scheduled" "0 \<le> incident st k" "incident st k \<le> 10000"
  shows "within_cap k st (produce_block env validate scheduled n p st)"
proof (cases "\<exists>as. pr_RequiredAuths p = scheduled # as")
  case False
  then have "produce_block env validate scheduled n p st = ([], st)" by (auto simp: produce_block_def split: list.split)
  then show ?thesis using assms by (simp add: within_cap_none)
next
  case True
  obtain seen st1 where rec: "recordFirstSeenProposal (fst (CalculateSlotInfo n)) scheduled (pr_Block p) st = (seen, st1)" by fastforce
  have s1: "incident st1 k = incident st k"
    using rec by (auto simp: recordFirstSeenProposal_def incident_def Let_def split: option.splits)
  define double where "double = (if snd seen \<and> fst seen \<noteq> pr_Block p then slashForEvidenceIfPolicyAllows env scheduled EvidenceVSCDoubleBlockSign
    (''double-block|'' @ k @ ''|'' @ fst seen @ ''|'' @ pr_Block p) (pr_TxId p) n k st1 else ([], st1))"
  define invalid where "invalid = (if validate p = BlockInvalid then slashForEvidenceIfPolicyAllows env scheduled EvidenceVSCInvalidBlockProposal
    (''invalid-block|'' @ pr_TxId p) (pr_TxId p) n k (snd double) else ([], snd double))"
  have d: "within_cap k st1 double"
    unfolding double_def using assms s1 by (auto intro!: evidence_within_cap within_cap_none)
  then have "0 \<le> incident (snd double) k" "incident (snd double) k \<le> 10000"
    using incident_nonneg [OF d] assms s1 by (auto simp: within_cap_def)
  then have i: "within_cap k (snd double) invalid"
    unfolding invalid_def using assms by (auto intro!: evidence_within_cap within_cap_none)
  have "produce_block env validate scheduled n p st = (fst double @ fst invalid, snd invalid)"
    using True rec by (auto simp: produce_block_def Let_def double_def invalid_def assms(1) case_prod_beta)
  moreover have "within_cap k st1 (fst double @ fst invalid, snd invalid)"
    using within_cap_trans [of k st1 "fst double" "snd double" "fst invalid" "snd invalid"] d i by simp
  ultimately show ?thesis using s1 by (simp add: within_cap_def)
qed

lemma process_within_cap:
  assumes "\<forall>(n, p) \<in> set ps. fst (CalculateSlotInfo n) = slot"
    and "0 \<le> incident st (slotProposerKey slot scheduled)" "incident st (slotProposerKey slot scheduled) \<le> 10000"
  shows "within_cap (slotProposerKey slot scheduled) st (process_proposals env validate scheduled ps st)"
  using assms
proof (induction ps arbitrary: st)
  case Nil
  then show ?case by (simp add: within_cap_none)
next
  case (Cons np ps)
  let ?k = "slotProposerKey slot scheduled"
  obtain n p where np: "np = (n, p)" by (cases np)
  let ?out = "produce_block env validate scheduled n p st"
  have out: "within_cap ?k st ?out" using Cons.prems by (intro produce_within_cap) (auto simp: np)
  then have "within_cap ?k (snd ?out) (process_proposals env validate scheduled ps (snd ?out))"
    using Cons.IH [of "snd ?out"] Cons.prems incident_nonneg [OF out] by (auto simp: within_cap_def)
  then show ?case
    using within_cap_trans [of ?k st "fst ?out" "snd ?out"] out by (simp add: np case_prod_beta)
qed

text \<open>
  C24. However many conflicting and invalid proposals a producer sends in one slot, the slashes they cause add up to
  at most the whole bond rate of 10000 basis points, each one is positive and at most 1000, and each takes what the
  map of the incident records.
\<close>

theorem incident_slash_capped:
  assumes "\<forall>(n, p) \<in> set ps. fst (CalculateSlotInfo n) = slot" "slashIncidentBpsBySlotAccount st (slotProposerKey slot scheduled) = None"
  shows "case process_proposals env validate scheduled ps st of (reqs, st') \<Rightarrow>
    sum_list (map (\<lambda>r. sint (sl_SlashBps r)) reqs) \<le> 10000
    \<and> (\<forall>r \<in> set reqs. 0 < sint (sl_SlashBps r) \<and> sint (sl_SlashBps r) \<le> 1000)
    \<and> incident st' (slotProposerKey slot scheduled) = sum_list (map (\<lambda>r. sint (sl_SlashBps r)) reqs)"
proof -
  let ?k = "slotProposerKey slot scheduled"
  have "incident st ?k = 0" using assms(2) by (simp add: incident_def)
  then show ?thesis
    using process_within_cap [OF assms(1), of st scheduled env validate]
    by (simp add: within_cap_def slashed_bps_def case_prod_beta)
qed

theorem incident_slash_capped_witness:
  "case process_proposals alice_env (\<lambda>_. BlockInvalid) ''alice'' (map (\<lambda>b. (101, alice_proposal [b] [b] True)) ''abcdef'') fresh_detector of
     (reqs, st) \<Rightarrow> sum_list (map (\<lambda>r. sint (sl_SlashBps r)) reqs) \<le> 10000 \<and> length reqs = 10"
proof -
  let ?ps = "map (\<lambda>b. (101, alice_proposal [b] [b] True)) ''abcdef''"
  have "\<forall>(n, p) \<in> set ?ps. fst (CalculateSlotInfo n) = 100" by auto
  from incident_slash_capped [OF this, of fresh_detector "''alice''" alice_env "\<lambda>_. BlockInvalid"]
  have "sum_list (map (\<lambda>r. sint (sl_SlashBps r)) (fst (process_proposals alice_env (\<lambda>_. BlockInvalid) ''alice'' ?ps fresh_detector))) \<le> 10000"
    by (simp add: fresh_detector_def case_prod_beta)
  moreover have "length (fst (process_proposals alice_env (\<lambda>_. BlockInvalid) ''alice'' ?ps fresh_detector)) = 10" by code_simp
  ultimately show ?thesis by (simp only: case_prod_beta simp_thms)
qed

end
