(* ===== verification/Spec2Isabelle.thy ===== *)
theory Spec2Isabelle
  imports Session_Spec Interest Actions Balances_Spec Deposit Rc Swap Rewards Settlement_Apply_Spec Timelock_Spec Quorum_Spec Evidence
begin

text \<open>
  A verification development of the VSC node: of its ledger, and of the parts of the consensus that move
  value on the ledger or decide who may.

  \<^bold>\<open>The program.\<close> The node follows the blocks of a base chain. Transfers to a gateway account become deposits
  on its own ledger; transactions run on a \<^emph>\<open>session\<close>, an overlay over the ledger, and leave a log of
  operations; a block of the committee fixes the log, whose ledger rows and gateway actions are then written to
  MongoDB; at the end of every slot matured actions are released, matured slashes are promoted and the balances
  are snapshotted. Nodes bond stake. Interest on the gateway's savings, swap fees and rewards are paid through
  the ledger: the fees of swaps gather in a bucket that is divided over the committee once per epoch, in
  proportion to bonds that liveness scores reduce, and further to the delegators of sharing nodes. A producer
  that signs two blocks for one slot, or an invalid one, loses a part of its bond. The committee is elected; what
  it signs is accepted by weight. All paths below are under src/.

  \<^bold>\<open>The machine.\<close>
  \<^item> Prelude: 64-bit integers as words that wrap, truncating division, byte strings, strconv and strings.
  \<^item> Mongo: the driver is not part of the repository. Its collection operations are a record argument of
    every definition that reads or writes; the locale \<open>mongo_collection\<close> states what its documentation
    promises, and \<open>list_collection\<close>, a list of documents, satisfies it. A server is its contents and a
    schedule of faults: a failing call may or may not have taken effect.
  \<^item> FailStop: the loop of \<open>blockingRetry\<close>, \<open>blockingLedgerRead\<close> and \<open>balanceRecordOrBlock\<close> as a partial
    function. It returns on every server of the model, since a schedule of faults is finite; without that
    assumption the loop of the code may wait for ever. \<open>batch_store\<close> is the contract of a sequence of upserts.

  \<^bold>\<open>The ledger\<close> (modules/ledger-system, modules/db/vsc/ledger).
  \<^item> LedgerDb: records and access layer of the four collections, each write an upsert under its key.
    \<open>ledger_collection\<close> and \<open>balance_collection\<close> give the views that the client proofs rest on.
  \<^item> Oplog: types.go and utils.go, \<open>ExecuteOplog\<close> and each operation it dispatches on. Shown: rows and
    actions of a log sum to zero for every coin; ids of one log are distinct.
  \<^item> Ledger_State: ledger_state.go. Shown: the spend check replays the ledger from whichever snapshot it
    starts, and the two bond reads agree.
  \<^item> Session, Session_Spec: ledger_session.go. The specification of a session is a function from accounts and
    assets to balances with an outcome for each operation; a simulation shows that every sequence of operations
    implements it under any faults. An accepted operation is covered; a savepoint restores the session; the release
    of a slashed delegation is pro rata.
  \<^item> Slash, Slash_Spec: slashes, their challenge window, promotion, cancellation, reversal and the reserve.
    Shown: floors, completion after a crash between two rows, finality after maturity, no overdraft, no promotion
    after a cancel.
  \<^item> Interest: \<open>ClaimHBDInterest\<close>. Shown: the shares are exact floors, never more than the payment, and the
    rows do not depend on the order in which a server lists accounts.
  \<^item> Actions: \<open>IngestOplog\<close> and \<open>IndexActions\<close>. Shown: what leaves the ledger is what the gateway owes; a
    report is credited once; a failed write of an action loses the payout.
  \<^item> Deposit: gateway transfers of state_engine.go, memos and \<open>Deposit\<close>. Shown: each transfer is credited
    once, to the account the memo names or the sender.
  \<^item> Balances, Balances_Spec: \<open>UpdateBalances\<close>. Shown: every snapshot stays the replay of the ledger at its
    height, which is the hypothesis of the spend check; a payout whose completion fails is paid again.
  \<^item> Rc: modules/rc-system, modules/db/vsc/rcs and \<open>UpdateRcMap\<close>. Shown: consumption within the
    allowance in a session, and what the end of a slot freezes.
\<close>

text \<open>
  \<^bold>\<open>The incentive pendulum\<close> (lib/intmath, modules/incentive-pendulum, modules/common/consensusversion,
  modules/common/delegationmode).
  \<^item> Pendulum: the curve that splits a pot between nodes and liquidity providers, bands and fees.
  \<^item> ConsensusVersion: versions, their order, and every feature gate that the other theories consult.
  \<^item> Swap: \<open>ApplySwapFees\<close> and the accrual to the ledger session. Shown: the gross output is divided
    exactly, the reserves account for it, their product never falls, and the accrual is covered.
  \<^item> Rewards: liveness scores of a tick and reductions of an epoch. The loop over ticks is a partial function,
    since its height may wrap; it is shown to end when the last height plus the interval does not.
  \<^item> Delegation: delegation edges, their migration, delegation modes, the edges a settlement reads.
  \<^item> Settlement, Settlement_Spec: the record of an epoch. Shown: it conserves the bucket, pays delegators
    their floors, and does not depend on the order in which the maps are visited.
  \<^item> Settlement_Apply, Settlement_Apply_Spec: validation, re-derivation and payment of a record
    (modules/state-processing/pendulum_settlement.go) and the settlement part of an election. Shown: payment once
    and in full on a responding database; an interrupted payment does not complete; a synthesised marker is refused.
  \<^item> Timelock, Timelock_Spec: announcements of modes, the pruned witness rows and the lock on leaving the share
    mode (delegation_mode.go, modules/db/vsc/witnesses).

  \<^bold>\<open>Consensus\<close> (lib/dids/quorum.go, modules/state-processing).
  \<^item> Quorum, Quorum_Spec: the weight fold and its three uses, on commitments, elections and blocks. Shown:
    any two accepted certificates of a committee share a third of its weight; an election whose weights do not match
    its members ratifies anything.
  \<^item> Schedule: rounds, slots and the schedule of a round. Shown: balanced, complete, in order.
  \<^item> Evidence: first proposals, double signing, invalid proposals, the slash policy and a restart within a slot.
    Shown: the cap of an incident, agreement of a restarted node when proposals decode, and its failure otherwise.

  \<^bold>\<open>Representation.\<close> A Go map that is only read by key is a function or a partial map; one that is iterated is
  a list of entries with distinct keys, and a theorem states that the order does not matter where the code relies
  on it. A pointer that may be nil is an option. A panic is \<open>None\<close>; an error is a value of a sum type. Handlers
  pass their state explicitly, the servers of the databases included. Logging is left out.

  \<^bold>\<open>Bounds.\<close> There is no fuel. The retry loop and the loop over ticks are partial functions, and their
  termination is part of the theorems; every other loop is a recursive function that HOL proves total. Where a sum of machine
  integers could wrap, the theorem has the bound as a hypothesis on the inputs (such as the total of the bonds of a
  committee or of the weights of an election), and a witness instantiates it.

  \<^bold>\<open>Parameters.\<close> Arguments of the definitions stand for code outside the repository: the MongoDB driver,
  encoding/json, the BLS aggregate and its verification, the checksum of addresses. The geometry of the pools,
  the whitelist, the evidence of a tick and the shuffle of a seed are arguments too, read through interfaces of
  the code that is modelled, as is the vote threshold of elections before version 0.2.0, which is floating-point
  arithmetic.

  \<^bold>\<open>Not modelled.\<close> The network (modules/p2p, announcements), the data layer, the contract runtime beyond its swap entry
  point, threshold signatures (modules/tss), price oracle and relays (modules/oracle), the producer and the election
  proposer, which gather signatures over the network, the gateway's multisig transactions, the transaction pool, the
  streaming of blocks (modules/hive) and the GraphQL resolvers: services, transport or cryptographic libraries.
  In modules/state-processing, the dispatch of transactions, \<open>ExecuteBatch\<close>, the governance and remediation
  handlers, the registry of proof-of-authority seats and the governance of consensus versions are not modelled; where
  they move value they call operations of the ledger that are. The floating-point moving averages of the pendulum's
  oracle and the paged queries of the API are left out.
\<close>

end
